(* ===== verification/Prelude.thy ===== *)
theory Prelude
  imports Main "HOL-Library.Word" "HOL-Library.Monad_Syntax"
begin

text \<open>
  Shared vocabulary of the development: 32-bit words, C pointers, and linked structures over a
  pointer field: lists that end in \<open>NULL\<close>, and rings of nodes that point at each other.

  A C pointer to an element of a static array is \<open>nat option\<close>: \<open>None\<close> is the \<open>NULL\<close> of
  \<open>h/const.h\<close>, \<open>Some i\<close> the address of element \<open>i\<close>.  A dereference is the bind of the option
  monad, so a function whose result is \<open>None\<close> has dereferenced \<open>NULL\<close> or never leaves a loop.
\<close>

type_synonym u32 = "32 word"
type_synonym ptr = "nat option"

abbreviation NULL :: ptr where "NULL \<equiv> None"

named_theorems frame_simps \<open>what an operation leaves unchanged\<close>
named_theorems link_simps \<open>reading the links of updated nodes\<close>

section \<open>Singly linked lists that end in NULL\<close>

fun slist :: "(nat \<Rightarrow> ptr) \<Rightarrow> ptr \<Rightarrow> nat list \<Rightarrow> bool" where
  "slist nx p [] \<longleftrightarrow> p = NULL"
| "slist nx p (x # xs) \<longleftrightarrow> p = Some x \<and> slist nx (nx x) xs"

lemma slist_NULL [simp]: "slist nx NULL xs \<longleftrightarrow> xs = []"
  by (cases xs) auto

lemma slist_Some: "slist nx (Some i) xs \<longleftrightarrow> (\<exists>ys. xs = i # ys \<and> slist nx (nx i) ys)"
  by (cases xs) auto

lemma slist_cong: "(\<And>x. x \<in> set xs \<Longrightarrow> nx x = ny x) \<Longrightarrow> slist nx p xs = slist ny p xs"
  by (induction xs arbitrary: p) auto

lemma slist_upd [simp]: "i \<notin> set xs \<Longrightarrow> slist (nx(i := v)) p xs = slist nx p xs"
  by (rule slist_cong) auto

lemma slist_det: "slist nx p xs \<Longrightarrow> slist nx p ys \<Longrightarrow> xs = ys"
  by (induction xs arbitrary: p ys) (auto simp: slist_Some)

lemma slist_range:
  assumes "\<And>i. a \<le> i \<Longrightarrow> i < b \<Longrightarrow> nx i = (if i + 1 < b then Some (i + 1) else NULL)"
    and "a < b"
  shows "slist nx (Some a) [a..<b]"
  using assms
proof (induction "b - a" arbitrary: a)
  case (Suc n)
  show ?case
  proof (cases "a + 1 < b")
    case True
    then have "slist nx (Some (a + 1)) [a + 1..<b]"
      using Suc by (intro Suc.hyps(1)) auto
    then show ?thesis using True Suc.prems by (simp add: upt_rec [of a])
  next
    case False
    then have "b = Suc a" using Suc.prems by simp
    then show ?thesis using Suc.prems by simp
  qed
qed simp

text \<open>A prefix of a list, from pointer \<open>p\<close> to pointer \<open>q\<close>.\<close>

fun spath :: "(nat \<Rightarrow> ptr) \<Rightarrow> ptr \<Rightarrow> nat list \<Rightarrow> ptr \<Rightarrow> bool" where
  "spath nx p [] q \<longleftrightarrow> p = q"
| "spath nx p (x # xs) q \<longleftrightarrow> p = Some x \<and> spath nx (nx x) xs q"

lemma spath_append [simp]:
  "spath nx p (xs @ ys) r \<longleftrightarrow> (\<exists>q. spath nx p xs q \<and> spath nx q ys r)"
  by (induction xs arbitrary: p) auto

lemma slist_append [simp]: "slist nx p (xs @ ys) \<longleftrightarrow> (\<exists>q. spath nx p xs q \<and> slist nx q ys)"
  by (induction xs arbitrary: p) auto

lemma spath_cong: "(\<And>x. x \<in> set xs \<Longrightarrow> nx x = ny x) \<Longrightarrow> spath nx p xs q = spath ny p xs q"
  by (induction xs arbitrary: p) auto

lemma spath_upd [simp]: "i \<notin> set xs \<Longrightarrow> spath (nx(i := v)) p xs q = spath nx p xs q"
  by (rule spath_cong) auto

text \<open>Linking a node in after \<open>x\<close>, and out again.\<close>

lemma slist_link_in:
  assumes "slist f p (xs @ x # ys)" and "distinct (xs @ x # ys)" and "i \<notin> set (xs @ x # ys)"
  shows "slist (f(i := f x, x := Some i)) p (xs @ x # i # ys)"
proof -
  have "spath f p xs (Some x)" "slist f (f x) ys" using assms(1) by auto
  moreover have "spath (f(i := f x, x := Some i)) p xs (Some x) = spath f p xs (Some x)"
    by (rule spath_cong) (use assms in auto)
  moreover have "slist (f(i := f x, x := Some i)) (f x) ys = slist f (f x) ys"
    by (rule slist_cong) (use assms in auto)
  ultimately show ?thesis using assms(2,3) by auto
qed

lemma slist_link_out:
  assumes "slist f p (xs @ x # i # ys)" and "distinct (xs @ x # i # ys)"
  shows "slist (f(x := f i)) p (xs @ x # ys)"
proof -
  have "spath f p xs (Some x)" "slist f (f i) ys" using assms(1) by auto
  moreover have "spath (f(x := f i)) p xs (Some x) = spath f p xs (Some x)"
    by (rule spath_cong) (use assms in auto)
  moreover have "slist (f(x := f i)) (f i) ys = slist f (f i) ys"
    by (rule slist_cong) (use assms in auto)
  ultimately show ?thesis by auto
qed

section \<open>Doubly linked chains\<close>

text \<open>Neighbours of the list point at each other; \<open>cyc\<close> also links the last to the first.\<close>

fun dlinked :: "(nat \<Rightarrow> ptr) \<Rightarrow> (nat \<Rightarrow> ptr) \<Rightarrow> nat list \<Rightarrow> bool" where
  "dlinked nx pv [] \<longleftrightarrow> True"
| "dlinked nx pv [x] \<longleftrightarrow> True"
| "dlinked nx pv (x # y # zs) \<longleftrightarrow> nx x = Some y \<and> pv y = Some x \<and> dlinked nx pv (y # zs)"

definition cyc :: "(nat \<Rightarrow> ptr) \<Rightarrow> (nat \<Rightarrow> ptr) \<Rightarrow> nat list \<Rightarrow> bool" where
  "cyc nx pv xs = (case xs of [] \<Rightarrow> True | x # _ \<Rightarrow> dlinked nx pv (xs @ [x]))"

lemma dlinked_append:
  "dlinked nx pv (xs @ y # ys) \<longleftrightarrow> dlinked nx pv (xs @ [y]) \<and> dlinked nx pv (y # ys)"
proof (induction xs)
  case Nil
  then show ?case by simp
next
  case (Cons x xs)
  then show ?case by (cases xs) auto
qed

lemma dlinked_cong:
  assumes "\<And>x. x \<in> set (butlast xs) \<Longrightarrow> nx x = nx' x"
    and "\<And>x. x \<in> set (tl xs) \<Longrightarrow> pv x = pv' x"
  shows "dlinked nx pv xs = dlinked nx' pv' xs"
  using assms
proof (induction xs rule: induct_list012)
  case (3 x y zs)
  have "dlinked nx pv (y # zs) = dlinked nx' pv' (y # zs)"
  proof (rule "3.IH"(2))
    fix a assume "a \<in> set (butlast (y # zs))"
    then show "nx a = nx' a" by (intro "3.prems"(1)) simp
  next
    fix a assume "a \<in> set (tl (y # zs))"
    then show "pv a = pv' a" by (intro "3.prems"(2)) simp
  qed
  moreover have "nx x = nx' x" "pv y = pv' y"
    using "3.prems"(1) [of x] "3.prems"(2) [of y] by simp_all
  ultimately show ?case by simp
qed simp_all

lemma cyc_Nil [simp]: "cyc nx pv []"
  by (simp add: cyc_def)

lemma cyc_Cons: "cyc nx pv (x # xs) \<longleftrightarrow> dlinked nx pv (x # xs @ [x])"
  by (simp add: cyc_def)

lemma cyc_cong:
  assumes "\<And>x. x \<in> set xs \<Longrightarrow> nx x = nx' x" and "\<And>x. x \<in> set xs \<Longrightarrow> pv x = pv' x"
  shows "cyc nx pv xs = cyc nx' pv' xs"
proof (cases xs)
  case (Cons x ys)
  have "dlinked nx pv (xs @ [x]) = dlinked nx' pv' (xs @ [x])"
    using assms Cons by (intro dlinked_cong) (auto simp: butlast_append split: if_splits)
  then show ?thesis using Cons by (simp add: cyc_def)
qed simp

lemma cyc_hd: "xs \<noteq> [] \<Longrightarrow> cyc nx pv xs = dlinked nx pv (xs @ [hd xs])"
  by (cases xs) (auto simp: cyc_def)

lemma cyc_rotate: "cyc nx pv (xs @ ys) = cyc nx pv (ys @ xs)"
proof (cases "xs = [] \<or> ys = []")
  case False
  then obtain x xs' y ys' where eq: "xs = x # xs'" "ys = y # ys'"
    by (cases xs; cases ys) auto
  have "cyc nx pv (xs @ ys) \<longleftrightarrow> dlinked nx pv ((x # xs') @ y # (ys' @ [x]))"
    by (simp add: eq cyc_def)
  moreover have "cyc nx pv (ys @ xs) \<longleftrightarrow> dlinked nx pv ((y # ys') @ x # (xs' @ [y]))"
    by (simp add: eq cyc_def)
  moreover note dlinked_append [of nx pv "x # xs'" y "ys' @ [x]"]
    dlinked_append [of nx pv "y # ys'" x "xs' @ [y]"]
  ultimately show ?thesis by auto
qed auto

text \<open>Taking a node out of a ring, and putting one in at the end.\<close>

lemma cyc_remove:
  assumes "cyc nx pv (p # xs)" and "distinct (p # xs)" and "xs \<noteq> []"
  shows "nx p = Some (hd xs)" and "pv p = Some (last xs)"
    and "cyc (nx(last xs := Some (hd xs))) (pv(hd xs := Some (last xs))) xs"
proof -
  from assms(3) obtain y ys where xs: "xs = y # ys" by (cases xs) auto
  from assms(3) obtain zs z where xs': "xs = zs @ [z]" by (cases xs rule: rev_cases) auto
  have ends: "hd xs = y" "last xs = z" by (simp add: xs) (simp add: xs')
  have closed: "xs @ [y] = zs @ z # [y]" by (simp add: xs')
  have "dlinked nx pv (p # y # ys @ [p])"
    using assms(1) xs by (simp add: cyc_Cons)
  then show "nx p = Some (hd xs)" by (simp add: xs)
  have chain: "dlinked nx pv ((p # zs) @ z # [p])"
    using assms(1) xs' by (simp add: cyc_Cons)
  then have "dlinked nx pv [z, p]" and zs: "dlinked nx pv (p # zs @ [z])"
    using dlinked_append [of nx pv "p # zs" z "[p]"] by auto
  then show "pv p = Some (last xs)" using xs' by simp
  have inner: "dlinked nx pv xs"
    using zs xs' by (cases "zs @ [z]") auto
  let ?n = "nx(z := Some y)" and ?v = "pv(y := Some z)"
  have "dlinked ?n ?v (zs @ [z]) = dlinked nx pv (zs @ [z])"
  proof (rule dlinked_cong)
    fix x assume "x \<in> set (butlast (zs @ [z]))"
    then show "?n x = nx x" using assms(2) xs' by auto
  next
    fix x assume "x \<in> set (tl (zs @ [z]))"
    then show "?v x = pv x" using assms(2) xs xs' by auto
  qed
  then have "dlinked ?n ?v (zs @ z # [y])"
    using inner xs' dlinked_append [of ?n ?v zs z "[y]"] by simp
  then have "cyc ?n ?v xs"
    using cyc_hd [OF assms(3)] ends closed by simp
  then show "cyc (nx(last xs := Some (hd xs))) (pv(hd xs := Some (last xs))) xs"
    using ends by simp
qed

lemma cyc_insert:
  assumes "cyc nx pv xs" and "distinct xs" and "xs \<noteq> []" and "p \<notin> set xs"
  shows "cyc (nx(p := Some (hd xs), last xs := Some p))
             (pv(p := Some (last xs), hd xs := Some p)) (xs @ [p])"
proof -
  from assms(3) obtain y ys where xs: "xs = y # ys" by (cases xs) auto
  from assms(3) obtain zs z where xs': "xs = zs @ [z]" by (cases xs rule: rev_cases) auto
  have ends: "hd xs = y" "last xs = z" by (simp add: xs) (simp add: xs')
  have closed: "xs @ [y] = zs @ z # [y]" by (simp add: xs')
  let ?n = "nx(p := Some y, z := Some p)" and ?v = "pv(p := Some z, y := Some p)"
  have "dlinked nx pv (zs @ z # [y])"
    using assms(1) cyc_hd [OF assms(3)] ends closed by simp
  then have "dlinked nx pv (zs @ [z])"
    using dlinked_append [of nx pv zs z "[y]"] by simp
  moreover have "dlinked ?n ?v (zs @ [z]) = dlinked nx pv (zs @ [z])"
  proof (rule dlinked_cong)
    fix x assume "x \<in> set (butlast (zs @ [z]))"
    then show "?n x = nx x" using assms xs' by auto
  next
    fix x assume x: "x \<in> set (tl (zs @ [z]))"
    then have "x \<noteq> y" using assms(2) xs xs' by (metis distinct.simps(2) list.sel(3))
    moreover have "x \<noteq> p" using x assms(4) xs' by (auto dest: list.set_sel(2) [rotated])
    ultimately show "?v x = pv x" by simp
  qed
  ultimately have "dlinked ?n ?v (zs @ [z])" by simp
  moreover have "z \<noteq> p" "y \<noteq> p"
    using assms(3,4) last_in_set [of xs] hd_in_set [of xs] ends by auto
  ultimately have "dlinked ?n ?v (zs @ z # [p, y])"
    using dlinked_append [of ?n ?v zs z "[p, y]"] by simp
  moreover have "hd (xs @ [p]) = y"
    by (simp add: xs)
  then have "(xs @ [p]) @ [hd (xs @ [p])] = zs @ z # [p, y]"
    by (simp add: xs')
  moreover have "xs @ [p] \<noteq> []" by simp
  ultimately have "cyc ?n ?v (xs @ [p])"
    by - (subst cyc_hd, assumption, erule ssubst, assumption)
  then show ?thesis using ends by simp
qed

section \<open>Signed words\<close>

abbreviation (input) int_min :: int where "int_min \<equiv> - (2 ^ 31)"
abbreviation (input) int_max :: int where "int_max \<equiv> 2 ^ 31 - 1"

lemma sint_dec: "int_min < sint (v :: u32) \<Longrightarrow> sint (v - 1) = sint v - 1"
  using sint_greater_eq [of v] sint_less [of v]
  by (subst sint_word_ariths) (simp add: signed_take_bit_int_eq_self)

lemma sint_inc: "sint (v :: u32) < int_max \<Longrightarrow> sint (v + 1) = sint v + 1"
  using sint_greater_eq [of v] sint_less [of v]
  by (subst sint_word_ariths) (simp add: signed_take_bit_int_eq_self)

lemma sint_add_nat: "sint (v :: u32) + int k \<le> int_max \<Longrightarrow> sint (v + of_nat k) = sint v + int k"
proof (induction k)
  case (Suc k)
  then have "sint (v + of_nat k) = sint v + int k" by simp
  moreover have "sint ((v + of_nat k) + 1) = sint (v + of_nat k) + 1"
    using Suc.prems calculation by (intro sint_inc) simp
  ultimately show ?case by (simp add: ac_simps)
qed simp

lemma sint_small:
  assumes "unat (v :: u32) < 2 ^ 31"
  shows "sint v = int (unat v)"
proof -
  have "int (unat v) < int (2 ^ 31)" using assms by (rule iffD2 [OF of_nat_less_iff])
  then have "uint v < 2 ^ 31" by simp
  then have "signed_take_bit 31 (uint v) = uint v"
    using uint_ge_0 [of v] by (intro signed_take_bit_int_eq_self) linarith+
  then show ?thesis unfolding sint_uint by simp
qed

lemma sint_nonneg:
  assumes "0 \<le> sint (v :: u32)"
  shows "int (unat v) = sint v"
proof -
  have "uint (word_of_int (sint v) :: u32) = sint v"
    using assms sint_less [of v] by (subst uint_word_of_int) (simp add: take_bit_int_eq_self)
  then show ?thesis by simp
qed

lemma unat_of_nat_small:
  assumes "n < 2 ^ 32"
  shows "unat (of_nat n :: u32) = n"
  using assms by (simp add: unsigned_of_nat take_bit_nat_eq_self)

end
