(* ===== verification/Types.thy ===== *)
theory Types
  imports Prelude
begin

text \<open>
  The data of the kernel: the structures of \<open>h/types.h\<close> as records with the fields of the
  source, and the constants of \<open>h/const.h\<close> that the modelled code uses.

  Every C \<open>int\<close>, \<open>unsigned int\<close>, \<open>cpu_t\<close> and \<open>memaddr\<close> is a 32-bit word; a signed comparison is
  written with \<open>sint\<close>.  An \<open>int *\<close> (a semaphore address) is the address itself, a word, because
  the code orders and compares such addresses; its \<open>NULL\<close> is the word \<open>0xFFFFFFFF\<close>.  Pointers to
  \<open>pcb_t\<close>, \<open>semd_t\<close>, \<open>support_t\<close> and \<open>delayd_t\<close> only ever point into the static arrays of those
  types and are indices into them (\<open>ptr\<close>).
\<close>

unbundle bit_operations_syntax

section \<open>Constants\<close>

abbreviation (input) MAXPROC :: nat where "MAXPROC \<equiv> 20"
abbreviation (input) MAXINT :: u32 where "MAXINT \<equiv> 0x7FFFFFFF"
abbreviation (input) NULL_addr :: u32 where "NULL_addr \<equiv> 0xFFFFFFFF"
abbreviation (input) PAGESIZE :: u32 where "PAGESIZE \<equiv> 4096"
abbreviation (input) STATEREGNUM :: nat where "STATEREGNUM \<equiv> 31"
abbreviation (input) PAGE_TABLE_SIZE :: nat where "PAGE_TABLE_SIZE \<equiv> 32"
abbreviation (input) DEVPERINT :: u32 where "DEVPERINT \<equiv> 8"
abbreviation (input) NUM_DEVICES :: u32 where "NUM_DEVICES \<equiv> 48"

abbreviation (input) TODLOADDR :: u32 where "TODLOADDR \<equiv> 0x1000001C"
abbreviation (input) INTERVALTMR :: u32 where "INTERVALTMR \<equiv> 0x10000020"
abbreviation (input) TIMESCALEADDR :: u32 where "TIMESCALEADDR \<equiv> 0x10000024"
abbreviation (input) RAMBASEADDR :: u32 where "RAMBASEADDR \<equiv> 0x10000000"
abbreviation (input) RAMBASESIZE :: u32 where "RAMBASESIZE \<equiv> 0x10000004"
abbreviation (input) CLOCKINTERVAL :: u32 where "CLOCKINTERVAL \<equiv> 100000"

abbreviation (input) IEPBITON :: u32 where "IEPBITON \<equiv> 0x4"
abbreviation (input) KUPBITON :: u32 where "KUPBITON \<equiv> 0x8"
abbreviation (input) TEBITON :: u32 where "TEBITON \<equiv> 0x08000000"
abbreviation (input) IM :: u32 where "IM \<equiv> 0x0000FF00"
abbreviation (input) IECON :: u32 where "IECON \<equiv> 0x1"
abbreviation (input) TIMEROFF :: u32 where "TIMEROFF \<equiv> 0xFFFFFCFF"
abbreviation (input) CAUSEMASK :: u32 where "CAUSEMASK \<equiv> 0xFF"
abbreviation (input) IPMASK :: u32 where "IPMASK \<equiv> 0x0000FF00"
abbreviation (input) IPSHIFT :: nat where "IPSHIFT \<equiv> 8"
abbreviation (input) STATUS_MASK :: u32 where "STATUS_MASK \<equiv> 0xFF"

abbreviation (input) PGFAULTEXCEPT :: nat where "PGFAULTEXCEPT \<equiv> 0"
abbreviation (input) GENERALEXCEPT :: nat where "GENERALEXCEPT \<equiv> 1"
abbreviation (input) TERMINT :: u32 where "TERMINT \<equiv> 7"
abbreviation (input) ACK :: u32 where "ACK \<equiv> 1"

abbreviation (input) VPN_MASK :: u32 where "VPN_MASK \<equiv> 0xFFFFF000"
abbreviation (input) VPNSHIFT :: nat where "VPNSHIFT \<equiv> 12"
abbreviation (input) VPN_BASE :: u32 where "VPN_BASE \<equiv> 0x80000000"
abbreviation (input) STACK_PAGE_INDEX :: u32 where "STACK_PAGE_INDEX \<equiv> 31"
abbreviation (input) STACK_PAGE_VPN :: u32 where "STACK_PAGE_VPN \<equiv> 0xBFFFF000"

section \<open>Structures\<close>

record state_t =
  s_entryHI :: u32
  s_cause :: u32
  s_status :: u32
  s_pc :: u32
  s_reg :: "nat \<Rightarrow> u32"

text \<open>The named registers of \<open>state_t\<close> that the modelled code reads or writes.\<close>

abbreviation (input) r_v0 :: nat where "r_v0 \<equiv> 1"
abbreviation (input) r_a0 :: nat where "r_a0 \<equiv> 3"
abbreviation (input) r_a1 :: nat where "r_a1 \<equiv> 4"
abbreviation (input) r_a2 :: nat where "r_a2 \<equiv> 5"
abbreviation (input) r_a3 :: nat where "r_a3 \<equiv> 6"
abbreviation (input) r_t9 :: nat where "r_t9 \<equiv> 24"
abbreviation (input) r_sp :: nat where "r_sp \<equiv> 26"

definition set_reg :: "nat \<Rightarrow> u32 \<Rightarrow> state_t \<Rightarrow> state_t" where
  "set_reg r v st = st\<lparr>s_reg := (s_reg st)(r := v)\<rparr>"

record context_t =
  c_stackPtr :: u32
  c_status :: u32
  c_pc :: u32

record pageTableEntry_t =
  entryHi :: u32
  entryLo :: u32

text \<open>
  \<open>sup_privateSem\<close> of \<open>support_t\<close> is used through its address only, as a semaphore; it lives in
  the word memory of the kernel state, at the address the link map gives.
\<close>

record support_t =
  sup_asid :: u32
  sup_exceptState :: "nat \<Rightarrow> state_t"
  sup_exceptContext :: "nat \<Rightarrow> context_t"
  sup_pageTable :: "nat \<Rightarrow> pageTableEntry_t"
  sup_next :: ptr

record pcb_t =
  p_next :: ptr
  p_prev :: ptr
  p_prnt :: ptr
  p_child :: ptr
  p_sib_right :: ptr
  p_sib_left :: ptr
  p_s :: state_t
  p_time :: u32
  p_startTOD :: u32
  p_semAdd :: u32
  p_supportStruct :: ptr

record semd_t =
  s_next :: ptr
  s_semAdd :: u32
  s_procQ :: ptr

lemma set_reg_simps [simp]:
  "s_reg (set_reg r v st) r' = (if r' = r then v else s_reg st r')"
  "s_pc (set_reg r v st) = s_pc st"
  "s_cause (set_reg r v st) = s_cause st"
  "s_status (set_reg r v st) = s_status st"
  "s_entryHI (set_reg r v st) = s_entryHI st"
  by (simp_all add: set_reg_def)

section \<open>Cleared storage\<close>

text \<open>The kernel's static data starts zeroed: the values the concrete examples start from.\<close>

definition zero_state :: state_t where
  "zero_state = \<lparr>s_entryHI = 0, s_cause = 0, s_status = 0, s_pc = 0, s_reg = (\<lambda>_. 0)\<rparr>"

definition zero_pcb :: pcb_t where
  "zero_pcb = \<lparr>p_next = NULL, p_prev = NULL, p_prnt = NULL, p_child = NULL, p_sib_right = NULL,
     p_sib_left = NULL, p_s = zero_state, p_time = 0, p_startTOD = 0, p_semAdd = 0,
     p_supportStruct = NULL\<rparr>"

definition zero_semd :: semd_t where
  "zero_semd = \<lparr>s_next = NULL, s_semAdd = 0, s_procQ = NULL\<rparr>"

definition zero_support :: support_t where
  "zero_support = \<lparr>sup_asid = 0, sup_exceptState = (\<lambda>_. zero_state),
     sup_exceptContext = (\<lambda>_. \<lparr>c_stackPtr = 0, c_status = 0, c_pc = 0\<rparr>),
     sup_pageTable = (\<lambda>_. \<lparr>entryHi = 0, entryLo = 0\<rparr>), sup_next = NULL\<rparr>"

end
