(* ===== verification/Interfaces.thy ===== *)
theory Interfaces
  imports Prelude
begin

text \<open>
  The interfaces between the modules of the kernel, as locales: what a client of a pool of
  statically allocated nodes, of a process queue and of a table of waiting processes may rely
  on.  The modules that provide them (\<open>Pcb\<close>, \<open>AslRefine\<close>) interpret them on their definitions.
\<close>

section \<open>Pools of statically allocated nodes\<close>

text \<open>
  The kernel keeps its PCBs, semaphore descriptors, support structures and delay descriptors in
  static arrays with a free list each.  The contract of such a pool: \<open>pool s xs\<close> holds when the
  nodes \<open>xs\<close> are free, in list order.
\<close>

fun alloc_many :: "('s \<Rightarrow> (ptr \<times> 's) option) \<Rightarrow> nat \<Rightarrow> 's \<Rightarrow> (ptr list \<times> 's) option" where
  "alloc_many alloc 0 s = Some ([], s)"
| "alloc_many alloc (Suc n) s = do {
     (p, s) \<leftarrow> alloc s;
     (ps, s) \<leftarrow> alloc_many alloc n s;
     Some (p # ps, s)
   }"

locale node_pool =
  fixes pool :: "'s \<Rightarrow> nat list \<Rightarrow> bool"
    and alloc :: "'s \<Rightarrow> (ptr \<times> 's) option"
    and release :: "nat \<Rightarrow> 's \<Rightarrow> 's option"
  assumes pool_distinct: "pool s xs \<Longrightarrow> distinct xs"
    and alloc_none: "pool s [] \<Longrightarrow> alloc s = Some (NULL, s)"
    and alloc_head: "pool s (x # xs) \<Longrightarrow> \<exists>s'. alloc s = Some (Some x, s') \<and> pool s' xs"
    and release_head: "pool s xs \<Longrightarrow> x \<notin> set xs \<Longrightarrow> \<exists>s'. release x s = Some s' \<and> pool s' (x # xs)"
begin

lemma alloc_many_pool:
  "pool s xs \<Longrightarrow> n \<le> length xs \<Longrightarrow>
    \<exists>s'. alloc_many alloc n s = Some (map Some (take n xs), s') \<and> pool s' (drop n xs)"
proof (induction n arbitrary: s xs)
  case (Suc n)
  then obtain x ys where xs: "xs = x # ys" by (cases xs) auto
  then obtain s1 where "alloc s = Some (Some x, s1)" "pool s1 ys"
    using alloc_head Suc.prems(1) by blast
  then show ?case using Suc.IH [of s1 ys] Suc.prems(2) xs by auto
qed simp

lemma exhausted:
  assumes "pool s xs"
  shows "\<exists>s'. alloc_many alloc (Suc (length xs)) s = Some (map Some xs @ [NULL], s')"
  using assms
proof (induction xs arbitrary: s)
  case Nil
  then show ?case using alloc_none by simp
next
  case (Cons x xs)
  then obtain s1 where s1: "alloc s = Some (Some x, s1)" "pool s1 xs"
    using alloc_head by blast
  then obtain s2 where "alloc_many alloc (Suc (length xs)) s1 = Some (map Some xs @ [NULL], s2)"
    using Cons.IH by blast
  then show ?case
    using s1(1) alloc_many.simps(2) [of alloc "Suc (length xs)" s] by (simp del: alloc_many.simps)
qed

lemma release_alloc:
  assumes "pool s xs" and "x \<notin> set xs"
  shows "\<exists>s1 s2. release x s = Some s1 \<and> alloc s1 = Some (Some x, s2) \<and> pool s2 xs"
  using release_head [OF assms] alloc_head by blast

end

section \<open>Process queues\<close>

text \<open>
  \<open>rep s q xs\<close>: in state \<open>s\<close> the queue variable \<open>q\<close> holds the processes \<open>xs\<close>, first in first.
  \<open>keeps A s s'\<close>: the step from \<open>s\<close> to \<open>s'\<close> touches no process outside \<open>A\<close>.
\<close>

fun enq_all :: "('q \<Rightarrow> nat \<Rightarrow> 's \<Rightarrow> ('q \<times> 's) option) \<Rightarrow> 'q \<Rightarrow> nat list \<Rightarrow> 's \<Rightarrow> ('q \<times> 's) option" where
  "enq_all enq q [] s = Some (q, s)"
| "enq_all enq q (x # xs) s = do {
     (q, s) \<leftarrow> enq q x s;
     enq_all enq q xs s
   }"

fun deq_n :: "('q \<Rightarrow> 's \<Rightarrow> (ptr \<times> 'q \<times> 's) option) \<Rightarrow> nat \<Rightarrow> 'q \<Rightarrow> 's \<Rightarrow> (ptr list \<times> 'q \<times> 's) option" where
  "deq_n deq 0 q s = Some ([], q, s)"
| "deq_n deq (Suc n) q s = do {
     (p, q, s) \<leftarrow> deq q s;
     (ps, q, s) \<leftarrow> deq_n deq n q s;
     Some (p # ps, q, s)
   }"

locale fifo_queue =
  fixes rep :: "'s \<Rightarrow> 'q \<Rightarrow> nat list \<Rightarrow> bool"
    and mk :: 'q
    and enq :: "'q \<Rightarrow> nat \<Rightarrow> 's \<Rightarrow> ('q \<times> 's) option"
    and deq :: "'q \<Rightarrow> 's \<Rightarrow> (ptr \<times> 'q \<times> 's) option"
    and del :: "'q \<Rightarrow> nat \<Rightarrow> 's \<Rightarrow> (ptr \<times> 'q \<times> 's) option"
    and keeps :: "nat set \<Rightarrow> 's \<Rightarrow> 's \<Rightarrow> bool"
  assumes rep_mk: "rep s mk []"
    and rep_distinct: "rep s q xs \<Longrightarrow> distinct xs"
    and rep_keeps: "keeps A s s' \<Longrightarrow> A \<inter> set xs = {} \<Longrightarrow> rep s q xs \<Longrightarrow> rep s' q xs"
    and enq_rep: "rep s q xs \<Longrightarrow> x \<notin> set xs \<Longrightarrow>
      \<exists>q' s'. enq q x s = Some (q', s') \<and> rep s' q' (xs @ [x]) \<and> keeps (insert x (set xs)) s s'"
    and deq_rep: "rep s q (x # xs) \<Longrightarrow>
      \<exists>q' s'. deq q s = Some (Some x, q', s') \<and> rep s' q' xs \<and> keeps (set (x # xs)) s s'"
    and deq_none: "rep s q [] \<Longrightarrow> deq q s = Some (NULL, q, s)"
    and del_rep: "rep s q xs \<Longrightarrow> x \<in> set xs \<Longrightarrow>
      \<exists>q' s'. del q x s = Some (Some x, q', s') \<and> rep s' q' (remove1 x xs) \<and> keeps (set xs) s s'"
    and del_none: "rep s q xs \<Longrightarrow> x \<notin> set xs \<Longrightarrow> del q x s = Some (NULL, q, s)"
begin

lemma enq_all_rep:
  "rep s q xs \<Longrightarrow> distinct ys \<Longrightarrow> set ys \<inter> set xs = {} \<Longrightarrow>
    \<exists>q' s'. enq_all enq q ys s = Some (q', s') \<and> rep s' q' (xs @ ys)"
proof (induction ys arbitrary: s q xs)
  case (Cons y ys)
  then obtain q1 s1 where s1: "enq q y s = Some (q1, s1)" "rep s1 q1 (xs @ [y])"
    using enq_rep [of s q xs y] by auto
  then show ?case using Cons.IH [OF s1(2)] Cons.prems by auto
qed simp

lemma deq_n_rep:
  "rep s q (xs @ ys) \<Longrightarrow>
    \<exists>q' s'. deq_n deq (length xs) q s = Some (map Some xs, q', s') \<and> rep s' q' ys"
proof (induction xs arbitrary: s q)
  case (Cons x xs)
  then obtain q1 s1 where s1: "deq q s = Some (Some x, q1, s1)" "rep s1 q1 (xs @ ys)"
    using deq_rep [of s q x "xs @ ys"] by auto
  then show ?case using Cons.IH [OF s1(2)] by auto
qed simp

text \<open>Whatever else is queued behind them, processes leave in the order they came.\<close>

lemma fifo:
  assumes "rep s q xs" and "distinct ys" and "set ys \<inter> set xs = {}"
  shows "\<exists>q1 s1 q2 s2. enq_all enq q ys s = Some (q1, s1)
    \<and> deq_n deq (length xs + length ys) q1 s1 = Some (map Some (xs @ ys), q2, s2)
    \<and> rep s2 q2 []"
proof -
  obtain q1 s1 where s1: "enq_all enq q ys s = Some (q1, s1)" "rep s1 q1 (xs @ ys)"
    using enq_all_rep [OF assms] by blast
  then show ?thesis using deq_n_rep [of s1 q1 "xs @ ys" "[]"] by simp
qed

lemma enq_del:
  assumes "rep s q xs" and "x \<notin> set xs"
  shows "\<exists>q1 s1 q2 s2. enq q x s = Some (q1, s1) \<and> del q1 x s1 = Some (Some x, q2, s2)
    \<and> rep s2 q2 xs"
proof -
  obtain q1 s1 where s1: "enq q x s = Some (q1, s1)" "rep s1 q1 (xs @ [x])"
    using enq_rep [OF assms] by blast
  then show ?thesis using del_rep [OF s1(2), of x] assms(2) by (auto simp: remove1_append)
qed

end

section \<open>Tables of waiting processes\<close>

text \<open>
  \<open>inv s B\<close>: in state \<open>s\<close> the processes waiting on address \<open>a\<close> are \<open>B a\<close>, in order.  The table
  has room as long as every process is in it at most once and is one of the table's processes
  (\<open>procs\<close>).
\<close>

definition waiting_ok :: "nat set \<Rightarrow> ('k \<Rightarrow> nat list) \<Rightarrow> bool" where
  "waiting_ok procs B \<longleftrightarrow> (\<forall>a. distinct (B a) \<and> set (B a) \<subseteq> procs)
     \<and> (\<forall>a b. a \<noteq> b \<longrightarrow> set (B a) \<inter> set (B b) = {})"

lemma waiting_okD:
  assumes "waiting_ok P B"
  shows "distinct (B a)" "set (B a) \<subseteq> P" "a \<noteq> b \<Longrightarrow> set (B a) \<inter> set (B b) = {}"
  using assms by (auto simp: waiting_ok_def)

lemma waiting_ok_sub:
  assumes "waiting_ok P B" and "set q \<subseteq> set (B a)" and "distinct q"
  shows "waiting_ok P (B(a := q))"
  using assms unfolding waiting_ok_def by (simp add: disjoint_iff) blast

lemma waiting_ok_add:
  assumes "waiting_ok P B" and "p \<in> P" and "\<forall>b. p \<notin> set (B b)"
  shows "waiting_ok P (B(a := B a @ [p]))"
  using assms unfolding waiting_ok_def by (simp add: disjoint_iff) blast

fun wake_n :: "('k \<Rightarrow> 's \<Rightarrow> (ptr \<times> 's) option) \<Rightarrow> nat \<Rightarrow> 'k \<Rightarrow> 's \<Rightarrow> (ptr list \<times> 's) option" where
  "wake_n wake 0 a s = Some ([], s)"
| "wake_n wake (Suc n) a s = do {
     (p, s) \<leftarrow> wake a s;
     (ps, s) \<leftarrow> wake_n wake n a s;
     Some (p # ps, s)
   }"

fun block_all :: "('k \<Rightarrow> nat \<Rightarrow> 's \<Rightarrow> (bool \<times> 's) option) \<Rightarrow> 'k \<Rightarrow> nat list \<Rightarrow> 's \<Rightarrow> (bool \<times> 's) option" where
  "block_all block a [] s = Some (False, s)"
| "block_all block a (p # ps) s = do {
     (full, s) \<leftarrow> block a p s;
     (if full then Some (True, s) else block_all block a ps s)
   }"

locale wait_table =
  fixes inv :: "'s \<Rightarrow> ('k \<Rightarrow> nat list) \<Rightarrow> bool"
    and valid :: "'k \<Rightarrow> bool"
    and procs :: "nat set"
    and block :: "'k \<Rightarrow> nat \<Rightarrow> 's \<Rightarrow> (bool \<times> 's) option"
    and wake :: "'k \<Rightarrow> 's \<Rightarrow> (ptr \<times> 's) option"
    and first :: "'k \<Rightarrow> 's \<Rightarrow> ptr option"
  assumes block_inv: "inv s B \<Longrightarrow> waiting_ok procs B \<Longrightarrow> valid a \<Longrightarrow> p \<in> procs \<Longrightarrow>
      \<forall>b. p \<notin> set (B b) \<Longrightarrow>
      \<exists>s'. block a p s = Some (False, s') \<and> inv s' (B(a := B a @ [p]))"
    and wake_inv: "inv s B \<Longrightarrow> B a = p # ps \<Longrightarrow>
      \<exists>s'. wake a s = Some (Some p, s') \<and> inv s' (B(a := ps))"
    and wake_none: "inv s B \<Longrightarrow> valid a \<Longrightarrow> B a = [] \<Longrightarrow> wake a s = Some (NULL, s)"
    and first_inv: "inv s B \<Longrightarrow> valid a \<Longrightarrow>
      first a s = Some (if B a = [] then NULL else Some (hd (B a)))"
begin

lemma block_all_inv:
  assumes "inv s B" and "waiting_ok procs B" and "valid a" and "set ps \<subseteq> procs" and "distinct ps"
    and "\<forall>b. set ps \<inter> set (B b) = {}"
  shows "\<exists>s'. block_all block a ps s = Some (False, s') \<and> inv s' (B(a := B a @ ps))"
  using assms
proof (induction ps arbitrary: s B)
  case (Cons p ps)
  then obtain s1 where s1: "block a p s = Some (False, s1)" "inv s1 (B(a := B a @ [p]))"
    using block_inv [OF Cons.prems(1,2,3), of p] by auto
  have "waiting_ok procs (B(a := B a @ [p]))"
    using Cons.prems by (intro waiting_ok_add) auto
  moreover have "\<forall>b. set ps \<inter> set ((B(a := B a @ [p])) b) = {}"
    using Cons.prems(5,6) by auto
  ultimately obtain s2 where "block_all block a ps s1 = Some (False, s2)"
    "inv s2 ((B(a := B a @ [p]))(a := (B(a := B a @ [p])) a @ ps))"
    using Cons.IH [OF s1(2) _ Cons.prems(3)] Cons.prems(4,5)
    by (simp del: fun_upd_apply) blast
  then show ?case using s1(1) by (simp add: fun_upd_same del: fun_upd_apply)
qed (simp add: fun_upd_idem)

lemma wake_n_inv:
  "inv s B \<Longrightarrow> B a = ps @ qs \<Longrightarrow>
    \<exists>s'. wake_n wake (length ps) a s = Some (map Some ps, s') \<and> inv s' (B(a := qs))"
proof (induction ps arbitrary: s B)
  case Nil
  then show ?case using fun_upd_triv [of B a] by simp
next
  case (Cons p ps)
  then obtain s1 where s1: "wake a s = Some (Some p, s1)" "inv s1 (B(a := ps @ qs))"
    using wake_inv [of s B a p "ps @ qs"] by auto
  then obtain s2 where "wake_n wake (length ps) a s1 = Some (map Some ps, s2)"
    "inv s2 (B(a := ps @ qs, a := qs))"
    using Cons.IH [OF s1(2)] by (meson fun_upd_same)
  then show ?case using s1(1) by (simp del: fun_upd_apply)
qed

text \<open>Processes are woken in the order in which they blocked.\<close>

lemma wake_order:
  assumes "inv s B" and "waiting_ok procs B" and "valid a" and "set ps \<subseteq> procs" and "distinct ps"
    and "\<forall>b. set ps \<inter> set (B b) = {}" and "B a = []"
  shows "\<exists>s1 s2. block_all block a ps s = Some (False, s1)
    \<and> wake_n wake (length ps) a s1 = Some (map Some ps, s2) \<and> inv s2 B
    \<and> wake a s2 = Some (NULL, s2)"
proof -
  obtain s1 where s1: "block_all block a ps s = Some (False, s1)" "inv s1 (B(a := ps))"
    using block_all_inv [OF assms(1-6)] assms(7) by auto
  then obtain s2 where s2: "wake_n wake (length ps) a s1 = Some (map Some ps, s2)"
    "inv s2 (B(a := ps, a := []))"
    using wake_n_inv [OF s1(2), of a ps "[]"] by (auto simp del: fun_upd_upd)
  have "B(a := ps, a := []) = B" using assms(7) by (simp add: fun_upd_idem)
  then have "inv s2 B" using s2(2) by simp
  then show ?thesis using s1(1) s2(1) wake_none assms(3,7) by blast
qed

end

end
