(* ===== verification/Pcb.thy ===== *)
theory Pcb
  imports Types Interfaces
begin

text \<open>
  The process control block module, \<open>phase3/pcb.c\<close>: the static array of PCBs, its free list,
  the circular doubly linked process queues, and the process tree.

  The state is the array and the head of the free list.  A function that takes
  \<open>pcb_t **tp\<close> takes the tail pointer's value and returns its new value beside the state: the
  callers pass \<open>&readyQueue\<close> or \<open>&semd->s_procQ\<close>, which are no PCB's fields.  Results are
  \<open>option\<close>s; \<open>None\<close> is a \<open>NULL\<close> dereference or a loop that never ends.  The order of results
  is the C result, the new \<open>*tp\<close>, the state.
\<close>

section \<open>The model\<close>

record pcb_mod =
  pcbTable :: "nat \<Rightarrow> pcb_t"
  pcbFree_h :: ptr

text \<open>\<open>p->f\<close> as a value, and the assignment \<open>p->f = v\<close>.\<close>

definition rd :: "(pcb_t \<Rightarrow> 'a) \<Rightarrow> ptr \<Rightarrow> 'z pcb_mod_scheme \<Rightarrow> 'a option" where
  "rd f p s = map_option (\<lambda>i. f (pcbTable s i)) p"

definition wr :: "(('a \<Rightarrow> 'a) \<Rightarrow> pcb_t \<Rightarrow> pcb_t) \<Rightarrow> ptr \<Rightarrow> 'a \<Rightarrow> 'z pcb_mod_scheme
    \<Rightarrow> 'z pcb_mod_scheme option" where
  "wr fu p v s = map_option
     (\<lambda>i. s\<lparr>pcbTable := (pcbTable s)(i := fu (\<lambda>_. v) (pcbTable s i))\<rparr>) p"

lemma rd_simps [simp]:
  "rd f NULL s = None" "rd f (Some i) s = Some (f (pcbTable s i))"
  by (simp_all add: rd_def)

lemma wr_simps [simp]:
  "wr fu NULL v s = None"
  "wr fu (Some i) v s = Some (s\<lparr>pcbTable := (pcbTable s)(i := fu (\<lambda>_. v) (pcbTable s i))\<rparr>)"
  by (simp_all add: wr_def)

subsection \<open>The free list\<close>

definition freePcb :: "ptr \<Rightarrow> 'z pcb_mod_scheme \<Rightarrow> 'z pcb_mod_scheme option" where
  "freePcb p s =
     (if p = NULL then Some s
      else do {
        s \<leftarrow> wr p_next_update p (pcbFree_h s) s;
        Some (s\<lparr>pcbFree_h := p\<rparr>)
      })"

text \<open>The register loop at the end of \<open>allocPcb\<close>.\<close>

definition clear_regs :: "(nat \<Rightarrow> u32) \<Rightarrow> nat \<Rightarrow> u32" where
  "clear_regs r = foldl (\<lambda>r i. r(i := 0)) r [0..<STATEREGNUM]"

definition reset_pcb :: "pcb_t \<Rightarrow> pcb_t" where
  "reset_pcb a = a\<lparr>p_next := NULL, p_prev := NULL, p_prnt := NULL, p_child := NULL,
     p_sib_left := NULL, p_sib_right := NULL, p_time := 0, p_semAdd := NULL_addr,
     p_supportStruct := NULL,
     p_s := (p_s a)\<lparr>s_entryHI := 0, s_cause := 0, s_status := 0, s_pc := 0,
       s_reg := clear_regs (s_reg (p_s a))\<rparr>\<rparr>"

definition allocPcb :: "'z pcb_mod_scheme \<Rightarrow> (ptr \<times> 'z pcb_mod_scheme) option" where
  "allocPcb s =
     (if pcbFree_h s = NULL then Some (NULL, s)
      else do {
        let allocated = pcbFree_h s;
        nxt \<leftarrow> rd p_next (pcbFree_h s) s;
        let s = s\<lparr>pcbFree_h := nxt\<rparr>;
        i \<leftarrow> allocated;
        Some (allocated, s\<lparr>pcbTable := (pcbTable s)(i := reset_pcb (pcbTable s i))\<rparr>)
      })"

definition initPcbs :: "'z pcb_mod_scheme \<Rightarrow> 'z pcb_mod_scheme" where
  "initPcbs s =
     (let t = foldl (\<lambda>t i. t(i := (t i)\<lparr>p_next := Some (i + 1)\<rparr>)) (pcbTable s) [0..<MAXPROC - 1];
          t = t(MAXPROC - 1 := (t (MAXPROC - 1))\<lparr>p_next := NULL\<rparr>)
      in s\<lparr>pcbTable := t, pcbFree_h := Some 0\<rparr>)"

subsection \<open>Process queues\<close>

definition mkEmptyProcQ :: ptr where
  "mkEmptyProcQ = NULL"

definition emptyProcQ :: "ptr \<Rightarrow> bool" where
  "emptyProcQ tp = (tp = NULL)"

definition insertProcQ :: "ptr \<Rightarrow> ptr \<Rightarrow> 'z pcb_mod_scheme \<Rightarrow> (ptr \<times> 'z pcb_mod_scheme) option" where
  "insertProcQ tp p s =
     (if p = NULL then Some (tp, s)
      else do {
        s \<leftarrow> (if tp = NULL then do {
                 s \<leftarrow> wr p_next_update p p s;
                 wr p_prev_update p p s
               } else do {
                 first \<leftarrow> rd p_next tp s;
                 s \<leftarrow> wr p_next_update p first s;
                 s \<leftarrow> wr p_prev_update p tp s;
                 first \<leftarrow> rd p_next tp s;
                 s \<leftarrow> wr p_prev_update first p s;
                 wr p_next_update tp p s
               });
        Some (p, s)
      })"

text \<open>The body of \<open>outProcQ\<close>'s loop when \<open>current == p\<close>.\<close>

definition outProcQ_unlink :: "ptr \<Rightarrow> ptr \<Rightarrow> ptr \<Rightarrow> 'z pcb_mod_scheme
    \<Rightarrow> (ptr \<times> ptr \<times> 'z pcb_mod_scheme) option" where
  "outProcQ_unlink tp p current s = do {
     nxt \<leftarrow> rd p_next current s;
     (tp, s) \<leftarrow> (if current = tp \<and> nxt = current then Some (NULL, s)
       else do {
         prev \<leftarrow> rd p_prev current s;
         nxt \<leftarrow> rd p_next current s;
         s \<leftarrow> wr p_next_update prev nxt s;
         nxt \<leftarrow> rd p_next current s;
         prev \<leftarrow> rd p_prev current s;
         s \<leftarrow> wr p_prev_update nxt prev s;
         tp \<leftarrow> (if tp = current then rd p_prev current s else Some tp);
         Some (tp, s)
       });
     s \<leftarrow> wr p_next_update p NULL s;
     s \<leftarrow> wr p_prev_update p NULL s;
     Some (p, tp, s)
   }"

partial_function (option) outProcQ_loop :: "ptr \<Rightarrow> ptr \<Rightarrow> ptr \<Rightarrow> 'z pcb_mod_scheme
    \<Rightarrow> (ptr \<times> ptr \<times> 'z pcb_mod_scheme) option" where
  "outProcQ_loop tp p current s =
     (if current = p then outProcQ_unlink tp p current s
      else do {
        current \<leftarrow> rd p_next current s;
        first \<leftarrow> rd p_next tp s;
        (if current \<noteq> first then outProcQ_loop tp p current s else Some (NULL, tp, s))
      })"

definition outProcQ :: "ptr \<Rightarrow> ptr \<Rightarrow> 'z pcb_mod_scheme
    \<Rightarrow> (ptr \<times> ptr \<times> 'z pcb_mod_scheme) option" where
  "outProcQ tp p s =
     (if tp = NULL \<or> p = NULL then Some (NULL, tp, s)
      else do {
        current \<leftarrow> rd p_next tp s;
        outProcQ_loop tp p current s
      })"

definition removeProcQ :: "ptr \<Rightarrow> 'z pcb_mod_scheme \<Rightarrow> (ptr \<times> ptr \<times> 'z pcb_mod_scheme) option" where
  "removeProcQ tp s =
     (if tp = NULL then Some (NULL, tp, s)
      else do {
        first \<leftarrow> rd p_next tp s;
        outProcQ tp first s
      })"

definition headProcQ :: "ptr \<Rightarrow> 'z pcb_mod_scheme \<Rightarrow> ptr option" where
  "headProcQ tp s = (if tp = NULL then Some NULL else rd p_next tp s)"

subsection \<open>The process tree\<close>

definition emptyChild :: "ptr \<Rightarrow> 'z pcb_mod_scheme \<Rightarrow> bool option" where
  "emptyChild p s = do {
     c \<leftarrow> rd p_child p s;
     Some (c = NULL)
   }"

definition insertChild :: "ptr \<Rightarrow> ptr \<Rightarrow> 'z pcb_mod_scheme \<Rightarrow> 'z pcb_mod_scheme option" where
  "insertChild prnt p s =
     (if prnt = NULL \<or> p = NULL then Some s
      else do {
        first_sib \<leftarrow> rd p_child prnt s;
        s \<leftarrow> wr p_child_update prnt p s;
        s \<leftarrow> wr p_prnt_update p prnt s;
        s \<leftarrow> wr p_sib_right_update p first_sib s;
        s \<leftarrow> wr p_sib_left_update p NULL s;
        (if first_sib \<noteq> NULL then wr p_sib_left_update first_sib p s else Some s)
      })"

definition outChild :: "ptr \<Rightarrow> 'z pcb_mod_scheme \<Rightarrow> (ptr \<times> 'z pcb_mod_scheme) option" where
  "outChild p s =
     (if p = NULL then Some (NULL, s)
      else do {
        prnt \<leftarrow> rd p_prnt p s;
        (if prnt = NULL then Some (NULL, s)
         else do {
           first \<leftarrow> rd p_child prnt s;
           s \<leftarrow> (if first = p then do {
                    right \<leftarrow> rd p_sib_right p s;
                    wr p_child_update prnt right s
                  } else Some s);
           left \<leftarrow> rd p_sib_left p s;
           s \<leftarrow> (if left \<noteq> NULL then do {
                    right \<leftarrow> rd p_sib_right p s;
                    wr p_sib_right_update left right s
                  } else Some s);
           right \<leftarrow> rd p_sib_right p s;
           s \<leftarrow> (if right \<noteq> NULL then do {
                    left \<leftarrow> rd p_sib_left p s;
                    wr p_sib_left_update right left s
                  } else Some s);
           s \<leftarrow> wr p_prnt_update p NULL s;
           s \<leftarrow> wr p_sib_left_update p NULL s;
           s \<leftarrow> wr p_sib_right_update p NULL s;
           Some (p, s)
         })
      })"

definition removeChild :: "ptr \<Rightarrow> 'z pcb_mod_scheme \<Rightarrow> (ptr \<times> 'z pcb_mod_scheme) option" where
  "removeChild p s = do {
     none \<leftarrow> emptyChild p s;
     (if none then Some (NULL, s)
      else do {
        removed \<leftarrow> rd p_child p s;
        outChild removed s
      })
   }"

section \<open>Queues represent lists\<close>

text \<open>
  \<open>procq s tp xs\<close>: the queue with tail pointer \<open>tp\<close> holds the PCBs \<open>xs\<close>, first to last.
  \<open>qframe A s s'\<close>: from \<open>s\<close> to \<open>s'\<close> only queue links changed, and those of PCBs in \<open>A\<close> only.
\<close>

definition nx :: "(nat \<Rightarrow> pcb_t) \<Rightarrow> nat \<Rightarrow> ptr" where
  "nx t i = p_next (t i)"

definition pv :: "(nat \<Rightarrow> pcb_t) \<Rightarrow> nat \<Rightarrow> ptr" where
  "pv t i = p_prev (t i)"

definition procq :: "'z pcb_mod_scheme \<Rightarrow> ptr \<Rightarrow> nat list \<Rightarrow> bool" where
  "procq s tp xs \<longleftrightarrow> tp = (if xs = [] then NULL else Some (last xs)) \<and> distinct xs
     \<and> cyc (nx (pcbTable s)) (pv (pcbTable s)) xs"

definition unq :: "pcb_t \<Rightarrow> pcb_t" where
  "unq r = r\<lparr>p_next := NULL, p_prev := NULL\<rparr>"

definition qframe :: "nat set \<Rightarrow> 'z pcb_mod_scheme \<Rightarrow> 'z pcb_mod_scheme \<Rightarrow> bool" where
  "qframe A s s' \<longleftrightarrow> s' = s\<lparr>pcbTable := pcbTable s'\<rparr>
     \<and> (\<forall>i. i \<notin> A \<longrightarrow> pcbTable s' i = pcbTable s i)
     \<and> (\<forall>i. unq (pcbTable s' i) = unq (pcbTable s i))"

lemma nx_upd [link_simps]: "nx (t(i := r)) = (nx t)(i := p_next r)"
  by (auto simp: nx_def)

lemma pv_upd [link_simps]: "pv (t(i := r)) = (pv t)(i := p_prev r)"
  by (auto simp: pv_def)

lemma unq_links [simp]:
  "unq (r\<lparr>p_next := a\<rparr>) = unq r" "unq (r\<lparr>p_prev := b\<rparr>) = unq r"
  by (simp_all add: unq_def)

lemma unq_eqD:
  assumes "unq r = unq r'"
  shows "p_prnt r = p_prnt r'" "p_child r = p_child r'" "p_sib_right r = p_sib_right r'"
    "p_sib_left r = p_sib_left r'" "p_s r = p_s r'" "p_time r = p_time r'"
    "p_startTOD r = p_startTOD r'" "p_semAdd r = p_semAdd r'"
    "p_supportStruct r = p_supportStruct r'"
proof -
  obtain n v where "r = r'\<lparr>p_next := n, p_prev := v\<rparr>"
    using assms by (cases r; cases r') (auto simp: unq_def)
  then show "p_prnt r = p_prnt r'" "p_child r = p_child r'" "p_sib_right r = p_sib_right r'"
    "p_sib_left r = p_sib_left r'" "p_s r = p_s r'" "p_time r = p_time r'"
    "p_startTOD r = p_startTOD r'" "p_semAdd r = p_semAdd r'"
    "p_supportStruct r = p_supportStruct r'" by simp_all
qed

lemma qframe_refl [simp]: "qframe A s s"
  by (simp add: qframe_def)

lemma qframe_trans: "qframe A s s' \<Longrightarrow> qframe B s' s'' \<Longrightarrow> qframe (A \<union> B) s s''"
  unfolding qframe_def by (elim conjE) (intro conjI; simp?; metis pcb_mod.surjective pcb_mod.update_convs(1))

lemma qframe_mono: "qframe A s s' \<Longrightarrow> A \<subseteq> B \<Longrightarrow> qframe B s s'"
  unfolding qframe_def by blast

lemma qframeD:
  assumes "qframe A s s'"
  shows "pcbFree_h s' = pcbFree_h s" "pcb_mod.more s' = pcb_mod.more s"
    "i \<notin> A \<Longrightarrow> pcbTable s' i = pcbTable s i" "unq (pcbTable s' i) = unq (pcbTable s i)"
proof -
  have eq: "s' = s\<lparr>pcbTable := pcbTable s'\<rparr>" using assms by (simp add: qframe_def)
  show "pcbFree_h s' = pcbFree_h s" by (subst eq) simp
  show "pcb_mod.more s' = pcb_mod.more s" by (subst eq) simp
  show "i \<notin> A \<Longrightarrow> pcbTable s' i = pcbTable s i" "unq (pcbTable s' i) = unq (pcbTable s i)"
    using assms by (simp_all add: qframe_def)
qed

lemmas qframe_unq = qframeD(4) [THEN unq_eqD(1)] qframeD(4) [THEN unq_eqD(2)]
  qframeD(4) [THEN unq_eqD(3)] qframeD(4) [THEN unq_eqD(4)] qframeD(4) [THEN unq_eqD(5)]
  qframeD(4) [THEN unq_eqD(6)] qframeD(4) [THEN unq_eqD(7)] qframeD(4) [THEN unq_eqD(8)]
  qframeD(4) [THEN unq_eqD(9)]

lemma procq_cong:
  assumes "\<And>x. x \<in> set xs \<Longrightarrow> pcbTable s' x = pcbTable s x"
  shows "procq s' tp xs = procq s tp xs"
  using cyc_cong [of xs "nx (pcbTable s')" "nx (pcbTable s)" "pv (pcbTable s')" "pv (pcbTable s)"]
    assms by (auto simp: procq_def nx_def pv_def)

lemma procq_qframe: "qframe A s s' \<Longrightarrow> A \<inter> set xs = {} \<Longrightarrow> procq s tp xs \<Longrightarrow> procq s' tp xs"
  using procq_cong [of xs s' s tp] qframeD(3) by (metis disjoint_iff)

lemma procq_empty [simp]: "procq s NULL xs \<longleftrightarrow> xs = []"
  by (auto simp: procq_def)

lemma procq_tail: "procq s tp xs \<Longrightarrow> xs \<noteq> [] \<Longrightarrow> tp = Some (last xs)"
  by (simp add: procq_def)

lemma procq_distinct: "procq s tp xs \<Longrightarrow> distinct xs"
  by (simp add: procq_def)

lemma procq_det: "procq s tp xs \<Longrightarrow> (tp = NULL) = (xs = [])"
  by (auto simp: procq_def)

lemma procq_last_next:
  assumes "procq s tp xs" and "xs \<noteq> []"
  shows "p_next (pcbTable s (last xs)) = Some (hd xs)"
proof -
  have "dlinked (nx (pcbTable s)) (pv (pcbTable s)) (xs @ [hd xs])"
    using assms cyc_hd by (simp add: procq_def)
  then have "dlinked (nx (pcbTable s)) (pv (pcbTable s)) (butlast xs @ last xs # [hd xs])"
    using assms(2) by (metis append.assoc append_Cons append_Nil append_butlast_last_id)
  then show ?thesis
    using dlinked_append [of _ _ "butlast xs" "last xs" "[hd xs]"] by (simp add: nx_def)
qed

subsection \<open>Insertion at the tail\<close>

lemma insertProcQ_spec:
  assumes q: "procq s tp xs" and p: "p \<notin> set xs"
  shows "\<exists>s'. insertProcQ tp (Some p) s = Some (Some p, s') \<and> procq s' (Some p) (xs @ [p])
    \<and> qframe (insert p (set xs)) s s'"
proof (cases "xs = []")
  case True
  then show ?thesis
    using q by (auto simp: insertProcQ_def procq_def cyc_def link_simps qframe_def)
next
  case False
  let ?t = "pcbTable s"
  have tp: "tp = Some (last xs)" using q False by (rule procq_tail)
  have nxt: "p_next (?t (last xs)) = Some (hd xs)" using q False by (rule procq_last_next)
  have neq: "p \<noteq> last xs" "p \<noteq> hd xs" using p False by auto
  let ?n = "(nx ?t)(p := Some (hd xs), last xs := Some p)"
  let ?v = "(pv ?t)(p := Some (last xs), hd xs := Some p)"
  have "cyc ?n ?v (xs @ [p])"
    using q False p by (intro cyc_insert) (auto simp: procq_def)
  moreover have "\<exists>s'. insertProcQ tp (Some p) s = Some (Some p, s') \<and> nx (pcbTable s') = ?n
      \<and> pv (pcbTable s') = ?v \<and> qframe (insert p (set xs)) s s'"
    using False neq nxt by (auto simp: insertProcQ_def tp qframe_def nx_def pv_def)
  ultimately show ?thesis
    using p q by (auto simp: procq_def)
qed

lemma insertProcQ_NULL [simp]: "insertProcQ tp NULL s = Some (tp, s)"
  by (simp add: insertProcQ_def)

subsection \<open>Removal\<close>

lemma procq_next:
  assumes "procq s tp (as @ x # y # cs)"
  shows "p_next (pcbTable s x) = Some y"
proof -
  have "dlinked (nx (pcbTable s)) (pv (pcbTable s)) (as @ x # (y # cs @ [hd (as @ x # y # cs)]))"
    using assms cyc_hd [of "as @ x # y # cs"] by (simp add: procq_def)
  then have "dlinked (nx (pcbTable s)) (pv (pcbTable s)) (x # y # cs @ [hd (as @ x # y # cs)])"
    using dlinked_append [of "nx (pcbTable s)" "pv (pcbTable s)" as x] by blast
  then show ?thesis by (simp add: nx_def)
qed

lemma outProcQ_unlink_spec:
  assumes q: "procq s tp xs" and p: "p \<in> set xs"
  shows "\<exists>tp' s'. outProcQ_unlink tp (Some p) (Some p) s = Some (Some p, tp', s')
    \<and> procq s' tp' (remove1 p xs) \<and> qframe (set xs) s s'
    \<and> p_next (pcbTable s' p) = NULL \<and> p_prev (pcbTable s' p) = NULL"
proof -
  let ?t = "pcbTable s"
  obtain as bs where xs: "xs = as @ p # bs" using p by (meson split_list)
  define zs where "zs = bs @ as"
  have dist: "distinct (p # zs)" using q by (auto simp: procq_def xs zs_def)
  have rem: "remove1 p xs = as @ bs"
    using dist by (simp add: xs zs_def remove1_append)
  have ring: "cyc (nx ?t) (pv ?t) (p # zs)"
    using q cyc_rotate [of _ _ as "p # bs"] by (simp add: procq_def xs zs_def)
  show ?thesis
  proof (cases "zs = []")
    case True
    then have eq: "xs = [p]" "tp = Some p" using q by (auto simp: procq_def xs zs_def)
    then have "p_next (?t p) = Some p" using procq_last_next [OF q] by simp
    then show ?thesis using eq by (auto simp: outProcQ_unlink_def qframe_def)
  next
    case False
    note r = cyc_remove [OF ring dist False]
    have links: "p_next (?t p) = Some (hd zs)" "p_prev (?t p) = Some (last zs)"
      using r(1,2) by (simp_all add: nx_def pv_def)
    have neq: "hd zs \<noteq> p" "last zs \<noteq> p"
      using dist False hd_in_set [of zs] last_in_set [of zs] by auto
    have mem: "hd zs \<in> set xs" "last zs \<in> set xs"
      using False hd_in_set [of zs] last_in_set [of zs] by (auto simp: xs zs_def)
    let ?n = "(nx ?t)(last zs := Some (hd zs), p := NULL)"
    let ?v = "(pv ?t)(hd zs := Some (last zs), p := NULL)"
    let ?tp = "if tp = Some p then Some (last zs) else tp"
    have run: "\<exists>s'. outProcQ_unlink tp (Some p) (Some p) s = Some (Some p, ?tp, s')
      \<and> nx (pcbTable s') = ?n \<and> pv (pcbTable s') = ?v \<and> qframe (set xs) s s'"
      using links neq mem p by (auto simp: outProcQ_unlink_def qframe_def nx_def pv_def fun_eq_iff)
    have "cyc ?n ?v zs"
      using r(3) dist by (subst cyc_cong [where nx' = "(nx ?t)(last zs := Some (hd zs))"
          and pv' = "(pv ?t)(hd zs := Some (last zs))"]) auto
    then have "cyc ?n ?v (as @ bs)"
      using cyc_rotate [of ?n ?v bs as] by (simp add: zs_def)
    moreover have "?tp = (if as @ bs = [] then NULL else Some (last (as @ bs)))"
      using q False dist by (cases "bs = []") (auto simp: procq_def xs zs_def)
    moreover have "distinct (as @ bs)" using dist by (auto simp: zs_def)
    moreover obtain s' where s': "outProcQ_unlink tp (Some p) (Some p) s = Some (Some p, ?tp, s')"
      "nx (pcbTable s') = ?n" "pv (pcbTable s') = ?v" "qframe (set xs) s s'"
      using run by blast
    moreover have "p_next (pcbTable s' p) = NULL" "p_prev (pcbTable s' p) = NULL"
      using fun_cong [OF s'(2), of p] fun_cong [OF s'(3), of p] by (simp_all add: nx_def pv_def)
    ultimately have "procq s' ?tp (as @ bs) \<and> p_next (pcbTable s' p) = NULL
        \<and> p_prev (pcbTable s' p) = NULL"
      by (simp only: procq_def simp_thms)
    then show ?thesis
      unfolding rem using s'(1,4) by blast
  qed
qed

lemma outProcQ_loop_spec:
  assumes "procq s tp (as @ bs)" and "bs \<noteq> []" and "p \<notin> set as"
  shows "outProcQ_loop tp (Some p) (Some (hd bs)) s =
    (if p \<in> set bs then outProcQ_unlink tp (Some p) (Some p) s else Some (NULL, tp, s))"
  using assms
proof (induction bs arbitrary: as)
  case (Cons b bs)
  have tp: "tp = Some (last (as @ b # bs))" using Cons.prems(1) by (rule procq_tail) simp
  have first: "p_next (pcbTable s (last (as @ b # bs))) = Some (hd (as @ b # bs))"
    using Cons.prems(1) by (rule procq_last_next) simp
  show ?case
  proof (cases "b = p")
    case True
    then show ?thesis by (simp add: outProcQ_loop.simps)
  next
    case bp: False
    show ?thesis
    proof (cases bs)
      case Nil
      then show ?thesis
        using bp tp first by (simp add: outProcQ_loop.simps)
    next
      case (Cons c cs)
      have next_b: "p_next (pcbTable s b) = Some c"
        using Cons.prems(1) procq_next [of s tp as b c cs] by (simp add: Cons)
      have "c \<noteq> hd (as @ b # bs)"
        using Cons.prems(1) by (auto simp: procq_def Cons hd_append)
      then have "outProcQ_loop tp (Some p) (Some b) s = outProcQ_loop tp (Some p) (Some c) s"
        using bp tp first next_b by (subst outProcQ_loop.simps) simp
      then show ?thesis
        using Cons.IH [of "as @ [b]"] Cons.prems bp by (simp add: Cons)
    qed
  qed
qed simp

lemma outProcQ_present:
  assumes "procq s tp xs" and "p \<in> set xs"
  shows "\<exists>tp' s'. outProcQ tp (Some p) s = Some (Some p, tp', s')
    \<and> procq s' tp' (remove1 p xs) \<and> qframe (set xs) s s'
    \<and> p_next (pcbTable s' p) = NULL \<and> p_prev (pcbTable s' p) = NULL"
proof -
  have ne: "xs \<noteq> []" using assms(2) by auto
  have "outProcQ tp (Some p) s = outProcQ_unlink tp (Some p) (Some p) s"
    using assms ne procq_tail [OF assms(1) ne] procq_last_next [OF assms(1) ne]
      outProcQ_loop_spec [of s tp "[]" xs p]
    by (simp add: outProcQ_def)
  then show ?thesis using outProcQ_unlink_spec [OF assms] by simp
qed

lemma outProcQ_absent:
  assumes "procq s tp xs" and "p \<notin> set xs"
  shows "outProcQ tp (Some p) s = Some (NULL, tp, s)"
proof (cases "xs = []")
  case False
  then show ?thesis
    using assms procq_tail [OF assms(1)] procq_last_next [OF assms(1)]
      outProcQ_loop_spec [of s tp "[]" xs p]
    by (simp add: outProcQ_def)
qed (use assms in \<open>simp add: outProcQ_def procq_def\<close>)

lemma removeProcQ_spec:
  assumes "procq s tp (x # xs)"
  shows "\<exists>tp' s'. removeProcQ tp s = Some (Some x, tp', s') \<and> procq s' tp' xs
    \<and> qframe (set (x # xs)) s s'
    \<and> p_next (pcbTable s' x) = NULL \<and> p_prev (pcbTable s' x) = NULL"
  using outProcQ_present [OF assms, of x] procq_tail [OF assms] procq_last_next [OF assms]
  by (simp add: removeProcQ_def)

lemma removeProcQ_empty: "procq s tp [] \<Longrightarrow> removeProcQ tp s = Some (NULL, tp, s)"
  by (simp add: removeProcQ_def procq_def)

lemma headProcQ_spec: "procq s tp xs \<Longrightarrow> headProcQ tp s = Some (if xs = [] then NULL else Some (hd xs))"
  using procq_tail [of s tp xs] procq_last_next [of s tp xs]
  by (cases "xs = []") (auto simp: headProcQ_def procq_def)

lemma emptyProcQ_spec: "procq s tp xs \<Longrightarrow> emptyProcQ tp = (xs = [])"
  by (auto simp: emptyProcQ_def procq_def)

section \<open>The free list represents a pool\<close>

definition pcb_pool :: "'z pcb_mod_scheme \<Rightarrow> nat list \<Rightarrow> bool" where
  "pcb_pool s xs \<longleftrightarrow> distinct xs \<and> slist (nx (pcbTable s)) (pcbFree_h s) xs"

lemma clear_regs_eq: "clear_regs r i = (if i < STATEREGNUM then 0 else r i)"
proof -
  have "foldl (\<lambda>r i. r(i := 0)) r [0..<n] i = (if i < n then 0 else r i)" for n
    by (induction n) auto
  then show ?thesis by (simp add: clear_regs_def)
qed

lemma reset_pcb_links [simp]:
  "p_next (reset_pcb a) = NULL" "p_prev (reset_pcb a) = NULL" "p_prnt (reset_pcb a) = NULL"
  "p_child (reset_pcb a) = NULL" "p_sib_left (reset_pcb a) = NULL"
  "p_sib_right (reset_pcb a) = NULL" "p_semAdd (reset_pcb a) = NULL_addr"
  "p_time (reset_pcb a) = 0" "p_supportStruct (reset_pcb a) = NULL"
  by (simp_all add: reset_pcb_def)

lemma pcb_pool_cong:
  assumes "\<And>x. x \<in> set xs \<Longrightarrow> p_next (pcbTable s' x) = p_next (pcbTable s x)"
    and "pcbFree_h s' = pcbFree_h s"
  shows "pcb_pool s' xs = pcb_pool s xs"
  using slist_cong [of xs "nx (pcbTable s')" "nx (pcbTable s)" "pcbFree_h s"] assms
  by (simp add: pcb_pool_def nx_def)

lemma pcb_pool_qframe:
  assumes "qframe A s s'" and "A \<inter> set xs = {}" and "pcb_pool s xs"
  shows "pcb_pool s' xs"
proof -
  have "pcb_pool s' xs = pcb_pool s xs"
  proof (rule pcb_pool_cong)
    fix x assume "x \<in> set xs"
    then have "x \<notin> A" using assms(2) by blast
    then show "p_next (pcbTable s' x) = p_next (pcbTable s x)"
      using qframeD(3) [OF assms(1)] by simp
  qed (simp add: qframeD(1) [OF assms(1)])
  then show ?thesis using assms(3) by simp
qed

lemma allocPcb_empty: "pcb_pool s [] \<Longrightarrow> allocPcb s = Some (NULL, s)"
  by (simp add: allocPcb_def pcb_pool_def)

definition take_pcb :: "nat \<Rightarrow> 'z pcb_mod_scheme \<Rightarrow> 'z pcb_mod_scheme" where
  "take_pcb x s = s\<lparr>pcbFree_h := p_next (pcbTable s x),
     pcbTable := (pcbTable s)(x := reset_pcb (pcbTable s x))\<rparr>"

definition give_pcb :: "nat \<Rightarrow> 'z pcb_mod_scheme \<Rightarrow> 'z pcb_mod_scheme" where
  "give_pcb x s = s\<lparr>pcbFree_h := Some x,
     pcbTable := (pcbTable s)(x := (pcbTable s x)\<lparr>p_next := pcbFree_h s\<rparr>)\<rparr>"

lemma allocPcb_first:
  assumes "pcb_pool s (x # xs)"
  shows "allocPcb s = Some (Some x, take_pcb x s)" and "pcb_pool (take_pcb x s) xs"
  using assms by (simp_all add: allocPcb_def pcb_pool_def take_pcb_def link_simps nx_def [of _ x])

lemma freePcb_front:
  assumes "pcb_pool s xs" and "x \<notin> set xs"
  shows "freePcb (Some x) s = Some (give_pcb x s)" and "pcb_pool (give_pcb x s) (x # xs)"
  using assms by (simp_all add: freePcb_def pcb_pool_def give_pcb_def link_simps)

interpretation pcbs: node_pool pcb_pool allocPcb "\<lambda>x. freePcb (Some x)"
proof unfold_locales
  show "pcb_pool s xs \<Longrightarrow> distinct xs" for s :: "'a pcb_mod_scheme" and xs
    by (simp add: pcb_pool_def)
  show "pcb_pool s [] \<Longrightarrow> allocPcb s = Some (NULL, s)" for s :: "'a pcb_mod_scheme"
    by (rule allocPcb_empty)
  show "pcb_pool s (x # xs) \<Longrightarrow> \<exists>s'. allocPcb s = Some (Some x, s') \<and> pcb_pool s' xs"
    for s :: "'a pcb_mod_scheme" and x xs
    using allocPcb_first by blast
  show "pcb_pool s xs \<Longrightarrow> x \<notin> set xs \<Longrightarrow> \<exists>s'. freePcb (Some x) s = Some s' \<and> pcb_pool s' (x # xs)"
    for s :: "'a pcb_mod_scheme" and x xs
    using freePcb_front by blast
qed

lemma init_links:
  "foldl (\<lambda>t i. t(i := (t i)\<lparr>p_next := Some (Suc i)\<rparr>)) t [0..<n] i =
    (if i < n then (t i)\<lparr>p_next := Some (Suc i)\<rparr> else t i)"
  by (induction n) auto

lemma initPcbs_pool: "pcb_pool (initPcbs s) [0..<MAXPROC]"
proof -
  have "slist (nx (pcbTable (initPcbs s))) (Some 0) [0..<MAXPROC]"
    by (rule slist_range) (auto simp: initPcbs_def Let_def nx_def init_links)
  then show ?thesis by (simp add: pcb_pool_def initPcbs_def Let_def)
qed

section \<open>Process queues are FIFO queues\<close>

interpretation procqs: fifo_queue procq mkEmptyProcQ "\<lambda>tp p. insertProcQ tp (Some p)" removeProcQ
  "\<lambda>tp p. outProcQ tp (Some p)" qframe
proof (unfold_locales, goal_cases)
  case (3 A s s' xs q)
  then show ?case using procq_qframe by blast
next
  case (4 s q xs x)
  then show ?case using insertProcQ_spec [of s q xs x] by blast
next
  case (5 s q x xs)
  then show ?case using removeProcQ_spec [of s q x xs] by blast
next
  case (7 s q xs x)
  then show ?case using outProcQ_present [of s q xs x] by blast
qed (auto simp: mkEmptyProcQ_def procq_distinct removeProcQ_empty outProcQ_absent)

section \<open>Properties\<close>

definition zero_pcbs :: pcb_mod where
  "zero_pcbs = \<lparr>pcbTable = (\<lambda>_. zero_pcb), pcbFree_h = NULL\<rparr>"

text \<open>A process queue is first in, first out: PCBs inserted one after the other behind any
  queue leave it, by \<open>removeProcQ\<close>, after the PCBs before them and in the order of insertion, and
  the queue is empty again.\<close>

theorem procq_fifo:
  assumes "procq s tp xs" and "distinct ys" and "set ys \<inter> set xs = {}"
  shows "\<exists>tp1 s1 tp2 s2. enq_all (\<lambda>tp p. insertProcQ tp (Some p)) tp ys s = Some (tp1, s1)
    \<and> deq_n removeProcQ (length xs + length ys) tp1 s1 = Some (map Some (xs @ ys), tp2, s2)
    \<and> procq s2 tp2 [] \<and> emptyProcQ tp2"
proof -
  obtain tp1 s1 tp2 s2 where r: "enq_all (\<lambda>tp p. insertProcQ tp (Some p)) tp ys s = Some (tp1, s1)"
    "deq_n removeProcQ (length xs + length ys) tp1 s1 = Some (map Some (xs @ ys), tp2, s2)"
    "procq s2 tp2 []"
    using procqs.fifo [OF assms] by blast
  then show ?thesis using emptyProcQ_spec [OF r(3)] by blast
qed

theorem procq_fifo_witness:
  "\<exists>tp1 s1 tp2 s2. enq_all (\<lambda>tp p. insertProcQ tp (Some p)) NULL [3, 0, 7] zero_pcbs = Some (tp1, s1)
    \<and> deq_n removeProcQ 3 tp1 s1 = Some ([Some 3, Some 0, Some 7], tp2, s2)
    \<and> procq s2 tp2 [] \<and> emptyProcQ tp2"
  using procq_fifo [of zero_pcbs NULL "[]" "[3, 0, 7]"] by (simp add: numeral_3_eq_3)

text \<open>\<open>outProcQ\<close> takes exactly the PCB it is given out of a queue, wherever it stands: it
  returns that PCB with its links cleared, the others keep their order, and nothing but links of
  the queue's PCBs changes.  Of a PCB that is not in the queue it returns \<open>NULL\<close> and changes
  nothing; the search ends in both cases.\<close>

theorem outProcQ_exact:
  assumes "procq s tp xs"
  shows "if p \<in> set xs
    then \<exists>tp' s'. outProcQ tp (Some p) s = Some (Some p, tp', s')
      \<and> procq s' tp' (remove1 p xs) \<and> qframe (set xs) s s'
      \<and> p_next (pcbTable s' p) = NULL \<and> p_prev (pcbTable s' p) = NULL
    else outProcQ tp (Some p) s = Some (NULL, tp, s)"
  using outProcQ_present [OF assms] outProcQ_absent [OF assms] by simp

theorem outProcQ_exact_witness:
  "\<exists>tp (s :: pcb_mod). procq s tp [5, 2, 9]
    \<and> (\<exists>tp' s'. outProcQ tp (Some 2) s = Some (Some 2, tp', s') \<and> procq s' tp' [5, 9])
    \<and> outProcQ tp (Some 4) s = Some (NULL, tp, s)"
proof -
  obtain tp s where q: "procq (s :: pcb_mod) tp [5, 2, 9]"
    using procqs.enq_all_rep [of zero_pcbs NULL "[]" "[5, 2, 9]"] by auto
  have "\<exists>tp' s'. outProcQ tp (Some 2) s = Some (Some 2, tp', s') \<and> procq s' tp' [5, 9]"
    using outProcQ_exact [OF q, of 2] by auto
  moreover have "outProcQ tp (Some 4) s = Some (NULL, tp, s)"
    using outProcQ_exact [OF q, of 4] by simp
  ultimately show ?thesis using q by blast
qed

text \<open>After \<open>initPcbs\<close> exactly \<open>MAXPROC\<close> PCBs can be allocated, all different, and the next
  \<open>allocPcb\<close> returns \<open>NULL\<close>.\<close>

theorem initPcbs_supply:
  "\<exists>s'. alloc_many allocPcb (Suc MAXPROC) (initPcbs s) = Some (map Some [0..<MAXPROC] @ [NULL], s')"
  using pcbs.exhausted [OF initPcbs_pool [of s]] by simp

text \<open>\<open>allocPcb\<close> hands out the first free PCB with every field reset and no link, and touches no
  other PCB; freeing it makes it the next one to be allocated.\<close>

theorem allocPcb_fresh:
  assumes "pcb_pool s (x # xs)"
  shows "\<exists>s'. allocPcb s = Some (Some x, s') \<and> pcb_pool s' xs
    \<and> pcbTable s' = (pcbTable s)(x := reset_pcb (pcbTable s x))
    \<and> p_semAdd (pcbTable s' x) = NULL_addr \<and> p_child (pcbTable s' x) = NULL
    \<and> p_supportStruct (pcbTable s' x) = NULL
    \<and> (\<exists>s1 s2. freePcb (Some x) s' = Some s1 \<and> allocPcb s1 = Some (Some x, s2) \<and> pcb_pool s2 xs)"
proof -
  have "x \<notin> set xs" using assms by (simp add: pcb_pool_def)
  then have "\<exists>s1 s2. freePcb (Some x) (take_pcb x s) = Some s1 \<and> allocPcb s1 = Some (Some x, s2)
      \<and> pcb_pool s2 xs"
    using pcbs.release_alloc [OF allocPcb_first(2) [OF assms]] by blast
  then show ?thesis
    using allocPcb_first [OF assms] by (simp add: take_pcb_def)
qed

theorem allocPcb_fresh_witness:
  "\<exists>s'. allocPcb (initPcbs zero_pcbs) = Some (Some 0, s') \<and> pcb_pool s' [1..<MAXPROC]"
  using allocPcb_fresh [of "initPcbs zero_pcbs" 0 "[1..<MAXPROC]"] initPcbs_pool [of zero_pcbs]
    upt_conv_Cons [of 0 MAXPROC] by auto

end
