(* ===== verification/Asl.thy ===== *)
theory Asl
  imports Pcb
begin

text \<open>
  The active semaphore list, \<open>phase3/asl.c\<close>: the static array of semaphore descriptors with a
  dummy head (element 0) and a dummy tail (element 21), the free list, and the operations that
  block and unblock PCBs on a semaphore address.

  The state extends that of \<open>pcb.c\<close>.  \<open>findSemd\<close>'s loop, the search for the insertion point and
  the search for the predecessor are the three \<open>while\<close> loops of the file; the code that takes a
  descriptor off \<open>semdFree_h\<close>, the code that links it in, the enqueueing at the end (all inline in
  \<open>insertBlocked\<close>), and the code that unlinks and frees one
  (the same lines in \<open>removeBlocked\<close> and \<open>outBlocked\<close>) are definitions of their own.
\<close>

section \<open>The model\<close>

abbreviation (input) MAXSEMD :: nat where "MAXSEMD \<equiv> MAXPROC"

record asl_mod = pcb_mod +
  semdTable :: "nat \<Rightarrow> semd_t"
  semd_h :: ptr
  semdFree_h :: ptr

definition srd :: "(semd_t \<Rightarrow> 'a) \<Rightarrow> ptr \<Rightarrow> 'z asl_mod_scheme \<Rightarrow> 'a option" where
  "srd f p s = map_option (\<lambda>i. f (semdTable s i)) p"

definition swr :: "(('a \<Rightarrow> 'a) \<Rightarrow> semd_t \<Rightarrow> semd_t) \<Rightarrow> ptr \<Rightarrow> 'a \<Rightarrow> 'z asl_mod_scheme
    \<Rightarrow> 'z asl_mod_scheme option" where
  "swr fu p v s = map_option
     (\<lambda>i. s\<lparr>semdTable := (semdTable s)(i := fu (\<lambda>_. v) (semdTable s i))\<rparr>) p"

lemma srd_simps [simp]:
  "srd f NULL s = None" "srd f (Some i) s = Some (f (semdTable s i))"
  by (simp_all add: srd_def)

lemma swr_simps [simp]:
  "swr fu NULL v s = None"
  "swr fu (Some i) v s = Some (s\<lparr>semdTable := (semdTable s)(i := fu (\<lambda>_. v) (semdTable s i))\<rparr>)"
  by (simp_all add: swr_def)

definition initASL :: "'z asl_mod_scheme \<Rightarrow> 'z asl_mod_scheme" where
  "initASL s =
     (let t = semdTable s;
          t = t(0 := (t 0)\<lparr>s_semAdd := 0\<rparr>);
          tail = MAXSEMD + 1;
          t = t(tail := (t tail)\<lparr>s_semAdd := MAXINT\<rparr>);
          t = t(0 := (t 0)\<lparr>s_next := Some tail\<rparr>);
          t = t(tail := (t tail)\<lparr>s_next := NULL\<rparr>);
          t = foldl (\<lambda>t i. t(i := (t i)\<lparr>s_next := Some (i + 1)\<rparr>)) t [1..<MAXSEMD];
          t = t(MAXSEMD := (t MAXSEMD)\<lparr>s_next := NULL\<rparr>)
      in s\<lparr>semdTable := t, semd_h := Some 0, semdFree_h := Some 1\<rparr>)"

partial_function (option) findSemd_loop :: "u32 \<Rightarrow> ptr \<Rightarrow> 'z asl_mod_scheme \<Rightarrow> ptr option" where
  "findSemd_loop semAdd current s =
     (if current = NULL then Some current
      else do {
        a \<leftarrow> srd s_semAdd current s;
        (if a < semAdd then do {
           current \<leftarrow> srd s_next current s;
           findSemd_loop semAdd current s
         } else Some current)
      })"

definition findSemd :: "u32 \<Rightarrow> 'z asl_mod_scheme \<Rightarrow> ptr option" where
  "findSemd semAdd s = do {
     current \<leftarrow> srd s_next (semd_h s) s;
     current \<leftarrow> findSemd_loop semAdd current s;
     (if current \<noteq> NULL then do {
        a \<leftarrow> srd s_semAdd current s;
        Some (if a = semAdd then current else NULL)
      } else Some NULL)
   }"

definition allocSemd :: "'z asl_mod_scheme \<Rightarrow> (ptr \<times> 'z asl_mod_scheme) option" where
  "allocSemd s =
     (if semdFree_h s = NULL then Some (NULL, s)
      else do {
        let semd = semdFree_h s;
        nxt \<leftarrow> srd s_next (semdFree_h s) s;
        Some (semd, s\<lparr>semdFree_h := nxt\<rparr>)
      })"

partial_function (option) insert_pos :: "u32 \<Rightarrow> ptr \<Rightarrow> 'z asl_mod_scheme \<Rightarrow> ptr option" where
  "insert_pos semAdd prev s = do {
     n \<leftarrow> srd s_next prev s;
     (if n = NULL then Some prev
      else do {
        a \<leftarrow> srd s_semAdd n s;
        (if a < semAdd then insert_pos semAdd n s else Some prev)
      })
   }"

definition linkSemd :: "u32 \<Rightarrow> ptr \<Rightarrow> 'z asl_mod_scheme \<Rightarrow> 'z asl_mod_scheme option" where
  "linkSemd semAdd semd s = do {
     s \<leftarrow> swr s_semAdd_update semd semAdd s;
     s \<leftarrow> swr s_procQ_update semd mkEmptyProcQ s;
     prev \<leftarrow> insert_pos semAdd (semd_h s) s;
     nxt \<leftarrow> srd s_next prev s;
     s \<leftarrow> swr s_next_update semd nxt s;
     swr s_next_update prev semd s
   }"

definition enqSemd :: "u32 \<Rightarrow> ptr \<Rightarrow> ptr \<Rightarrow> 'z asl_mod_scheme \<Rightarrow> (bool \<times> 'z asl_mod_scheme) option" where
  "enqSemd semAdd semd p s = do {
     tp \<leftarrow> srd s_procQ semd s;
     (tp, s) \<leftarrow> insertProcQ tp p s;
     s \<leftarrow> swr s_procQ_update semd tp s;
     s \<leftarrow> wr p_semAdd_update p semAdd s;
     Some (False, s)
   }"

definition insertBlocked :: "u32 \<Rightarrow> ptr \<Rightarrow> 'z asl_mod_scheme \<Rightarrow> (bool \<times> 'z asl_mod_scheme) option" where
  "insertBlocked semAdd p s =
     (if p = NULL then Some (True, s)
      else do {
        semd \<leftarrow> findSemd semAdd s;
        (semd, s) \<leftarrow> (if semd = NULL then do {
            (semd, s) \<leftarrow> allocSemd s;
            (if semd = NULL then Some (NULL, s)
             else do {
               s \<leftarrow> linkSemd semAdd semd s;
               Some (semd, s)
             })
          } else Some (semd, s));
        (if semd = NULL then Some (True, s) else enqSemd semAdd semd p s)
      })"

partial_function (option) find_prev :: "ptr \<Rightarrow> ptr \<Rightarrow> 'z asl_mod_scheme \<Rightarrow> ptr option" where
  "find_prev semd prev s = do {
     n \<leftarrow> srd s_next prev s;
     (if n \<noteq> NULL \<and> n \<noteq> semd then find_prev semd n s else Some prev)
   }"

definition freeSemd :: "ptr \<Rightarrow> 'z asl_mod_scheme \<Rightarrow> 'z asl_mod_scheme option" where
  "freeSemd semd s = do {
     s \<leftarrow> swr s_next_update semd (semdFree_h s) s;
     Some (s\<lparr>semdFree_h := semd\<rparr>)
   }"

definition retireSemd :: "ptr \<Rightarrow> 'z asl_mod_scheme \<Rightarrow> 'z asl_mod_scheme option" where
  "retireSemd semd s = do {
     prev \<leftarrow> find_prev semd (semd_h s) s;
     n \<leftarrow> srd s_next prev s;
     s \<leftarrow> (if n = semd then do {
              nxt \<leftarrow> srd s_next semd s;
              swr s_next_update prev nxt s
            } else Some s);
     freeSemd semd s
   }"

definition removeBlocked :: "u32 \<Rightarrow> 'z asl_mod_scheme \<Rightarrow> (ptr \<times> 'z asl_mod_scheme) option" where
  "removeBlocked semAdd s = do {
     semd \<leftarrow> findSemd semAdd s;
     (if semd = NULL then Some (NULL, s)
      else do {
        tp \<leftarrow> srd s_procQ semd s;
        (removed, tp, s) \<leftarrow> removeProcQ tp s;
        s \<leftarrow> swr s_procQ_update semd tp s;
        (if removed = NULL then Some (NULL, s)
         else do {
           s \<leftarrow> wr p_semAdd_update removed NULL_addr s;
           tp \<leftarrow> srd s_procQ semd s;
           s \<leftarrow> (if emptyProcQ tp then retireSemd semd s else Some s);
           Some (removed, s)
         })
      })
   }"

definition outBlocked :: "ptr \<Rightarrow> 'z asl_mod_scheme \<Rightarrow> (ptr \<times> 'z asl_mod_scheme) option" where
  "outBlocked p s =
     (if p = NULL then Some (NULL, s)
      else do {
        a \<leftarrow> rd p_semAdd p s;
        (if a = NULL_addr then Some (NULL, s)
         else do {
           semd \<leftarrow> findSemd a s;
           (if semd = NULL then Some (NULL, s)
            else do {
              tp \<leftarrow> srd s_procQ semd s;
              (removed, tp, s) \<leftarrow> outProcQ tp p s;
              s \<leftarrow> swr s_procQ_update semd tp s;
              (if removed = NULL then Some (NULL, s)
               else do {
                 tp \<leftarrow> srd s_procQ semd s;
                 s \<leftarrow> (if emptyProcQ tp then retireSemd semd s else Some s);
                 Some (p, s)
               })
            })
         })
      })"

definition headBlocked :: "u32 \<Rightarrow> 'z asl_mod_scheme \<Rightarrow> ptr option" where
  "headBlocked semAdd s = do {
     semd \<leftarrow> findSemd semAdd s;
     (if semd = NULL then Some NULL
      else do {
        tp \<leftarrow> srd s_procQ semd s;
        (if emptyProcQ tp then Some NULL else headProcQ tp s)
      })
   }"

section \<open>What the list represents\<close>

text \<open>
  A descriptor of the list is a triple of its index, its semaphore address and the PCBs blocked
  there.  \<open>asl_rep s ds fs\<close>: the list from \<open>semd_h\<close> is the dummy head, \<open>ds\<close> in ascending order
  of address, the dummy tail; \<open>fs\<close> are the free descriptors.  The descriptors' queues are
  non-empty and disjoint, and every PCB in them names its semaphore in \<open>p_semAdd\<close>.
  \<open>asl_shape\<close> is the same without non-emptiness, which fails in the middle of an operation.
\<close>

type_synonym desc = "nat \<times> u32 \<times> nat list"

abbreviation (input) idx :: "desc \<Rightarrow> nat" where "idx d \<equiv> fst d"
abbreviation (input) key :: "desc \<Rightarrow> u32" where "key d \<equiv> fst (snd d)"
abbreviation (input) que :: "desc \<Rightarrow> nat list" where "que d \<equiv> snd (snd d)"

definition snx :: "(nat \<Rightarrow> semd_t) \<Rightarrow> nat \<Rightarrow> ptr" where
  "snx t i = s_next (t i)"

definition desc_ok :: "'z asl_mod_scheme \<Rightarrow> desc \<Rightarrow> bool" where
  "desc_ok s d \<longleftrightarrow> s_semAdd (semdTable s (idx d)) = key d \<and> key d < MAXINT
     \<and> procq s (s_procQ (semdTable s (idx d))) (que d)
     \<and> (\<forall>p \<in> set (que d). p_semAdd (pcbTable s p) = key d)"

definition queued :: "desc list \<Rightarrow> nat list" where
  "queued ds = concat (map (\<lambda>d. que d) ds)"

definition asl_shape :: "'z asl_mod_scheme \<Rightarrow> desc list \<Rightarrow> nat list \<Rightarrow> bool" where
  "asl_shape s ds fs \<longleftrightarrow> semd_h s = Some 0
     \<and> slist (snx (semdTable s)) (Some 0) (0 # map (\<lambda>d. idx d) ds @ [MAXSEMD + 1])
     \<and> s_semAdd (semdTable s (MAXSEMD + 1)) = MAXINT
     \<and> slist (snx (semdTable s)) (semdFree_h s) fs
     \<and> distinct (map (\<lambda>d. idx d) ds @ fs)
     \<and> set (map (\<lambda>d. idx d) ds @ fs) = {1..MAXSEMD}
     \<and> sorted_wrt (\<lambda>d e. key d < key e) ds
     \<and> (\<forall>d \<in> set ds. desc_ok s d)
     \<and> distinct (queued ds)"

definition asl_rep :: "'z asl_mod_scheme \<Rightarrow> desc list \<Rightarrow> nat list \<Rightarrow> bool" where
  "asl_rep s ds fs \<longleftrightarrow> asl_shape s ds fs \<and> (\<forall>d \<in> set ds. que d \<noteq> [])"

text \<open>The abstract view: the queue of each semaphore address, empty where none is active.\<close>

definition blocked :: "desc list \<Rightarrow> u32 \<Rightarrow> nat list" where
  "blocked ds a = (case map_of (map snd ds) a of None \<Rightarrow> [] | Some q \<Rightarrow> q)"

definition asl_inv :: "'z asl_mod_scheme \<Rightarrow> (u32 \<Rightarrow> nat list) \<Rightarrow> bool" where
  "asl_inv s B \<longleftrightarrow> (\<exists>ds fs. asl_rep s ds fs \<and> B = blocked ds)"

lemma snx_upd [link_simps]: "snx (t(i := r)) = (snx t)(i := s_next r)"
  by (auto simp: snx_def)

lemma snx_same [simp]:
  "snx (t(i := (t i)\<lparr>s_semAdd := a\<rparr>)) = snx t" "snx (t(i := (t i)\<lparr>s_procQ := q\<rparr>)) = snx t"
  by (auto simp: snx_def)

end
