(* ===== verification/AslRefine.thy ===== *)
theory AslRefine
  imports Asl
begin

text \<open>
  The operations of \<open>phase3/asl.c\<close> on the list they represent: each of linking a descriptor in,
  enqueueing, dequeueing and retiring a descriptor is a change of \<open>ds\<close>, and the exported
  functions compose them into changes of the abstract map from addresses to queues.
\<close>

section \<open>Searching\<close>

lemma sorted_split:
  assumes "sorted_wrt (\<lambda>d e. key d < key e) (ds1 @ d # ds2)"
  shows "takeWhile (\<lambda>e. key e < key d) (ds1 @ d # ds2) = ds1"
    and "dropWhile (\<lambda>e. key e < key d) (ds1 @ d # ds2) = d # ds2"
  using assms by (auto simp: sorted_wrt_append takeWhile_append2 dropWhile_append2)

lemma dropWhile_above:
  assumes "sorted_wrt (\<lambda>d e. key d < key e) ds" and "a \<notin> (\<lambda>d. key d) ` set ds"
  shows "\<forall>d \<in> set (dropWhile (\<lambda>d. key d < a) ds). a < key d"
  using assms
proof (induction ds)
  case (Cons d ds)
  show ?case
  proof (cases "key d < a")
    case False
    then have "a < key d" using Cons.prems(2) by auto
    moreover have "\<forall>e \<in> set ds. key d < key e" using Cons.prems(1) by simp
    ultimately have "\<forall>e \<in> set (d # ds). a < key e" by (auto intro: order.strict_trans)
    then show ?thesis using False by simp
  qed (use Cons in simp)
qed simp

lemma findSemd_loop_ds:
  assumes "slist (snx (semdTable s)) c (map (\<lambda>d. idx d) ds @ [MAXSEMD + 1])"
    and "\<forall>d \<in> set ds. s_semAdd (semdTable s (idx d)) = key d"
    and "s_semAdd (semdTable s (MAXSEMD + 1)) = MAXINT" and "a < MAXINT"
  shows "findSemd_loop a c s =
    Some (Some (hd (map (\<lambda>d. idx d) (dropWhile (\<lambda>d. key d < a) ds) @ [MAXSEMD + 1])))"
  using assms
proof (induction ds arbitrary: c)
  case Nil
  then have "\<not> MAXINT < a" by (simp add: not_less order.strict_implies_order)
  then show ?case using Nil by (simp add: findSemd_loop.simps [of a "Some _"])
next
  case (Cons d ds)
  then show ?case
    by (cases "key d < a") (simp_all add: findSemd_loop.simps [of a "Some (idx d)"] snx_def)
qed

lemma shapeD:
  assumes "asl_shape s ds fs"
  shows "semd_h s = Some 0"
    and "slist (snx (semdTable s)) (s_next (semdTable s 0)) (map (\<lambda>d. idx d) ds @ [MAXSEMD + 1])"
    and "s_semAdd (semdTable s (MAXSEMD + 1)) = MAXINT"
    and "slist (snx (semdTable s)) (semdFree_h s) fs"
    and "distinct (map (\<lambda>d. idx d) ds @ fs)"
    and "set (map (\<lambda>d. idx d) ds @ fs) = {1..MAXSEMD}"
    and "sorted_wrt (\<lambda>d e. key d < key e) ds"
    and "\<And>d. d \<in> set ds \<Longrightarrow> desc_ok s d"
    and "distinct (queued ds)"
proof -
  note h = assms [unfolded asl_shape_def]
  show "semd_h s = Some 0" "s_semAdd (semdTable s (MAXSEMD + 1)) = MAXINT"
    "slist (snx (semdTable s)) (semdFree_h s) fs" "distinct (map (\<lambda>d. idx d) ds @ fs)"
    "set (map (\<lambda>d. idx d) ds @ fs) = {1..MAXSEMD}" "sorted_wrt (\<lambda>d e. key d < key e) ds"
    "\<And>d. d \<in> set ds \<Longrightarrow> desc_ok s d" "distinct (queued ds)"
    using h by blast+
  show "slist (snx (semdTable s)) (s_next (semdTable s 0)) (map (\<lambda>d. idx d) ds @ [MAXSEMD + 1])"
    using h by (simp add: snx_def [of _ 0])
qed

lemma shape_idx: "asl_shape s ds fs \<Longrightarrow> d \<in> set ds \<Longrightarrow> idx d \<in> {1..MAXSEMD}"
  using shapeD(6) by (metis Un_iff image_eqI set_append set_map)

lemma findSemd_shape:
  assumes "asl_shape s ds fs" and "a < MAXINT"
  shows "findSemd a s = Some (case dropWhile (\<lambda>d. key d < a) ds of [] \<Rightarrow> NULL
    | d # _ \<Rightarrow> if key d = a then Some (idx d) else NULL)"
proof -
  have keys: "\<forall>d \<in> set ds. s_semAdd (semdTable s (idx d)) = key d"
    using shapeD(8) [OF assms(1)] by (auto simp: desc_ok_def)
  note loop = findSemd_loop_ds [OF shapeD(2) [OF assms(1)] keys shapeD(3) [OF assms(1)] assms(2)]
  show ?thesis
  proof (cases "dropWhile (\<lambda>d. key d < a) ds")
    case Nil
    then show ?thesis
      using loop shapeD(1,3) [OF assms(1)] assms(2)
      by (simp add: findSemd_def Nil del: dropWhile_eq_Nil_conv)
  next
    case (Cons d es)
    then have "d \<in> set ds" by (metis list.set_intros(1) set_dropWhileD)
    then have "s_semAdd (semdTable s (idx d)) = key d" using keys by blast
    then show ?thesis
      using loop shapeD(1) [OF assms(1)] Cons by (simp add: findSemd_def)
  qed
qed

lemma findSemd_active:
  assumes "asl_shape s (ds1 @ (i, a, q) # ds2) fs"
  shows "findSemd a s = Some (Some i)"
proof -
  have "a < MAXINT" using shapeD(8) [OF assms, of "(i, a, q)"] by (simp add: desc_ok_def)
  moreover have "dropWhile (\<lambda>e. key e < a) (ds1 @ (i, a, q) # ds2) = (i, a, q) # ds2"
    using sorted_split(2) [OF shapeD(7) [OF assms]] by simp
  ultimately show ?thesis using findSemd_shape [OF assms] by simp
qed

lemma findSemd_inactive:
  assumes "asl_shape s ds fs" and "a < MAXINT" and "a \<notin> (\<lambda>d. key d) ` set ds"
  shows "findSemd a s = Some NULL"
proof -
  have "key d \<noteq> a" if "dropWhile (\<lambda>d. key d < a) ds = d # es" for d es
    using assms(3) that by (metis image_eqI list.set_intros(1) set_dropWhileD)
  then show ?thesis
    using findSemd_shape [OF assms(1,2)] by (auto split: list.split)
qed

lemma insert_pos_ds:
  assumes "slist (snx (semdTable s)) (s_next (semdTable s j)) (map (\<lambda>d. idx d) ds @ [MAXSEMD + 1])"
    and "\<forall>d \<in> set ds. s_semAdd (semdTable s (idx d)) = key d"
    and "s_semAdd (semdTable s (MAXSEMD + 1)) = MAXINT" and "a < MAXINT"
  shows "insert_pos a (Some j) s =
    Some (Some (last (j # map (\<lambda>d. idx d) (takeWhile (\<lambda>d. key d < a) ds))))"
  using assms
proof (induction ds arbitrary: j)
  case Nil
  then have "\<not> MAXINT < a" by (simp add: not_less order.strict_implies_order)
  then show ?case using Nil by (simp add: insert_pos.simps)
next
  case (Cons d ds)
  have step: "insert_pos a (Some j) s = (if key d < a then insert_pos a (Some (idx d)) s else Some (Some j))"
    using Cons.prems by (simp add: insert_pos.simps [of a "Some j"])
  show ?case
  proof (cases "key d < a")
    case True
    have "insert_pos a (Some (idx d)) s =
        Some (Some (last (idx d # map (\<lambda>d. idx d) (takeWhile (\<lambda>d. key d < a) ds))))"
      by (rule Cons.IH) (use Cons.prems in \<open>auto simp: snx_def\<close>)
    then show ?thesis using True step by simp
  qed (use step in simp)
qed

lemma find_prev_ds:
  assumes "slist (snx (semdTable s)) (s_next (semdTable s j)) (is @ i # js)" and "i \<notin> set is"
  shows "find_prev (Some i) (Some j) s = Some (Some (last (j # is)))"
  using assms
proof (induction "is" arbitrary: j)
  case Nil
  then show ?case by (simp add: find_prev.simps)
next
  case (Cons k ks)
  then have "find_prev (Some i) (Some k) s = Some (Some (last (k # ks)))"
    by (intro Cons.IH) (simp_all add: snx_def)
  then show ?case using Cons.prems by (simp add: find_prev.simps [of _ "Some j"])
qed

section \<open>Changing the list\<close>

lemma queued_simps [simp]:
  "queued [] = []" "queued (d # ds) = que d @ queued ds" "queued (ds @ es) = queued ds @ queued es"
  by (simp_all add: queued_def)

lemma queued_mem: "d \<in> set ds \<Longrightarrow> set (que d) \<subseteq> set (queued ds)"
  by (auto simp: queued_def)

lemma desc_ok_cong:
  assumes "s_semAdd (semdTable s' (idx d)) = s_semAdd (semdTable s (idx d))"
    and "s_procQ (semdTable s' (idx d)) = s_procQ (semdTable s (idx d))"
    and "\<And>x. x \<in> set (que d) \<Longrightarrow> pcbTable s' x = pcbTable s x"
  shows "desc_ok s' d = desc_ok s d"
  using procq_cong [of "que d" s' s] assms by (auto simp: desc_ok_def)

lemma chain_split:
  "\<exists>xs j. 0 # map (\<lambda>d. idx d) ds1 = xs @ [j] \<and> last (0 # map (\<lambda>d. idx d) ds1) = j"
  by (metis append_butlast_last_id list.distinct(1))

lemma allocSemd_shape:
  assumes "asl_shape s ds (i # fs)"
  shows "allocSemd s = Some (Some i, s\<lparr>semdFree_h := s_next (semdTable s i)\<rparr>)"
  using shapeD(4) [OF assms] by (simp add: allocSemd_def)

lemma allocSemd_none:
  assumes "asl_shape s ds []"
  shows "allocSemd s = Some (NULL, s)"
  using shapeD(4) [OF assms] by (simp add: allocSemd_def)

lemma chain_distinct:
  assumes "distinct (as @ bs @ i # fs)" and "set (as @ bs @ i # fs) = {1..MAXSEMD}"
  shows "distinct ((0 # as) @ bs @ [MAXSEMD + 1])" and "i \<notin> set ((0 # as) @ bs @ [MAXSEMD + 1])"
    and "set (0 # as) \<inter> set fs = {}"
proof -
  have "0 \<notin> set (as @ bs @ i # fs)" "MAXSEMD + 1 \<notin> set (as @ bs @ i # fs)"
    unfolding assms(2) by simp_all
  then show "distinct ((0 # as) @ bs @ [MAXSEMD + 1])" "i \<notin> set ((0 # as) @ bs @ [MAXSEMD + 1])"
    "set (0 # as) \<inter> set fs = {}"
    using assms(1) by auto
qed

lemma linkSemd_shape:
  assumes sh: "asl_shape s (ds1 @ ds2) (i # fs)" and a: "a < MAXINT"
    and lo: "\<forall>d \<in> set ds1. key d < a" and hi: "\<forall>d \<in> set ds2. a < key d"
  defines "s1 \<equiv> s\<lparr>semdFree_h := s_next (semdTable s i)\<rparr>"
  shows "\<exists>t. linkSemd a (Some i) s1 = Some (s1\<lparr>semdTable := t\<rparr>)
    \<and> asl_shape (s1\<lparr>semdTable := t\<rparr>) (ds1 @ (i, a, []) # ds2) fs"
proof -
  let ?T = "semdTable s"
  obtain xs j where j: "0 # map (\<lambda>d. idx d) ds1 = xs @ [j]" "last (0 # map (\<lambda>d. idx d) ds1) = j"
    using chain_split by blast
  let ?ys = "map (\<lambda>d. idx d) ds2 @ [MAXSEMD + 1]"
  have dist: "distinct (map (\<lambda>d. idx d) ds1 @ map (\<lambda>d. idx d) ds2 @ i # fs)"
    and range: "set (map (\<lambda>d. idx d) ds1 @ map (\<lambda>d. idx d) ds2 @ i # fs) = {1..MAXSEMD}"
    using shapeD(5,6) [OF sh] by simp_all
  have i: "i \<in> {1..MAXSEMD}" using range by auto
  have inner: "idx d \<in> {1..MAXSEMD} \<and> idx d \<noteq> i" if "d \<in> set (ds1 @ ds2)" for d
    using that dist range by auto
  have "distinct ((0 # map (\<lambda>d. idx d) ds1) @ ?ys)" "i \<notin> set ((0 # map (\<lambda>d. idx d) ds1) @ ?ys)"
    by (rule chain_distinct [OF dist range])+
  then have chain: "distinct (xs @ j # ?ys)" "i \<notin> set (xs @ j # ?ys)"
    unfolding j(1) by simp_all
  have "j \<in> set (0 # map (\<lambda>d. idx d) ds1)"
    unfolding j(1) by simp
  then have j_notin: "j \<notin> set fs" "j \<noteq> i" "j \<noteq> MAXSEMD + 1"
    using chain_distinct(3) [OF dist range] chain by auto
  let ?u = "?T(i := (?T i)\<lparr>s_semAdd := a, s_procQ := NULL\<rparr>)"
  define t where "t = ?u(i := (?u i)\<lparr>s_next := s_next (?T j)\<rparr>, j := (?u j)\<lparr>s_next := Some i\<rparr>)"
  have keys: "\<forall>d \<in> set (ds1 @ ds2). s_semAdd (?T (idx d)) = key d"
    using shapeD(8) [OF sh] by (auto simp: desc_ok_def)
  have "insert_pos a (Some 0) (s1\<lparr>semdTable := ?u\<rparr>) =
      Some (Some (last (0 # map (\<lambda>d. idx d) (takeWhile (\<lambda>d. key d < a) (ds1 @ ds2)))))"
  proof (rule insert_pos_ds)
    show "slist (snx (semdTable (s1\<lparr>semdTable := ?u\<rparr>))) (s_next (semdTable (s1\<lparr>semdTable := ?u\<rparr>) 0))
        (map (\<lambda>d. idx d) (ds1 @ ds2) @ [MAXSEMD + 1])"
      using shapeD(2) [OF sh] i by (simp add: link_simps snx_def [of ?T, symmetric])
    show "\<forall>d \<in> set (ds1 @ ds2). s_semAdd (semdTable (s1\<lparr>semdTable := ?u\<rparr>) (idx d)) = key d"
      using keys inner by auto
    show "s_semAdd (semdTable (s1\<lparr>semdTable := ?u\<rparr>) (MAXSEMD + 1)) = MAXINT"
      using shapeD(3) [OF sh] i by simp
  qed (rule a)
  moreover have "takeWhile (\<lambda>d. key d < a) (ds1 @ ds2) = ds1"
  proof -
    have "takeWhile (\<lambda>d. key d < a) ds2 = []"
      using hi by (cases ds2) (auto simp: order.asym)
    then show ?thesis using lo by (simp add: takeWhile_append2)
  qed
  ultimately have pos: "insert_pos a (Some 0) (s1\<lparr>semdTable := ?u\<rparr>) = Some (Some j)"
    using j(2) by simp
  have run: "linkSemd a (Some i) s1 = Some (s1\<lparr>semdTable := t\<rparr>)"
    using pos shapeD(1) [OF sh] j_notin(2)
    by (simp add: linkSemd_def s1_def mkEmptyProcQ_def t_def)
  have nexts: "snx t = (snx ?T)(i := snx ?T j, j := Some i)"
    by (auto simp: t_def link_simps snx_def)
  have "slist (snx ?T) (Some 0) ((0 # map (\<lambda>d. idx d) ds1) @ ?ys)"
    using sh by (simp add: asl_shape_def)
  then have "slist (snx ?T) (Some 0) (xs @ j # ?ys)"
    unfolding j(1) by simp
  then have chain': "slist (snx t) (Some 0) (xs @ j # i # ?ys)"
    unfolding nexts by (rule slist_link_in) (rule chain)+
  have eqs: "s_semAdd (t k) = s_semAdd (?T k) \<and> s_procQ (t k) = s_procQ (?T k)" if "k \<noteq> i" for k
    using that by (simp add: t_def)
  have new: "s_semAdd (t i) = a" "s_procQ (t i) = NULL"
    using j_notin by (simp_all add: t_def)
  have "asl_shape (s1\<lparr>semdTable := t\<rparr>) (ds1 @ (i, a, []) # ds2) fs"
    unfolding asl_shape_def
  proof (intro conjI)
    have "slist (snx t) (Some 0) ((0 # map (\<lambda>d. idx d) ds1) @ i # ?ys)"
      using chain' unfolding j(1) append_assoc append_Cons append_Nil .
    then show "slist (snx (semdTable (s1\<lparr>semdTable := t\<rparr>))) (Some 0)
        (0 # map (\<lambda>d. idx d) (ds1 @ (i, a, []) # ds2) @ [MAXSEMD + 1])"
      by simp
    show "slist (snx (semdTable (s1\<lparr>semdTable := t\<rparr>))) (semdFree_h (s1\<lparr>semdTable := t\<rparr>)) fs"
      using shapeD(4) [OF sh] dist j_notin nexts by (simp add: s1_def snx_def [of ?T i])
    show "sorted_wrt (\<lambda>d e. key d < key e) (ds1 @ (i, a, []) # ds2)"
      using shapeD(7) [OF sh] lo hi by (auto simp: sorted_wrt_append)
    show "\<forall>d \<in> set (ds1 @ (i, a, []) # ds2). desc_ok (s1\<lparr>semdTable := t\<rparr>) d"
    proof
      fix d assume d: "d \<in> set (ds1 @ (i, a, []) # ds2)"
      show "desc_ok (s1\<lparr>semdTable := t\<rparr>) d"
      proof (cases "d = (i, a, [])")
        case True
        then show ?thesis using a new by (simp add: desc_ok_def)
      next
        case False
        then have "d \<in> set (ds1 @ ds2)" using d by auto
        then have "desc_ok s d" "idx d \<noteq> i" using shapeD(8) [OF sh] inner by blast+
        then show ?thesis
          using desc_ok_cong [of "s1\<lparr>semdTable := t\<rparr>" d s] eqs by (simp add: s1_def)
      qed
    qed
  qed (use shapeD(1,3,5,6,9) [OF sh] i eqs [of "MAXSEMD + 1"] in \<open>auto simp: s1_def\<close>)
  then show ?thesis using run by blast
qed

text \<open>Replacing the queue of one descriptor.\<close>

lemma shape_set_queue:
  assumes sh: "asl_shape s (ds1 @ (i, a, q) # ds2) fs"
    and sems: "semdTable s' = (semdTable s)(i := (semdTable s i)\<lparr>s_procQ := tp\<rparr>)"
      "semd_h s' = semd_h s" "semdFree_h s' = semdFree_h s"
    and pcbs: "\<And>x. x \<in> set (queued ds1 @ queued ds2) \<Longrightarrow> pcbTable s' x = pcbTable s x"
    and q': "procq s' tp q'" "\<And>x. x \<in> set q' \<Longrightarrow> p_semAdd (pcbTable s' x) = a"
    and dist: "distinct (queued ds1 @ q' @ queued ds2)"
  shows "asl_shape s' (ds1 @ (i, a, q') # ds2) fs"
  unfolding asl_shape_def
proof (intro conjI)
  have snx: "snx (semdTable s') = snx (semdTable s)"
    unfolding sems(1) by simp
  show "slist (snx (semdTable s')) (Some 0)
      (0 # map (\<lambda>d. idx d) (ds1 @ (i, a, q') # ds2) @ [MAXSEMD + 1])"
    unfolding snx using sh by (simp add: asl_shape_def)
  show "slist (snx (semdTable s')) (semdFree_h s') fs"
    unfolding snx sems(3) using sh by (simp add: asl_shape_def)
  show "\<forall>d \<in> set (ds1 @ (i, a, q') # ds2). desc_ok s' d"
  proof
    fix d assume d: "d \<in> set (ds1 @ (i, a, q') # ds2)"
    show "desc_ok s' d"
    proof (cases "d \<in> set ds1 \<union> set ds2")
      case True
      then have "idx d \<noteq> i" "desc_ok s d"
        using shapeD(5) [OF sh] shapeD(8) [OF sh, of d] by auto
      moreover have "pcbTable s' x = pcbTable s x" if "x \<in> set (que d)" for x
        using pcbs queued_mem [of d ds1] queued_mem [of d ds2] True that by auto
      ultimately show ?thesis
        using desc_ok_cong [of s' d s] sems(1) by simp
    next
      case False
      then have "d = (i, a, q')" using d by auto
      then show ?thesis
        using shapeD(8) [OF sh, of "(i, a, q)"] q' sems(1) by (simp add: desc_ok_def)
    qed
  qed
qed (use sh dist sems in \<open>auto simp: asl_shape_def sorted_wrt_append\<close>)

lemma asl_qframe:
  assumes "qframe A s s'"
  shows "semdTable s' = semdTable s" "semd_h s' = semd_h s" "semdFree_h s' = semdFree_h s"
    "asl_mod.more s' = asl_mod.more s"
proof -
  have eq: "s' = s\<lparr>pcbTable := pcbTable s'\<rparr>" using assms by (simp add: qframe_def)
  show "semdTable s' = semdTable s" by (subst eq) simp
  show "semd_h s' = semd_h s" by (subst eq) simp
  show "semdFree_h s' = semdFree_h s" by (subst eq) simp
  show "asl_mod.more s' = asl_mod.more s" by (subst eq) simp
qed

text \<open>
  What an operation on the list leaves alone: every PCB outside \<open>A\<close>, and of the others
  everything but the queue links and \<open>p_semAdd\<close>.
\<close>

definition unasl :: "pcb_t \<Rightarrow> pcb_t" where
  "unasl r = r\<lparr>p_next := NULL, p_prev := NULL, p_semAdd := 0\<rparr>"

definition aframe :: "nat set \<Rightarrow> 'z asl_mod_scheme \<Rightarrow> 'z asl_mod_scheme \<Rightarrow> bool" where
  "aframe A s s' \<longleftrightarrow> s' = s\<lparr>pcbTable := pcbTable s', semdTable := semdTable s',
       semdFree_h := semdFree_h s'\<rparr>
     \<and> (\<forall>i. i \<notin> A \<longrightarrow> pcbTable s' i = pcbTable s i)
     \<and> (\<forall>i. unasl (pcbTable s' i) = unasl (pcbTable s i))"

lemma aframeD:
  assumes "aframe A s s'"
  shows "pcbFree_h s' = pcbFree_h s" "semd_h s' = semd_h s" "asl_mod.more s' = asl_mod.more s"
    "i \<notin> A \<Longrightarrow> pcbTable s' i = pcbTable s i" "unasl (pcbTable s' i) = unasl (pcbTable s i)"
proof -
  have eq: "s' = s\<lparr>pcbTable := pcbTable s', semdTable := semdTable s', semdFree_h := semdFree_h s'\<rparr>"
    using assms by (simp add: aframe_def)
  show "pcbFree_h s' = pcbFree_h s" by (subst eq) simp
  show "semd_h s' = semd_h s" by (subst eq) simp
  show "asl_mod.more s' = asl_mod.more s" by (subst eq) simp
qed (use assms in \<open>simp_all add: aframe_def\<close>)

lemma unasl_links [simp]:
  "unasl (r\<lparr>p_next := n\<rparr>) = unasl r" "unasl (r\<lparr>p_prev := n\<rparr>) = unasl r"
  "unasl (r\<lparr>p_semAdd := a\<rparr>) = unasl r"
  by (simp_all add: unasl_def)

lemma unasl_unq: "unq r = unq r' \<Longrightarrow> unasl r = unasl r'"
  by (cases r; cases r') (simp add: unq_def unasl_def)

lemma unasl_eqD:
  assumes "unasl r = unasl r'"
  shows "p_prnt r = p_prnt r'" "p_child r = p_child r'" "p_sib_right r = p_sib_right r'"
    "p_sib_left r = p_sib_left r'" "p_s r = p_s r'" "p_time r = p_time r'"
    "p_startTOD r = p_startTOD r'" "p_supportStruct r = p_supportStruct r'"
proof -
  obtain n v a where "r = r'\<lparr>p_next := n, p_prev := v, p_semAdd := a\<rparr>"
    using assms by (cases r; cases r') (auto simp: unasl_def)
  then show "p_prnt r = p_prnt r'" "p_child r = p_child r'" "p_sib_right r = p_sib_right r'"
    "p_sib_left r = p_sib_left r'" "p_s r = p_s r'" "p_time r = p_time r'"
    "p_startTOD r = p_startTOD r'" "p_supportStruct r = p_supportStruct r'" by simp_all
qed

lemma enqSemd_shape:
  assumes sh: "asl_shape s (ds1 @ (i, a, q) # ds2) fs"
    and p: "p \<notin> set (queued (ds1 @ (i, a, q) # ds2))"
  shows "\<exists>s'. enqSemd a (Some i) (Some p) s = Some (False, s')
    \<and> asl_shape s' (ds1 @ (i, a, q @ [p]) # ds2) fs \<and> aframe (insert p (set q)) s s'"
proof -
  have ok: "procq s (s_procQ (semdTable s i)) q" "\<forall>x \<in> set q. p_semAdd (pcbTable s x) = a"
    using shapeD(8) [OF sh, of "(i, a, q)"] by (simp_all add: desc_ok_def)
  have pq: "p \<notin> set q" using p by simp
  obtain s1 where ins: "insertProcQ (s_procQ (semdTable s i)) (Some p) s = Some (Some p, s1)"
    and s1: "procq s1 (Some p) (q @ [p])" and fr: "qframe (insert p (set q)) s s1"
    using insertProcQ_spec [OF ok(1) pq] by blast
  let ?s2 = "s1\<lparr>semdTable := (semdTable s1)(i := (semdTable s1 i)\<lparr>s_procQ := Some p\<rparr>)\<rparr>"
  let ?s3 = "?s2\<lparr>pcbTable := (pcbTable s1)(p := (pcbTable s1 p)\<lparr>p_semAdd := a\<rparr>)\<rparr>"
  have run: "enqSemd a (Some i) (Some p) s = Some (False, ?s3)"
    using ins by (simp add: enqSemd_def)
  have pcb: "x \<noteq> p \<Longrightarrow> x \<notin> set q \<Longrightarrow> pcbTable ?s3 x = pcbTable s x" for x
    using qframeD(3) [OF fr, of x] by simp
  have "procq ?s3 (Some p) (q @ [p])"
  proof -
    have "nx (pcbTable ?s3) = nx (pcbTable s1)" "pv (pcbTable ?s3) = pv (pcbTable s1)"
      by (auto simp: nx_def pv_def)
    then show ?thesis using s1 by (simp only: procq_def)
  qed
  moreover have "p_semAdd (pcbTable ?s3 x) = a" if "x \<in> set (q @ [p])" for x
    using that ok(2) qframe_unq(8) [OF fr, of x] by auto
  moreover have "distinct (queued ds1 @ (q @ [p]) @ queued ds2)"
    using shapeD(9) [OF sh] p by auto
  moreover have "pcbTable ?s3 x = pcbTable s x" if "x \<in> set (queued ds1 @ queued ds2)" for x
  proof (rule pcb)
    show "x \<noteq> p" using p that by auto
    show "x \<notin> set q" using shapeD(9) [OF sh] that by auto
  qed
  ultimately have "asl_shape ?s3 (ds1 @ (i, a, q @ [p]) # ds2) fs"
    by (intro shape_set_queue [OF sh, of _ "Some p"]) (simp_all add: asl_qframe [OF fr])
  moreover have "aframe (insert p (set q)) s ?s3"
  proof -
    have "s1 = s\<lparr>pcbTable := pcbTable s1\<rparr>" using fr by (simp add: qframe_def)
    then have "?s3 = s\<lparr>pcbTable := pcbTable ?s3, semdTable := semdTable ?s3, semdFree_h := semdFree_h ?s3\<rparr>"
      using asl_qframe [OF fr] by (cases s, cases s1) simp
    then show ?thesis
      using pcb unasl_unq [OF qframeD(4) [OF fr]] by (simp add: aframe_def)
  qed
  ultimately show ?thesis using run by blast
qed

lemma asl_shape_cong:
  assumes "semdTable s' = semdTable s" "semd_h s' = semd_h s" "semdFree_h s' = semdFree_h s"
    and "\<And>x. x \<in> set (queued ds) \<Longrightarrow> pcbTable s' x = pcbTable s x"
  shows "asl_shape s' ds fs = asl_shape s ds fs"
proof -
  have "desc_ok s' d = desc_ok s d" if "d \<in> set ds" for d
    using desc_ok_cong [of s' d s] queued_mem [OF that] assms by auto
  then show ?thesis using assms(1-3) by (simp add: asl_shape_def)
qed

text \<open>Unlinking an empty descriptor and returning it to the free list.\<close>

lemma retireSemd_run:
  assumes sh: "asl_shape s (ds1 @ (i, a, []) # ds2) fs"
  defines "j \<equiv> last (0 # map (\<lambda>d. idx d) ds1)"
  shows "retireSemd (Some i) s = Some (s\<lparr>semdTable :=
      (semdTable s)(j := (semdTable s j)\<lparr>s_next := s_next (semdTable s i)\<rparr>,
        i := (semdTable s i)\<lparr>s_next := semdFree_h s\<rparr>), semdFree_h := Some i\<rparr>)"
    and "j \<noteq> i" and "i \<in> {1..MAXSEMD}" and "j \<notin> set fs"
proof -
  have dist: "distinct (map (\<lambda>d. idx d) ds1 @ map (\<lambda>d. idx d) ds2 @ i # fs)"
    and range: "set (map (\<lambda>d. idx d) ds1 @ map (\<lambda>d. idx d) ds2 @ i # fs) = {1..MAXSEMD}"
    using shapeD(5,6) [OF sh] by auto
  show i: "i \<in> {1..MAXSEMD}" using range by auto
  have "j \<in> set (0 # map (\<lambda>d. idx d) ds1)" unfolding j_def by (rule last_in_set) simp
  moreover have "i \<notin> set (0 # map (\<lambda>d. idx d) ds1)"
    using chain_distinct(2) [OF dist range] by simp
  ultimately show ji: "j \<noteq> i" by metis
  show "j \<notin> set fs"
    using chain_distinct(3) [OF dist range] \<open>j \<in> _\<close> by blast
  have "find_prev (Some i) (Some 0) s = Some (Some j)"
    unfolding j_def
    by (rule find_prev_ds [of s 0 "map (\<lambda>d. idx d) ds1" i "map (\<lambda>d. idx d) ds2 @ [MAXSEMD + 1]"])
      (use shapeD(2) [OF sh] dist in auto)
  moreover have "s_next (semdTable s j) = Some i"
  proof -
    obtain xs where xs: "0 # map (\<lambda>d. idx d) ds1 = xs @ [j]"
      using chain_split [of ds1] by (auto simp: j_def)
    have "slist (snx (semdTable s)) (Some 0) ((0 # map (\<lambda>d. idx d) ds1) @ i # map (\<lambda>d. idx d) ds2 @ [MAXSEMD + 1])"
      using sh by (simp add: asl_shape_def)
    then have "slist (snx (semdTable s)) (Some 0) (xs @ j # i # map (\<lambda>d. idx d) ds2 @ [MAXSEMD + 1])"
      unfolding xs by simp
    then show ?thesis by (simp add: snx_def)
  qed
  ultimately show "retireSemd (Some i) s = Some (s\<lparr>semdTable :=
      (semdTable s)(j := (semdTable s j)\<lparr>s_next := s_next (semdTable s i)\<rparr>,
        i := (semdTable s i)\<lparr>s_next := semdFree_h s\<rparr>), semdFree_h := Some i\<rparr>)"
    using shapeD(1) [OF sh] ji by (simp add: retireSemd_def freeSemd_def)
qed

lemma retireSemd_shape:
  assumes sh: "asl_shape s (ds1 @ (i, a, []) # ds2) fs"
  shows "\<exists>t. retireSemd (Some i) s = Some (s\<lparr>semdTable := t, semdFree_h := Some i\<rparr>)
    \<and> asl_shape (s\<lparr>semdTable := t, semdFree_h := Some i\<rparr>) (ds1 @ ds2) (i # fs)"
proof -
  define j where "j = last (0 # map (\<lambda>d. idx d) ds1)"
  note run = retireSemd_run [OF sh, folded j_def]
  let ?T = "semdTable s" and ?ys = "map (\<lambda>d. idx d) ds2 @ [MAXSEMD + 1]"
  define t where "t = ?T(j := (?T j)\<lparr>s_next := s_next (?T i)\<rparr>, i := (?T i)\<lparr>s_next := semdFree_h s\<rparr>)"
  let ?s' = "s\<lparr>semdTable := t, semdFree_h := Some i\<rparr>"
  have dist: "distinct (map (\<lambda>d. idx d) ds1 @ map (\<lambda>d. idx d) ds2 @ i # fs)"
    and range: "set (map (\<lambda>d. idx d) ds1 @ map (\<lambda>d. idx d) ds2 @ i # fs) = {1..MAXSEMD}"
    using shapeD(5,6) [OF sh] by auto
  have nexts: "snx t = (snx ?T)(j := snx ?T i, i := semdFree_h s)"
    by (auto simp: t_def link_simps snx_def)
  have keep: "s_semAdd (t k) = s_semAdd (?T k) \<and> s_procQ (t k) = s_procQ (?T k)" for k
    by (simp add: t_def)
  obtain xs where xs: "0 # map (\<lambda>d. idx d) ds1 = xs @ [j]"
    using chain_split [of ds1] by (auto simp: j_def)
  have new: "distinct (xs @ j # ?ys)" "i \<notin> set (xs @ j # ?ys)"
    using chain_distinct(1,2) [OF dist range] unfolding xs by simp_all
  have "slist (snx ?T) (Some 0) ((0 # map (\<lambda>d. idx d) ds1) @ i # ?ys)"
    using sh by (simp add: asl_shape_def)
  then have "slist (snx ?T) (Some 0) (xs @ j # i # ?ys)"
    unfolding xs by simp
  then have "slist ((snx ?T)(j := snx ?T i)) (Some 0) (xs @ j # ?ys)"
    by (rule slist_link_out) (use new in auto)
  then have "slist (snx t) (Some 0) (xs @ j # ?ys)"
    unfolding nexts by (simp only: slist_upd [OF new(2)])
  then have chain: "slist (snx t) (Some 0) ((0 # map (\<lambda>d. idx d) ds1) @ ?ys)"
    unfolding xs by simp
  have "asl_shape ?s' (ds1 @ ds2) (i # fs)"
    unfolding asl_shape_def
  proof (intro conjI)
    show "slist (snx (semdTable ?s')) (Some 0) (0 # map (\<lambda>d. idx d) (ds1 @ ds2) @ [MAXSEMD + 1])"
      using chain by simp
    have "slist (snx t) (semdFree_h s) fs"
      using shapeD(4) [OF sh] dist run(4) by (simp add: nexts)
    then show "slist (snx (semdTable ?s')) (semdFree_h ?s') (i # fs)"
      by (simp add: nexts)
    show "\<forall>d \<in> set (ds1 @ ds2). desc_ok ?s' d"
    proof
      fix d assume "d \<in> set (ds1 @ ds2)"
      then have "desc_ok s d" using shapeD(8) [OF sh, of d] by auto
      then show "desc_ok ?s' d" using desc_ok_cong [of ?s' d s] keep by simp
    qed
  qed (use shapeD(1,3,5,6,7,9) [OF sh] keep in \<open>auto simp: sorted_wrt_append\<close>)
  then show ?thesis using run(1) t_def by blast
qed

section \<open>The operations on the abstract map\<close>

lemma blocked_keys:
  assumes "asl_shape s (ds1 @ (i, a, q) # ds2) fs"
  shows "map_of (map snd ds1) a = None" "map_of (map snd ds2) a = None"
  using shapeD(7) [OF assms] by (force simp: sorted_wrt_append map_of_eq_None_iff)+

lemma blocked_eqs:
  assumes "asl_shape s (ds1 @ (i, a, q) # ds2) fs"
  shows "blocked (ds1 @ (i, a, q) # ds2) a = q"
    and "blocked (ds1 @ (i, a, q') # ds2) = (blocked (ds1 @ (i, a, q) # ds2))(a := q')"
    and "blocked (ds1 @ ds2) = (blocked (ds1 @ (i, a, q) # ds2))(a := [])"
  using blocked_keys [OF assms] by (auto simp: blocked_def map_add_def fun_eq_iff split: option.split)

lemma blocked_active:
  assumes "asl_rep s ds fs" and "blocked ds a \<noteq> []"
  obtains i q ds1 ds2 where "ds = ds1 @ (i, a, q) # ds2" "blocked ds a = q"
proof -
  obtain q where q: "map_of (map snd ds) a = Some q" "blocked ds a = q"
    using assms(2) by (auto simp: blocked_def split: option.splits)
  then have "(a, q) \<in> set (map snd ds)" using map_of_SomeD by fastforce
  then obtain i where "(i, a, q) \<in> set ds" by auto
  then show thesis using that q by (metis split_list)
qed

lemma blocked_inactive:
  assumes "asl_rep s ds fs" and "blocked ds a = []"
  shows "a \<notin> (\<lambda>d. key d) ` set ds"
proof
  assume "a \<in> (\<lambda>d. key d) ` set ds"
  then obtain i q where d: "(i, a, q) \<in> set ds" by auto
  then obtain ds1 ds2 where ds: "ds = ds1 @ (i, a, q) # ds2" by (metis split_list)
  have "blocked ds a = q"
    using blocked_eqs(1) assms(1) ds by (auto simp: asl_rep_def)
  then show False using assms d by (auto simp: asl_rep_def)
qed

lemma queued_blocked:
  assumes "asl_rep s ds fs"
  shows "set (queued ds) = (\<Union>a. set (blocked ds a))"
proof
  show "set (queued ds) \<subseteq> (\<Union>a. set (blocked ds a))"
  proof
    fix x assume "x \<in> set (queued ds)"
    then obtain i a q where d: "(i, a, q) \<in> set ds" "x \<in> set q" by (auto simp: queued_def)
    then obtain ds1 ds2 where "ds = ds1 @ (i, a, q) # ds2" by (metis split_list)
    then have "blocked ds a = q" using blocked_eqs(1) assms by (auto simp: asl_rep_def)
    then show "x \<in> (\<Union>a. set (blocked ds a))" using d(2) by blast
  qed
next
  show "(\<Union>a. set (blocked ds a)) \<subseteq> set (queued ds)"
  proof
    fix x assume "x \<in> (\<Union>a. set (blocked ds a))"
    then obtain a where x: "x \<in> set (blocked ds a)" by blast
    then have "blocked ds a \<noteq> []" by auto
    then obtain i q ds1 ds2 where "ds = ds1 @ (i, a, q) # ds2" and q: "blocked ds a = q"
      using blocked_active [OF assms] by metis
    then have "set q \<subseteq> set (queued ds)" by auto
    then show "x \<in> set (queued ds)" using x q by blast
  qed
qed

text \<open>There are as many descriptors as PCBs, so a PCB that is not blocked finds one free.\<close>

lemma descriptor_left:
  assumes rep: "asl_rep s ds fs" and p: "p < MAXPROC" "p \<notin> set (queued ds)"
    and range: "set (queued ds) \<subseteq> {..<MAXPROC}"
  shows "fs \<noteq> []"
proof
  assume fs: "fs = []"
  have sh: "asl_shape s ds fs" and ne: "\<forall>d \<in> set ds. que d \<noteq> []"
    using rep by (simp_all add: asl_rep_def)
  have "length ds = card (set (map (\<lambda>d. idx d) ds))"
    using shapeD(5) [OF sh] distinct_card [of "map (\<lambda>d. idx d) ds"] by simp
  also have "\<dots> = MAXSEMD" using shapeD(6) [OF sh] fs by simp
  finally have "length ds = MAXSEMD" .
  moreover have "length ds \<le> length (queued ds)"
    using ne
  proof (induction ds)
    case (Cons d ds)
    have "1 \<le> length (que d)" using Cons.prems by (cases "que d") auto
    moreover have "length ds \<le> length (queued ds)" using Cons by simp
    ultimately have "1 + length ds \<le> length (que d) + length (queued ds)" by (rule add_mono)
    then show ?case by simp
  qed simp
  moreover have "length (queued ds) = card (set (queued ds))"
    using shapeD(9) [OF sh] distinct_card by metis
  moreover have "card (set (queued ds)) \<le> card ({..<MAXPROC} - {p})"
    by (rule card_mono) (use range p in auto)
  ultimately show False using p(1) by simp
qed

lemma asl_invE:
  assumes "asl_inv s B" and "B a \<noteq> []"
  obtains i ds1 ds2 fs where "asl_rep s (ds1 @ (i, a, B a) # ds2) fs"
    and "B = blocked (ds1 @ (i, a, B a) # ds2)"
proof -
  obtain ds fs where rep: "asl_rep s ds fs" and B: "B = blocked ds"
    using assms(1) by (auto simp: asl_inv_def)
  obtain i q ds1 ds2 where ds: "ds = ds1 @ (i, a, q) # ds2" and q: "blocked ds a = q"
    using blocked_active [OF rep] assms(2) B by metis
  have "q = B a" using q B by simp
  then show thesis using that rep B ds by metis
qed

lemma insertBlocked_active:
  assumes inv: "asl_inv s B" and a: "B a \<noteq> []" and p: "\<forall>b. p \<notin> set (B b)"
  shows "\<exists>s'. insertBlocked a (Some p) s = Some (False, s') \<and> asl_inv s' (B(a := B a @ [p]))
    \<and> aframe (insert p (set (B a))) s s'"
proof -
  obtain i ds1 ds2 fs where rep: "asl_rep s (ds1 @ (i, a, B a) # ds2) fs" (is "asl_rep s ?ds fs")
    and B: "B = blocked (ds1 @ (i, a, B a) # ds2)"
    using asl_invE [OF inv a] by metis
  have sh: "asl_shape s ?ds fs" using rep by (simp add: asl_rep_def)
  have "p \<notin> set (queued ?ds)"
    unfolding queued_blocked [OF rep] B [symmetric] using p by simp
  then obtain s' where s': "enqSemd a (Some i) (Some p) s = Some (False, s')"
      "asl_shape s' (ds1 @ (i, a, B a @ [p]) # ds2) fs" "aframe (insert p (set (B a))) s s'"
    using enqSemd_shape [OF sh] by blast
  have "insertBlocked a (Some p) s = Some (False, s')"
    using findSemd_active [OF sh] s'(1) by (simp add: insertBlocked_def)
  moreover have "asl_rep s' (ds1 @ (i, a, B a @ [p]) # ds2) fs"
    using s'(2) rep by (simp add: asl_rep_def)
  moreover have "B(a := B a @ [p]) = blocked (ds1 @ (i, a, B a @ [p]) # ds2)"
    using blocked_eqs(2) [OF sh, of "B a @ [p]"] B by metis
  ultimately show ?thesis using s'(3) unfolding asl_inv_def by blast
qed

lemma blocked_fresh:
  assumes "a \<notin> (\<lambda>d. key d) ` set (ds1 @ ds2)"
  shows "blocked (ds1 @ (i, a, q) # ds2) = (blocked (ds1 @ ds2))(a := q)"
proof -
  have "map_of (map snd ds1) a = None" "map_of (map snd ds2) a = None"
    using assms by (force simp: map_of_eq_None_iff)+
  then show ?thesis
    by (auto simp: blocked_def map_add_def fun_eq_iff split: option.split)
qed

lemma insertBlocked_fresh:
  assumes inv: "asl_inv s B" and a: "a < MAXINT" "B a = []"
    and p: "\<forall>b. p \<notin> set (B b)" "p < MAXPROC" and range: "\<forall>b. set (B b) \<subseteq> {..<MAXPROC}"
  shows "\<exists>s'. insertBlocked a (Some p) s = Some (False, s') \<and> asl_inv s' (B(a := [p]))
    \<and> aframe {p} s s'"
proof -
  obtain ds fs where rep: "asl_rep s ds fs" and B: "B = blocked ds"
    using inv by (auto simp: asl_inv_def)
  have sh: "asl_shape s ds fs" using rep by (simp add: asl_rep_def)
  have pq: "p \<notin> set (queued ds)" "set (queued ds) \<subseteq> {..<MAXPROC}"
    unfolding queued_blocked [OF rep] using p range B by auto
  obtain i gs where fs: "fs = i # gs"
    using descriptor_left [OF rep p(2) pq] by (cases fs) auto
  have key: "a \<notin> (\<lambda>d. key d) ` set ds" using blocked_inactive [OF rep] a(2) B by simp
  define ds1 where "ds1 = takeWhile (\<lambda>d. key d < a) ds"
  define ds2 where "ds2 = dropWhile (\<lambda>d. key d < a) ds"
  have ds: "ds = ds1 @ ds2" by (simp add: ds1_def ds2_def)
  have lo: "\<forall>d \<in> set ds1. key d < a" using set_takeWhileD by (fastforce simp: ds1_def)
  have hi: "\<forall>d \<in> set ds2. a < key d"
    using dropWhile_above [OF shapeD(7) [OF sh] key] by (simp add: ds2_def)
  let ?s1 = "s\<lparr>semdFree_h := s_next (semdTable s i)\<rparr>"
  obtain t where t: "linkSemd a (Some i) ?s1 = Some (?s1\<lparr>semdTable := t\<rparr>)"
    and sh2: "asl_shape (?s1\<lparr>semdTable := t\<rparr>) (ds1 @ (i, a, []) # ds2) gs"
    using linkSemd_shape [OF _ a(1) lo hi] sh ds fs by blast
  have "p \<notin> set (queued (ds1 @ (i, a, []) # ds2))" using pq(1) ds by simp
  then obtain s' where s': "enqSemd a (Some i) (Some p) (?s1\<lparr>semdTable := t\<rparr>) = Some (False, s')"
      "asl_shape s' (ds1 @ (i, a, [p]) # ds2) gs" "aframe {p} (?s1\<lparr>semdTable := t\<rparr>) s'"
    using enqSemd_shape [OF sh2] by auto
  have "insertBlocked a (Some p) s = Some (False, s')"
    using findSemd_inactive [OF sh a(1) key] allocSemd_shape [of s ds i gs] sh fs t s'(1)
    by (simp add: insertBlocked_def)
  moreover have "asl_rep s' (ds1 @ (i, a, [p]) # ds2) gs"
    using s'(2) rep ds by (simp add: asl_rep_def)
  moreover have "B(a := [p]) = blocked (ds1 @ (i, a, [p]) # ds2)"
    using blocked_fresh key B ds by metis
  moreover have "aframe {p} s s'"
    using s'(3) by (cases s, cases s') (simp add: aframe_def)
  ultimately show ?thesis unfolding asl_inv_def by blast
qed

text \<open>
  Taking one PCB out of a descriptor's queue: the common end of \<open>removeBlocked\<close> and
  \<open>outBlocked\<close>, from the state \<open>s1\<close> that \<open>outProcQ\<close> returned.
\<close>

definition dropSemd :: "nat \<Rightarrow> ptr \<Rightarrow> 'z asl_mod_scheme \<Rightarrow> 'z asl_mod_scheme option" where
  "dropSemd i tp s = do {
     s \<leftarrow> swr s_procQ_update (Some i) tp s;
     (if emptyProcQ tp then retireSemd (Some i) s else Some s)
   }"

lemma dropSemd_spec:
  assumes rep: "asl_rep s (ds1 @ (i, a, q) # ds2) fs" and p: "p \<in> set q"
    and out: "procq s1 tp (remove1 p q)" "qframe (set q) s s1"
    and s2: "s2 = s1 \<or> s2 = s1\<lparr>pcbTable := (pcbTable s1)(p := (pcbTable s1 p)\<lparr>p_semAdd := v\<rparr>)\<rparr>"
  shows "\<exists>s3. dropSemd i tp s2 = Some s3 \<and> pcbTable s3 = pcbTable s2 \<and> aframe (set q) s s3
    \<and> asl_inv s3 ((blocked (ds1 @ (i, a, q) # ds2))(a := remove1 p q))"
proof -
  have sh: "asl_shape s (ds1 @ (i, a, q) # ds2) fs" using rep by (simp add: asl_rep_def)
  have q: "distinct q" "\<forall>x \<in> set q. p_semAdd (pcbTable s x) = a"
    using shapeD(8) [OF sh, of "(i, a, q)"] by (simp_all add: desc_ok_def procq_def)
  let ?B = "blocked (ds1 @ (i, a, q) # ds2)" and ?q = "remove1 p q"
  let ?s3 = "s2\<lparr>semdTable := (semdTable s2)(i := (semdTable s2 i)\<lparr>s_procQ := tp\<rparr>)\<rparr>"
  have same2: "semdTable s2 = semdTable s" "semd_h s2 = semd_h s" "semdFree_h s2 = semdFree_h s"
    "x \<noteq> p \<Longrightarrow> pcbTable s2 x = pcbTable s1 x" for x
    using s2 asl_qframe [OF out(2)] by auto
  have "nx (pcbTable s2) = nx (pcbTable s1)" "pv (pcbTable s2) = pv (pcbTable s1)"
    using s2 by (auto simp: nx_def pv_def)
  then have pq: "procq ?s3 tp ?q" using out(1) by (simp add: procq_def)
  have others: "pcbTable ?s3 x = pcbTable s x" if "x \<notin> set q" for x
    using that same2(4) [of x] p qframeD(3) [OF out(2), of x] by auto
  have sh3: "asl_shape ?s3 (ds1 @ (i, a, ?q) # ds2) fs"
  proof (rule shape_set_queue [OF sh, of _ tp])
    show "pcbTable ?s3 x = pcbTable s x" if "x \<in> set (queued ds1 @ queued ds2)" for x
      using that shapeD(9) [OF sh] by (intro others) auto
    show "p_semAdd (pcbTable ?s3 x) = a" if "x \<in> set ?q" for x
      using that q same2(4) [of x] qframe_unq(8) [OF out(2), of x] by auto
    show "distinct (queued ds1 @ ?q @ queued ds2)"
      using shapeD(9) [OF sh] set_remove1_subset [of p q] by auto
  qed (use same2 pq in simp_all)
  have upd: "s2 = s\<lparr>pcbTable := pcbTable s2\<rparr>"
    using s2 out(2) unfolding qframe_def by (metis pcb_mod.surjective pcb_mod.update_convs(1))
  have frame: "aframe (set q) s (?s3\<lparr>semdTable := t, semdFree_h := f\<rparr>)" for t f
  proof -
    have "?s3\<lparr>semdTable := t, semdFree_h := f\<rparr> = s\<lparr>pcbTable := pcbTable s2, semdTable := t, semdFree_h := f\<rparr>"
      by (subst upd) simp
    moreover have "unasl (pcbTable s2 x) = unasl (pcbTable s x)" for x
      using s2 unasl_unq [OF qframeD(4) [OF out(2), of x]] by auto
    ultimately show ?thesis using others by (simp add: aframe_def)
  qed
  show ?thesis
  proof (cases "?q = []")
    case True
    then obtain t where t: "retireSemd (Some i) ?s3 = Some (?s3\<lparr>semdTable := t, semdFree_h := Some i\<rparr>)"
      and sh4: "asl_shape (?s3\<lparr>semdTable := t, semdFree_h := Some i\<rparr>) (ds1 @ ds2) (i # fs)"
      using retireSemd_shape [of ?s3 ds1 i a ds2 fs] sh3 by metis
    let ?s4 = "?s3\<lparr>semdTable := t, semdFree_h := Some i\<rparr>"
    have "asl_rep ?s4 (ds1 @ ds2) (i # fs)" using sh4 rep by (simp add: asl_rep_def)
    then have "asl_inv ?s4 (?B(a := ?q))"
      unfolding asl_inv_def True using blocked_eqs(3) [OF sh] by metis
    moreover have "dropSemd i tp s2 = Some ?s4"
      using t True procq_det [OF out(1)] by (simp add: dropSemd_def emptyProcQ_def)
    ultimately show ?thesis using frame by auto
  next
    case False
    then have "asl_rep ?s3 (ds1 @ (i, a, ?q) # ds2) fs" using sh3 rep by (simp add: asl_rep_def)
    then have "asl_inv ?s3 (?B(a := ?q))"
      unfolding asl_inv_def using blocked_eqs(2) [OF sh] by metis
    moreover have "dropSemd i tp s2 = Some ?s3"
      using False procq_det [OF out(1)] by (cases tp) (simp_all add: dropSemd_def emptyProcQ_def)
    moreover have "aframe (set q) s ?s3" using frame [of "semdFree_h ?s3" "semdTable ?s3"] by simp
    ultimately show ?thesis by auto
  qed
qed

lemma asl_commute:
  "s\<lparr>pcbTable := x\<rparr>\<lparr>semdTable := y\<rparr> = s\<lparr>semdTable := y\<rparr>\<lparr>pcbTable := x\<rparr>"
  by simp

lemma removeBlocked_spec:
  assumes inv: "asl_inv s B" and a: "B a = p # q"
  shows "\<exists>s'. removeBlocked a s = Some (Some p, s') \<and> asl_inv s' (B(a := q))
    \<and> aframe (set (p # q)) s s' \<and> p_semAdd (pcbTable s' p) = NULL_addr"
proof -
  obtain i ds1 ds2 fs where rep: "asl_rep s (ds1 @ (i, a, p # q) # ds2) fs"
    and B: "B = blocked (ds1 @ (i, a, p # q) # ds2)"
    using asl_invE [OF inv, of a] a by (metis list.distinct(1))
  have sh: "asl_shape s (ds1 @ (i, a, p # q) # ds2) fs" using rep by (simp add: asl_rep_def)
  have "procq s (s_procQ (semdTable s i)) (p # q)"
    using shapeD(8) [OF sh, of "(i, a, p # q)"] by (simp add: desc_ok_def)
  then obtain tp s1 where out: "removeProcQ (s_procQ (semdTable s i)) s = Some (Some p, tp, s1)"
    "procq s1 tp q" "qframe (set (p # q)) s s1"
    using removeProcQ_spec by blast
  let ?s2 = "s1\<lparr>pcbTable := (pcbTable s1)(p := (pcbTable s1 p)\<lparr>p_semAdd := NULL_addr\<rparr>)\<rparr>"
  obtain s3 where s3: "dropSemd i tp ?s2 = Some s3" "pcbTable s3 = pcbTable ?s2"
      "aframe (set (p # q)) s s3" "asl_inv s3 (B(a := q))"
    using dropSemd_spec [OF rep, of p s1 tp ?s2 NULL_addr] out(2,3) B by auto
  have "removeBlocked a s = Some (Some p, s3)"
    using findSemd_active [OF sh] out(1) s3(1)
    by (cases "emptyProcQ tp") (simp_all add: removeBlocked_def dropSemd_def asl_commute)
  then show ?thesis using s3 by auto
qed

lemma removeBlocked_none:
  assumes inv: "asl_inv s B" and a: "B a = []" "a < MAXINT"
  shows "removeBlocked a s = Some (NULL, s)"
proof -
  obtain ds fs where rep: "asl_rep s ds fs" and B: "B = blocked ds"
    using inv by (auto simp: asl_inv_def)
  then have "findSemd a s = Some NULL"
    using findSemd_inactive [of s ds fs a] blocked_inactive [OF rep] a by (simp add: asl_rep_def)
  then show ?thesis by (simp add: removeBlocked_def)
qed

lemma outBlocked_spec:
  assumes inv: "asl_inv s B" and p: "p \<in> set (B a)"
  shows "\<exists>s'. outBlocked (Some p) s = Some (Some p, s') \<and> asl_inv s' (B(a := remove1 p (B a)))
    \<and> aframe (set (B a)) s s' \<and> p_semAdd (pcbTable s' p) = a"
proof -
  have "B a \<noteq> []" using p by auto
  then obtain i ds1 ds2 fs where rep: "asl_rep s (ds1 @ (i, a, B a) # ds2) fs"
    and B: "B = blocked (ds1 @ (i, a, B a) # ds2)"
    using asl_invE [OF inv, of a] by metis
  have sh: "asl_shape s (ds1 @ (i, a, B a) # ds2) fs" using rep by (simp add: asl_rep_def)
  have ok: "procq s (s_procQ (semdTable s i)) (B a)" "p_semAdd (pcbTable s p) = a" "a < MAXINT"
    using shapeD(8) [OF sh, of "(i, a, B a)"] p by (simp_all add: desc_ok_def)
  obtain tp s1 where out: "outProcQ (s_procQ (semdTable s i)) (Some p) s = Some (Some p, tp, s1)"
    "procq s1 tp (remove1 p (B a))" "qframe (set (B a)) s s1"
    using outProcQ_present [OF ok(1) p] by blast
  obtain s3 where s3: "dropSemd i tp s1 = Some s3" "pcbTable s3 = pcbTable s1"
      "aframe (set (B a)) s s3"
      "asl_inv s3 ((blocked (ds1 @ (i, a, B a) # ds2))(a := remove1 p (B a)))"
    using dropSemd_spec [OF rep p out(2,3), of s1] by blast
  have "a \<noteq> NULL_addr" using ok(3) by auto
  then have "outBlocked (Some p) s = Some (Some p, s3)"
    using findSemd_active [OF sh] out(1) s3(1) ok(2)
    by (simp add: outBlocked_def dropSemd_def)
  moreover have "p_semAdd (pcbTable s3 p) = a"
    using s3(2) qframe_unq(8) [OF out(3), of p] ok(2) by simp
  ultimately show ?thesis using s3(3,4) B by metis
qed

lemma outBlocked_none:
  "p_semAdd (pcbTable s p) = NULL_addr \<Longrightarrow> outBlocked (Some p) s = Some (NULL, s)"
  by (simp add: outBlocked_def)

lemma headBlocked_spec:
  assumes inv: "asl_inv s B" and a: "a < MAXINT"
  shows "headBlocked a s = Some (if B a = [] then NULL else Some (hd (B a)))"
proof (cases "B a = []")
  case True
  obtain ds fs where rep: "asl_rep s ds fs" and B: "B = blocked ds"
    using inv by (auto simp: asl_inv_def)
  then have "findSemd a s = Some NULL"
    using findSemd_inactive [of s ds fs a] blocked_inactive [OF rep] True a by (simp add: asl_rep_def)
  then show ?thesis using True by (simp add: headBlocked_def)
next
  case False
  then obtain i ds1 ds2 fs where rep: "asl_rep s (ds1 @ (i, a, B a) # ds2) fs"
    using asl_invE [OF inv, of a] by metis
  then have sh: "asl_shape s (ds1 @ (i, a, B a) # ds2) fs" by (simp add: asl_rep_def)
  then have "procq s (s_procQ (semdTable s i)) (B a)"
    using shapeD(8) [OF sh, of "(i, a, B a)"] by (simp add: desc_ok_def)
  then show ?thesis
    using findSemd_active [OF sh] False headProcQ_spec emptyProcQ_spec
    by (fastforce simp: headBlocked_def)
qed

lemma initASL_inv: "asl_inv (initASL s) (\<lambda>_. [])"
proof -
  have links: "foldl (\<lambda>t i. t(i := (t i)\<lparr>s_next := Some (Suc i)\<rparr>)) t [1..<n] i =
      (if 1 \<le> i \<and> i < n then (t i)\<lparr>s_next := Some (Suc i)\<rparr> else t i)" for t :: "nat \<Rightarrow> semd_t" and n i
    by (induction n) auto
  note links = links [simplified]
  let ?t = "semdTable (initASL s)"
  have "slist (snx ?t) (Some 1) [1..<MAXSEMD + 1]"
    by (rule slist_range) (auto simp: initASL_def Let_def snx_def links)
  moreover have "set [1..<MAXSEMD + 1] = {1..MAXSEMD}" by auto
  ultimately have "asl_rep (initASL s) [] [1..<MAXSEMD + 1]"
    by (simp add: asl_rep_def asl_shape_def initASL_def Let_def snx_def links)
  moreover have "blocked [] = (\<lambda>_. [])" by (simp add: blocked_def fun_eq_iff)
  ultimately show ?thesis unfolding asl_inv_def by metis
qed

section \<open>The list is a table of waiting processes\<close>

lemma asl_waiting:
  assumes "asl_inv s B"
  shows "distinct (B a)" and "a \<noteq> b \<Longrightarrow> set (B a) \<inter> set (B b) = {}"
    and "p \<in> set (B a) \<Longrightarrow> p_semAdd (pcbTable s p) = a" and "B a \<noteq> [] \<Longrightarrow> a < MAXINT"
proof -
  have ok: "distinct (B c) \<and> (\<forall>p \<in> set (B c). p_semAdd (pcbTable s p) = c) \<and> c < MAXINT"
    if c: "B c \<noteq> []" for c
  proof -
    obtain i ds1 ds2 fs where "asl_rep s (ds1 @ (i, c, B c) # ds2) fs"
      by (rule asl_invE [OF assms c])
    then have "desc_ok s (i, c, B c)"
      by (intro shapeD(8) [of s "ds1 @ (i, c, B c) # ds2" fs]) (simp_all add: asl_rep_def)
    then show ?thesis by (simp add: desc_ok_def procq_def)
  qed
  show "distinct (B a)" using ok [of a] by (cases "B a = []") auto
  show sem: "p \<in> set (B a) \<Longrightarrow> p_semAdd (pcbTable s p) = a" for a p
    using ok [of a] by (cases "B a = []") auto
  show "a \<noteq> b \<Longrightarrow> set (B a) \<inter> set (B b) = {}"
    using sem [of _ a] sem [of _ b] by blast
  show "B a \<noteq> [] \<Longrightarrow> a < MAXINT" using ok [of a] by blast
qed

interpretation asls: wait_table asl_inv "\<lambda>a. a < MAXINT" "{..<MAXPROC}"
  "\<lambda>a p. insertBlocked a (Some p)" removeBlocked headBlocked
proof (unfold_locales, goal_cases)
  case (1 s B a p)
  then show ?case
    using insertBlocked_active [of s B a p] insertBlocked_fresh [of s B a p] waiting_okD(2) [OF 1(2)]
    by (cases "B a = []") auto
next
  case (2 s B a p ps)
  then show ?case using removeBlocked_spec [of s B a p ps] by blast
qed (auto simp: removeBlocked_none headBlocked_spec)

section \<open>The free descriptors are a pool\<close>

definition semd_pool :: "'z asl_mod_scheme \<Rightarrow> nat list \<Rightarrow> bool" where
  "semd_pool s fs \<longleftrightarrow> distinct fs \<and> slist (snx (semdTable s)) (semdFree_h s) fs"

interpretation semds: node_pool semd_pool allocSemd "\<lambda>i. freeSemd (Some i)"
proof (unfold_locales, goal_cases)
  case (3 s x xs)
  then show ?case by (auto simp: semd_pool_def allocSemd_def snx_def [of _ x])
next
  case (4 s xs x)
  then show ?case by (auto simp: semd_pool_def freeSemd_def link_simps)
qed (auto simp: semd_pool_def allocSemd_def)

section \<open>Properties\<close>

text \<open>Blocking never runs out of semaphore descriptors.  With every blocked process in the list
  once and all of them from the PCB table, \<open>insertBlocked\<close> of another process returns false, puts it
  last on its semaphore and leaves every other semaphore's queue alone, whether or not the
  semaphore was active.\<close>

theorem insertBlocked_total:
  assumes "asl_inv s B" and "\<forall>b. set (B b) \<subseteq> {..<MAXPROC}" and "a < MAXINT"
    and "p < MAXPROC" and "\<forall>b. p \<notin> set (B b)"
  shows "\<exists>s'. insertBlocked a (Some p) s = Some (False, s') \<and> asl_inv s' (B(a := B a @ [p]))
    \<and> p_semAdd (pcbTable s' p) = a"
proof -
  have "waiting_ok {..<MAXPROC} B"
    using asl_waiting(1,2) [OF assms(1)] assms(2) by (simp add: waiting_ok_def)
  then obtain s' where s': "insertBlocked a (Some p) s = Some (False, s')"
    "asl_inv s' (B(a := B a @ [p]))"
    using asls.block_inv [OF assms(1) _ assms(3) _ assms(5)] assms(4) by auto
  then show ?thesis using asl_waiting(3) [OF s'(2), of p a] by simp
qed

definition zero_asl :: asl_mod where
  "zero_asl = \<lparr>pcbTable = (\<lambda>_. zero_pcb), pcbFree_h = NULL, semdTable = (\<lambda>_. zero_semd),
     semd_h = NULL, semdFree_h = NULL\<rparr>"

theorem insertBlocked_total_witness:
  "\<exists>s'. insertBlocked 0x20001000 (Some 19) (initASL zero_asl) = Some (False, s')
    \<and> asl_inv s' ((\<lambda>_. [])(0x20001000 := [19])) \<and> p_semAdd (pcbTable s' 19) = 0x20001000"
  using insertBlocked_total [OF initASL_inv, where a = "0x20001000" and p = 19 and s1 = zero_asl] by simp

text \<open>C33: A semaphore is fair: processes that block on it one after the other are removed by
  \<open>removeBlocked\<close> in that order; the last removal gives its descriptor back, and a further
  \<open>removeBlocked\<close> finds no active semaphore.\<close>

theorem blocked_fifo:
  assumes "asl_inv s B" and "\<forall>b. set (B b) \<subseteq> {..<MAXPROC}" and "a < MAXINT"
    and "set ps \<subseteq> {..<MAXPROC}" and "distinct ps" and "\<forall>b. set ps \<inter> set (B b) = {}" and "B a = []"
  shows "\<exists>s1 s2. block_all (\<lambda>a p. insertBlocked a (Some p)) a ps s = Some (False, s1)
    \<and> wake_n removeBlocked (length ps) a s1 = Some (map Some ps, s2) \<and> asl_inv s2 B
    \<and> removeBlocked a s2 = Some (NULL, s2)"
  using asls.wake_order [OF assms(1) _ assms(3-7)] asl_waiting(1,2) [OF assms(1)] assms(2)
  by (simp add: waiting_ok_def)

theorem blocked_fifo_witness:
  "\<exists>s1 s2. block_all (\<lambda>a p. insertBlocked a (Some p)) 0x20001000 [2, 0, 1] (initASL zero_asl)
        = Some (False, s1)
    \<and> wake_n removeBlocked 3 0x20001000 s1 = Some ([Some 2, Some 0, Some 1], s2)
    \<and> asl_inv s2 (\<lambda>_. []) \<and> removeBlocked 0x20001000 s2 = Some (NULL, s2)"
  using blocked_fifo [of "initASL zero_asl" "\<lambda>_. []" "0x20001000" "[2, 0, 1]"] initASL_inv [of zero_asl]
  by (simp add: numeral_3_eq_3)

text \<open>\<open>outBlocked\<close> unblocks exactly the process it is given: it leaves the queue of the semaphore
  its \<open>p_semAdd\<close> names, the others keep their order and no other semaphore is affected.\<close>

theorem outBlocked_exact:
  assumes "asl_inv s B" and "p \<in> set (B a)"
  shows "\<exists>s'. outBlocked (Some p) s = Some (Some p, s')
    \<and> asl_inv s' (B(a := remove1 p (B a))) \<and> headBlocked a s' =
      Some (if remove1 p (B a) = [] then NULL else Some (hd (remove1 p (B a))))
    \<and> pcbFree_h s' = pcbFree_h s \<and> (\<forall>i. i \<notin> set (B a) \<longrightarrow> pcbTable s' i = pcbTable s i)"
proof -
  obtain s' where s': "outBlocked (Some p) s = Some (Some p, s')"
    "asl_inv s' (B(a := remove1 p (B a)))" "aframe (set (B a)) s s'"
    using outBlocked_spec [OF assms] by blast
  have "a < MAXINT" using asl_waiting(4) [OF assms(1), of a] assms(2) by (metis empty_iff empty_set)
  then show ?thesis using headBlocked_spec [OF s'(2), of a] s'(1,2) aframeD(1,4) [OF s'(3)]
    by simp
qed

theorem outBlocked_exact_witness:
  "\<exists>s :: asl_mod. asl_inv s ((\<lambda>_. [])(0x20001000 := [2, 0, 1])) \<and> (\<exists>s'. outBlocked (Some 0) s = Some (Some 0, s')
    \<and> asl_inv s' ((\<lambda>_. [])(0x20001000 := [2, 1])) \<and> headBlocked 0x20001000 s' = Some (Some 2))"
proof -
  have "waiting_ok {..<MAXPROC} (\<lambda>_ :: u32. [])" by (simp add: waiting_ok_def)
  then obtain s :: asl_mod where s: "asl_inv s ((\<lambda>_. [])(0x20001000 := [2, 0, 1]))"
    using asls.block_all_inv [OF initASL_inv, where a = "0x20001000" and ps = "[2, 0, 1]"] by auto
  show ?thesis using outBlocked_exact [OF s, of 0 "0x20001000"] s by auto
qed

end
