(* ===== verification/PcbTree.thy ===== *)
theory PcbTree
  imports Pcb
begin

text \<open>
  The process tree of \<open>phase3/pcb.c\<close>: the children of a PCB are a doubly linked, NULL-terminated
  list of siblings.  \<open>children t q xs\<close> says that \<open>xs\<close> are the children of \<open>q\<close>, first child first;
  \<open>insertChild\<close>, \<open>outChild\<close> and \<open>removeChild\<close> are then consing, removing and taking the head.
\<close>

section \<open>Sibling lists\<close>

fun seg :: "(nat \<Rightarrow> pcb_t) \<Rightarrow> nat \<Rightarrow> ptr \<Rightarrow> ptr \<Rightarrow> nat list \<Rightarrow> ptr \<Rightarrow> ptr \<Rightarrow> bool" where
  "seg t q l c [] l' c' \<longleftrightarrow> l = l' \<and> c = c'"
| "seg t q l c (x # xs) l' c' \<longleftrightarrow> c = Some x \<and> p_prnt (t x) = Some q \<and> p_sib_left (t x) = l
     \<and> seg t q (Some x) (p_sib_right (t x)) xs l' c'"

definition children :: "(nat \<Rightarrow> pcb_t) \<Rightarrow> nat \<Rightarrow> nat list \<Rightarrow> bool" where
  "children t q xs \<longleftrightarrow> distinct xs \<and> q \<notin> set xs
     \<and> seg t q NULL (p_child (t q)) xs (if xs = [] then NULL else Some (last xs)) NULL"

text \<open>What a tree operation on the children of \<open>q\<close> may change.\<close>

definition untree :: "pcb_t \<Rightarrow> pcb_t" where
  "untree r = r\<lparr>p_prnt := NULL, p_child := NULL, p_sib_right := NULL, p_sib_left := NULL\<rparr>"

definition tframe :: "nat \<Rightarrow> nat set \<Rightarrow> 'z pcb_mod_scheme \<Rightarrow> 'z pcb_mod_scheme \<Rightarrow> bool" where
  "tframe q A s s' \<longleftrightarrow> s' = s\<lparr>pcbTable := pcbTable s'\<rparr>
     \<and> (\<forall>i. untree (pcbTable s' i) = untree (pcbTable s i))
     \<and> (\<forall>i. i \<noteq> q \<longrightarrow> p_child (pcbTable s' i) = p_child (pcbTable s i))
     \<and> (\<forall>i. i \<notin> A \<longrightarrow> p_prnt (pcbTable s' i) = p_prnt (pcbTable s i)
          \<and> p_sib_left (pcbTable s' i) = p_sib_left (pcbTable s i)
          \<and> p_sib_right (pcbTable s' i) = p_sib_right (pcbTable s i))"

lemma untree_links [simp]:
  "untree (r\<lparr>p_prnt := a\<rparr>) = untree r" "untree (r\<lparr>p_child := a\<rparr>) = untree r"
  "untree (r\<lparr>p_sib_right := a\<rparr>) = untree r" "untree (r\<lparr>p_sib_left := a\<rparr>) = untree r"
  by (simp_all add: untree_def)

lemma untree_eqD:
  assumes "untree r = untree r'"
  shows "p_next r = p_next r'" "p_prev r = p_prev r'" "p_s r = p_s r'" "p_time r = p_time r'"
    "p_startTOD r = p_startTOD r'" "p_semAdd r = p_semAdd r'"
    "p_supportStruct r = p_supportStruct r'"
proof -
  obtain a b c d where "r = r'\<lparr>p_prnt := a, p_child := b, p_sib_right := c, p_sib_left := d\<rparr>"
    using assms by (cases r; cases r') (auto simp: untree_def)
  then show "p_next r = p_next r'" "p_prev r = p_prev r'" "p_s r = p_s r'" "p_time r = p_time r'"
    "p_startTOD r = p_startTOD r'" "p_semAdd r = p_semAdd r'"
    "p_supportStruct r = p_supportStruct r'" by simp_all
qed

lemma tframeD:
  assumes "tframe q A s s'"
  shows "s' = s\<lparr>pcbTable := pcbTable s'\<rparr>" "untree (pcbTable s' i) = untree (pcbTable s i)"
    "i \<noteq> q \<Longrightarrow> p_child (pcbTable s' i) = p_child (pcbTable s i)"
    "i \<notin> A \<Longrightarrow> p_prnt (pcbTable s' i) = p_prnt (pcbTable s i)"
    "i \<notin> A \<Longrightarrow> p_sib_left (pcbTable s' i) = p_sib_left (pcbTable s i)"
    "i \<notin> A \<Longrightarrow> p_sib_right (pcbTable s' i) = p_sib_right (pcbTable s i)"
  using assms by (simp_all add: tframe_def)

lemma tframe_free: "tframe q A s s' \<Longrightarrow> pcbFree_h s' = pcbFree_h s"
  by (metis tframeD(1) pcb_mod.simps(2) pcb_mod.update_convs(1) pcb_mod.surjective)

lemmas tframe_untree = tframeD(2) [THEN untree_eqD(1)] tframeD(2) [THEN untree_eqD(2)]
  tframeD(2) [THEN untree_eqD(3)] tframeD(2) [THEN untree_eqD(4)] tframeD(2) [THEN untree_eqD(5)]
  tframeD(2) [THEN untree_eqD(6)] tframeD(2) [THEN untree_eqD(7)]

lemma seg_append [simp]:
  "seg t q l c (xs @ ys) l' c' \<longleftrightarrow> (\<exists>l1 c1. seg t q l c xs l1 c1 \<and> seg t q l1 c1 ys l' c')"
  by (induction xs arbitrary: l c) auto

lemma seg_cong:
  assumes "\<And>x. x \<in> set xs \<Longrightarrow> p_prnt (t' x) = p_prnt (t x) \<and> p_sib_left (t' x) = p_sib_left (t x)
      \<and> p_sib_right (t' x) = p_sib_right (t x)"
  shows "seg t' q l c xs l' c' = seg t q l c xs l' c'"
  using assms by (induction xs arbitrary: l c) auto

lemma seg_ends:
  "seg t q l c xs l' c' \<Longrightarrow> l' = (if xs = [] then l else Some (last xs))
     \<and> c = (if xs = [] then c' else Some (hd xs))"
  by (induction xs arbitrary: l c) auto

lemma seg_parent: "seg t q l c xs l' c' \<Longrightarrow> x \<in> set xs \<Longrightarrow> p_prnt (t x) = Some q"
  by (induction xs arbitrary: l c) auto

lemma children_seg:
  "children t q xs \<longleftrightarrow> distinct xs \<and> q \<notin> set xs \<and> (\<exists>l'. seg t q NULL (p_child (t q)) xs l' NULL)"
  using seg_ends by (fastforce simp: children_def split: if_splits)

lemma children_Nil: "children t q [] \<longleftrightarrow> p_child (t q) = NULL"
  by (auto simp: children_def)

lemma children_first: "children t q (x # xs) \<Longrightarrow> p_child (t q) = Some x"
  by (simp add: children_def)

lemma children_parent: "children t q xs \<Longrightarrow> x \<in> set xs \<Longrightarrow> p_prnt (t x) = Some q"
  by (auto simp: children_def dest: seg_parent)

lemma children_det: "children t q xs \<Longrightarrow> children t q ys \<Longrightarrow> xs = ys"
proof -
  have "seg t q l c xs l' NULL \<Longrightarrow> seg t q l c ys l'' NULL \<Longrightarrow> xs = ys" for l c l' l''
  proof (induction xs arbitrary: l c ys)
    case Nil
    then show ?case by (cases ys) auto
  next
    case (Cons x xs)
    then show ?case by (cases ys) auto
  qed
  then show "children t q xs \<Longrightarrow> children t q ys \<Longrightarrow> xs = ys"
    unfolding children_def by blast
qed

lemma children_cong:
  assumes "p_child (t' q) = p_child (t q)"
    and "\<And>x. x \<in> set xs \<Longrightarrow> p_prnt (t' x) = p_prnt (t x) \<and> p_sib_left (t' x) = p_sib_left (t x)
      \<and> p_sib_right (t' x) = p_sib_right (t x)"
  shows "children t' q xs = children t q xs"
  using seg_cong [of xs t' t] assms by (simp add: children_def)

lemma children_tframe:
  assumes "tframe q A s s'" and "r \<noteq> q" and "A \<inter> set xs = {}"
  shows "children (pcbTable s') r xs = children (pcbTable s) r xs"
proof (rule children_cong)
  fix x assume "x \<in> set xs"
  then have "x \<notin> A" using assms(3) by blast
  then show "p_prnt (pcbTable s' x) = p_prnt (pcbTable s x)
      \<and> p_sib_left (pcbTable s' x) = p_sib_left (pcbTable s x)
      \<and> p_sib_right (pcbTable s' x) = p_sib_right (pcbTable s x)"
    using tframeD(4,5,6) [OF assms(1)] by simp
qed (use tframeD(3) [OF assms(1,2)] in simp)

lemma procq_tframe:
  assumes "tframe q A s s'"
  shows "procq s' tp xs = procq s tp xs"
proof -
  have "nx (pcbTable s') = nx (pcbTable s)" "pv (pcbTable s') = pv (pcbTable s)"
    using tframe_untree(1,2) [OF assms] by (auto simp: nx_def pv_def)
  then show ?thesis by (simp add: procq_def)
qed

lemma children_qframe:
  assumes "qframe A s s'"
  shows "children (pcbTable s') r xs = children (pcbTable s) r xs"
  by (rule children_cong) (use qframe_unq [OF assms] in auto)

section \<open>Operations\<close>

lemma emptyChild_spec: "children (pcbTable s) q xs \<Longrightarrow> emptyChild (Some q) s = Some (xs = [])"
  by (cases xs) (auto simp: emptyChild_def children_def)

lemma seg_update_left:
  assumes "seg t q l c (x # xs) l' c'" and "distinct (x # xs)"
  shows "seg (t(x := (t x)\<lparr>p_sib_left := l2\<rparr>)) q l2 c (x # xs) l' c'"
proof -
  have "seg (t(x := (t x)\<lparr>p_sib_left := l2\<rparr>)) q (Some x) (p_sib_right (t x)) xs l' c'
      = seg t q (Some x) (p_sib_right (t x)) xs l' c'"
    by (rule seg_cong) (use assms(2) in auto)
  then show ?thesis using assms(1) by simp
qed

lemma insertChild_spec:
  assumes ch: "children (pcbTable s) q xs" and p: "p \<notin> set xs" "p \<noteq> q"
  shows "\<exists>s'. insertChild (Some q) (Some p) s = Some s' \<and> children (pcbTable s') q (p # xs)
    \<and> tframe q (insert p (set xs)) s s'"
proof (cases xs)
  case Nil
  then show ?thesis
    using ch p by (auto simp: insertChild_def children_def tframe_def)
next
  case (Cons x ys)
  let ?t = "pcbTable s"
  have first: "p_child (?t q) = Some x" using ch Cons by (simp add: children_first)
  have neq: "x \<noteq> p" "x \<noteq> q" using ch p Cons by (auto simp: children_def)
  define t' where "t' = ?t(q := (?t q)\<lparr>p_child := Some p\<rparr>,
      p := (?t p)\<lparr>p_prnt := Some q, p_sib_right := Some x, p_sib_left := NULL\<rparr>,
      x := (?t x)\<lparr>p_sib_left := Some p\<rparr>)"
  have run: "insertChild (Some q) (Some p) s = Some (s\<lparr>pcbTable := t'\<rparr>)"
    using first neq p by (simp add: insertChild_def t'_def fun_upd_twist)
  obtain l' where sg: "seg ?t q NULL (Some x) (x # ys) l' NULL" and d: "distinct (x # ys)" "q \<notin> set (x # ys)"
    using ch first Cons by (auto simp: children_seg)
  have "seg (?t(x := (?t x)\<lparr>p_sib_left := Some p\<rparr>)) q (Some p) (Some x) (x # ys) l' NULL"
    using seg_update_left [OF sg d(1)] by simp
  moreover have "seg t' q (Some p) (Some x) (x # ys) l' NULL
      = seg (?t(x := (?t x)\<lparr>p_sib_left := Some p\<rparr>)) q (Some p) (Some x) (x # ys) l' NULL"
    by (rule seg_cong) (use d p Cons in \<open>auto simp: t'_def\<close>)
  ultimately have "children t' q (p # xs)"
    using p d Cons by (auto simp: children_seg t'_def)
  moreover have "tframe q (insert p (set xs)) s (s\<lparr>pcbTable := t'\<rparr>)"
    using neq Cons p by (auto simp: tframe_def t'_def)
  ultimately show ?thesis using run by auto
qed

lemma seg_update_right:
  assumes "seg t q l c (xs @ [x]) l' c'" and "x \<notin> set xs"
  shows "seg (t(x := (t x)\<lparr>p_sib_right := c2\<rparr>)) q l c (xs @ [x]) l' c2"
proof -
  obtain l1 c1 where "seg t q l c xs l1 c1" and x: "seg t q l1 c1 [x] l' c'"
    using assms(1) by auto
  moreover have "seg (t(x := (t x)\<lparr>p_sib_right := c2\<rparr>)) q l c xs l1 c1 = seg t q l c xs l1 c1"
    by (rule seg_cong) (use assms(2) in auto)
  ultimately show ?thesis by auto
qed

text \<open>
  Unlinking \<open>p\<close>: \<open>bypass\<close> is the array after the three conditional assignments of \<open>outChild\<close>,
  \<open>detach\<close> also clears the links of \<open>p\<close>.
\<close>

definition bypass :: "nat \<Rightarrow> nat \<Rightarrow> (nat \<Rightarrow> pcb_t) \<Rightarrow> nat \<Rightarrow> pcb_t" where
  "bypass q p t =
     (let t1 = (if p_child (t q) = Some p then t(q := (t q)\<lparr>p_child := p_sib_right (t p)\<rparr>) else t);
          t2 = (case p_sib_left (t p) of None \<Rightarrow> t1
                | Some a \<Rightarrow> t1(a := (t1 a)\<lparr>p_sib_right := p_sib_right (t p)\<rparr>))
      in case p_sib_right (t p) of None \<Rightarrow> t2
         | Some b \<Rightarrow> t2(b := (t2 b)\<lparr>p_sib_left := p_sib_left (t p)\<rparr>))"

definition detach :: "nat \<Rightarrow> nat \<Rightarrow> (nat \<Rightarrow> pcb_t) \<Rightarrow> nat \<Rightarrow> pcb_t" where
  "detach q p t = (bypass q p t)(p := (bypass q p t p)
     \<lparr>p_prnt := NULL, p_sib_left := NULL, p_sib_right := NULL\<rparr>)"

lemma outChild_run:
  assumes "p_prnt (pcbTable s p) = Some q" and "q \<noteq> p"
    and "p_sib_left (pcbTable s p) \<noteq> Some p" "p_sib_right (pcbTable s p) \<noteq> Some p"
  shows "outChild (Some p) s = Some (Some p, s\<lparr>pcbTable := detach q p (pcbTable s)\<rparr>)"
  using assms
  by (cases "p_sib_left (pcbTable s p)"; cases "p_sib_right (pcbTable s p)")
    (auto simp: outChild_def detach_def bypass_def Let_def)

lemma outChild_orphan: "p_prnt (pcbTable s p) = NULL \<Longrightarrow> outChild (Some p) s = Some (NULL, s)"
  by (simp add: outChild_def)

lemma bypass_untree: "untree (bypass q p t i) = untree (t i)"
  by (simp add: bypass_def Let_def split: option.split)

lemma bypass_child: "i \<noteq> q \<Longrightarrow> p_child (bypass q p t i) = p_child (t i)"
  by (simp add: bypass_def Let_def split: option.split)

lemma bypass_sibs:
  assumes "p \<in> A" and "\<And>a. p_sib_left (t p) = Some a \<Longrightarrow> a \<in> A"
    and "\<And>b. p_sib_right (t p) = Some b \<Longrightarrow> b \<in> A" and "i \<notin> A"
  shows "p_prnt (bypass q p t i) = p_prnt (t i)"
    "p_sib_left (bypass q p t i) = p_sib_left (t i)"
    "p_sib_right (bypass q p t i) = p_sib_right (t i)"
  using assms by (auto simp: bypass_def Let_def split: option.split)

lemma bypass_seg:
  assumes ch: "children t q (as @ p # bs)"
  shows "\<exists>l'. seg (bypass q p t) q NULL (p_child (bypass q p t q)) (as @ bs) l' NULL"
proof -
  obtain l1 r l2 where sa: "seg t q NULL (p_child (t q)) as l1 (Some p)"
    and p: "p_sib_left (t p) = l1" "p_sib_right (t p) = r"
    and sb: "seg t q (Some p) r bs l2 NULL"
    and d: "distinct (as @ p # bs)" "q \<notin> set (as @ p # bs)"
    using ch by (auto simp: children_seg)
  have ends: "l1 = (if as = [] then NULL else Some (last as))"
      "p_child (t q) = (if as = [] then Some p else Some (hd as))"
      "r = (if bs = [] then NULL else Some (hd bs))"
    using seg_ends [OF sa] seg_ends [OF sb] by auto
  let ?b = "bypass q p t"
  have left: "seg ?b q NULL (p_child (?b q)) as l1 r"
  proof (cases as rule: rev_cases)
    case Nil
    then show ?thesis using ends p d
      by (cases bs) (auto simp: bypass_def Let_def)
  next
    case (snoc cs a)
    have sc: "seg (t(a := (t a)\<lparr>p_sib_right := r\<rparr>)) q NULL (p_child (t q)) as l1 r"
      unfolding snoc by (rule seg_update_right) (use sa d snoc in auto)
    have "a \<noteq> p" "hd as \<noteq> p" "q \<noteq> a" "hd as \<in> set as" using d snoc by (auto simp: hd_append)
    then have child: "p_child (?b q) = p_child (t q)"
      using ends p d snoc by (cases bs) (auto simp: bypass_def Let_def)
    have "seg ?b q NULL (p_child (t q)) as l1 r
        = seg (t(a := (t a)\<lparr>p_sib_right := r\<rparr>)) q NULL (p_child (t q)) as l1 r"
      by (rule seg_cong) (use ends p d snoc \<open>hd as \<noteq> p\<close> in \<open>cases bs; auto simp: bypass_def Let_def\<close>)
    then show ?thesis using sc child by simp
  qed
  have right: "seg ?b q l1 r bs (if bs = [] then l1 else l2) NULL"
  proof (cases bs)
    case Nil
    then show ?thesis using ends by simp
  next
    case (Cons b cs)
    have sc: "seg (t(b := (t b)\<lparr>p_sib_left := l1\<rparr>)) q l1 r bs l2 NULL"
      unfolding Cons by (rule seg_update_left) (use sb d Cons in auto)
    have "seg ?b q l1 r bs l2 NULL = seg (t(b := (t b)\<lparr>p_sib_left := l1\<rparr>)) q l1 r bs l2 NULL"
      by (rule seg_cong) (use ends p d Cons in \<open>cases as rule: rev_cases; auto simp: bypass_def Let_def\<close>)
    then show ?thesis using sc Cons by simp
  qed
  show ?thesis using left right by auto
qed

lemma outChild_spec:
  assumes ch: "children (pcbTable s) q xs" and p: "p \<in> set xs"
  shows "\<exists>s'. outChild (Some p) s = Some (Some p, s') \<and> children (pcbTable s') q (remove1 p xs)
    \<and> tframe q (set xs) s s' \<and> p_prnt (pcbTable s' p) = NULL
    \<and> p_sib_left (pcbTable s' p) = NULL \<and> p_sib_right (pcbTable s' p) = NULL"
proof -
  let ?t = "pcbTable s"
  obtain as bs where xs: "xs = as @ p # bs" using p by (meson split_list)
  have d: "distinct (as @ p # bs)" "q \<notin> set (as @ p # bs)" using ch xs by (auto simp: children_def)
  have rem: "remove1 p xs = as @ bs" using d by (simp add: xs remove1_append)
  obtain l1 r l2 where sa: "seg ?t q NULL (p_child (?t q)) as l1 (Some p)"
    and pl: "p_sib_left (?t p) = l1" "p_sib_right (?t p) = r" "p_prnt (?t p) = Some q"
    and sb: "seg ?t q (Some p) r bs l2 NULL"
    using ch xs by (auto simp: children_seg)
  have l1: "l1 = (if as = [] then NULL else Some (last as))"
    and r: "r = (if bs = [] then NULL else Some (hd bs))"
    using seg_ends [OF sa] seg_ends [OF sb] by auto
  have in_l1: "\<And>a. l1 = Some a \<Longrightarrow> a \<in> set xs \<and> a \<noteq> p \<and> a \<noteq> q"
    using l1 d xs last_in_set [of as] by (auto split: if_splits)
  have in_r: "\<And>b. r = Some b \<Longrightarrow> b \<in> set xs \<and> b \<noteq> p \<and> b \<noteq> q"
    using r d xs hd_in_set [of bs] by (auto split: if_splits)
  have run: "outChild (Some p) s = Some (Some p, s\<lparr>pcbTable := detach q p ?t\<rparr>)"
    by (rule outChild_run) (use pl in_l1 in_r d in auto)
  obtain l' where sg: "seg (bypass q p ?t) q NULL (p_child (bypass q p ?t q)) (as @ bs) l' NULL"
    using bypass_seg ch xs by blast
  have "seg (detach q p ?t) q NULL (p_child (bypass q p ?t q)) (as @ bs) l' NULL
      = seg (bypass q p ?t) q NULL (p_child (bypass q p ?t q)) (as @ bs) l' NULL"
    by (rule seg_cong) (use d in \<open>auto simp: detach_def\<close>)
  then have "seg (detach q p ?t) q NULL (p_child (bypass q p ?t q)) (as @ bs) l' NULL"
    using sg by simp
  moreover have "p_child (detach q p ?t q) = p_child (bypass q p ?t q)"
    using d by (simp add: detach_def)
  ultimately have "children (detach q p ?t) q (as @ bs)"
    using d unfolding children_seg by auto
  moreover have "tframe q (set xs) s (s\<lparr>pcbTable := detach q p ?t\<rparr>)"
    using in_l1 in_r p pl bypass_sibs [of p "set xs" ?t] d
    by (auto simp: tframe_def detach_def bypass_untree bypass_child)
  ultimately show ?thesis using run rem by (auto simp: detach_def)
qed

lemma removeChild_spec:
  assumes "children (pcbTable s) q (x # xs)"
  shows "\<exists>s'. removeChild (Some q) s = Some (Some x, s') \<and> children (pcbTable s') q xs
    \<and> tframe q (set (x # xs)) s s' \<and> p_prnt (pcbTable s' x) = NULL
    \<and> p_sib_left (pcbTable s' x) = NULL \<and> p_sib_right (pcbTable s' x) = NULL"
  using outChild_spec [OF assms, of x] children_first [OF assms] emptyChild_spec [OF assms]
  by (simp add: removeChild_def)

lemma removeChild_none: "children (pcbTable s) q [] \<Longrightarrow> removeChild (Some q) s = Some (NULL, s)"
  using emptyChild_spec [of s q "[]"] by (simp add: removeChild_def)

section \<open>Properties\<close>

text \<open>C35: The process tree: \<open>insertChild\<close> makes a process the first child of its parent, and
  \<open>outChild\<close> takes it, or any other child, out again at whatever position it stands, leaving the
  order of its siblings; the detached process has no parent and no siblings, and no other field of
  any PCB changes.\<close>

theorem process_tree:
  assumes "children (pcbTable s) q xs" and "p \<notin> set xs" and "p \<noteq> q" and "c \<in> set (p # xs)"
  shows "\<exists>s1 s2. insertChild (Some q) (Some p) s = Some s1
    \<and> children (pcbTable s1) q (p # xs) \<and> tframe q (insert p (set xs)) s s1
    \<and> outChild (Some c) s1 = Some (Some c, s2)
    \<and> children (pcbTable s2) q (remove1 c (p # xs)) \<and> tframe q (insert p (set xs)) s1 s2
    \<and> p_prnt (pcbTable s2 c) = NULL \<and> p_sib_left (pcbTable s2 c) = NULL
    \<and> p_sib_right (pcbTable s2 c) = NULL"
proof -
  obtain s1 where s1: "insertChild (Some q) (Some p) s = Some s1"
    "children (pcbTable s1) q (p # xs)" "tframe q (insert p (set xs)) s s1"
    using insertChild_spec [OF assms(1-3)] by blast
  show ?thesis
    using outChild_spec [OF s1(2) assms(4)] s1 by (simp only: list.simps) blast
qed

theorem process_tree_witness:
  "\<exists>s1 s2. insertChild (Some 0) (Some 4) zero_pcbs = Some s1
    \<and> outChild (Some 4) s1 = Some (Some 4, s2) \<and> children (pcbTable s2) 0 []"
  using process_tree [of zero_pcbs 0 "[]" 4 4]
  by (auto simp: children_Nil zero_pcbs_def zero_pcb_def)

end
