(* ===== verification/Nucleus.thy ===== *)
theory Nucleus
  imports AslRefine PcbTree "HOL-Library.Signed_Division"
begin

text \<open>
  The state the nucleus works on, and the way its functions end.

  \<^item> The word memory \<open>mem\<close> holds every \<open>int\<close> that is used through its address (the device
    semaphores, the semaphores of the support level) and the memory-mapped registers: bus
    registers, interrupt bit maps, device registers.
  \<^item> \<open>link\<close> is what the linker decides and the program does not compute: where
    \<open>deviceSemaphores\<close> and the other semaphores are, the addresses of functions and of the
    \<open>p_s\<close> of each PCB (\<open>state_addr\<close>) and each support structure (\<open>support_addr\<close>), and which
    \<open>state_t\<close> or \<open>support_t\<close> object an address denotes when a register is cast to a pointer.
  \<^item> \<open>bios\<close> is the \<open>state_t\<close> in the BIOS data page, which every handler calls \<open>savedState\<close>.
  \<^item> \<open>tod\<close> is the sequence of values that reads of the TOD clock return, \<open>tod_n\<close> how many
    reads have been made: the clock is an input of the kernel.
  \<^item> \<open>cpu\<close> are the control registers that \<open>setSTATUS\<close>, \<open>setTIMER\<close>, \<open>setENTRYHI\<close> and
    \<open>setENTRYLO\<close> write, and \<open>tlb_log\<close> the entries handed to \<open>TLBWR\<close>.

  \<open>LDST\<close>, \<open>LDCXT\<close>, \<open>HALT\<close>, \<open>PANIC\<close> and \<open>WAIT\<close> do not return to their caller: a function that
  reaches one ends with \<open>Exit\<close>, and the callers' remaining statements are skipped by \<open>kthen\<close>.
  \<open>Stuck\<close> is a statement without a defined effect: a \<open>NULL\<close> dereference, a read of an
  uninitialised variable, a loop that never ends.
\<close>

section \<open>State\<close>

datatype state_ref = BiosPage | PcbState nat | SupState nat nat | MemState u32

record link_map =
  deviceSemaphores :: u32
  test_addr :: u32
  uTLB_RefillHandler_addr :: u32
  exceptionHandler_addr :: u32
  pagerHandler_addr :: u32
  supportGenExceptionHandler_addr :: u32
  delayDaemon_addr :: u32
  masterSemaphore :: u32
  swapPoolSem :: u32
  ADLsem :: u32
  printerSem :: u32
  termReadSem :: u32
  termWriteSem :: u32
  sup_privateSem :: "nat \<Rightarrow> u32"
  state_at :: "u32 \<Rightarrow> state_ref"
  support_at :: "u32 \<Rightarrow> ptr"
  state_addr :: "nat \<Rightarrow> u32"
  support_addr :: "ptr \<Rightarrow> u32"

record cpu_regs =
  status_reg :: u32
  timer_reg :: u32
  entryHi_reg :: u32
  entryLo_reg :: u32

record kstate = asl_mod +
  link :: link_map
  mem :: "u32 \<Rightarrow> u32"
  states :: "u32 \<Rightarrow> state_t"
  sups :: "nat \<Rightarrow> support_t"
  processCount :: u32
  softBlockCount :: u32
  readyQueue :: ptr
  currentProcess :: ptr
  bios :: state_t
  cpu :: cpu_regs
  tod :: "nat \<Rightarrow> u32"
  tod_n :: nat
  tlb_log :: "(u32 \<times> u32) list"

section \<open>Results\<close>

datatype kexit = LDST state_t | LDCXT u32 u32 u32 | HALT | PANIC | WAIT

datatype ('s, 'a) kres = Ret 'a 's | Exit kexit 's | Stuck

primrec kthen :: "('s, 'a) kres \<Rightarrow> ('a \<Rightarrow> 's \<Rightarrow> ('s, 'b) kres) \<Rightarrow> ('s, 'b) kres" where
  "kthen (Ret x s) f = f x s"
| "kthen (Exit e s) f = Exit e s"
| "kthen Stuck f = Stuck"

text \<open>A call of a function of the first level, with and without a result.\<close>

definition lift :: "('a \<times> 's) option \<Rightarrow> ('s, 'a) kres" where
  "lift r = (case r of None \<Rightarrow> Stuck | Some (x, s) \<Rightarrow> Ret x s)"

definition lift_unit :: "'s option \<Rightarrow> ('s, unit) kres" where
  "lift_unit r = (case r of None \<Rightarrow> Stuck | Some s \<Rightarrow> Ret () s)"

definition queue_op :: "(ptr \<times> 's) option \<Rightarrow> (ptr \<Rightarrow> 's \<Rightarrow> 's) \<Rightarrow> ('s, unit) kres" where
  "queue_op r store = (case r of None \<Rightarrow> Stuck | Some (tp, s) \<Rightarrow> Ret () (store tp s))"

lemma lift_simps [simp]:
  "lift None = Stuck" "lift (Some (x, s)) = Ret x s"
  "lift_unit None = Stuck" "lift_unit (Some s) = Ret () s"
  "queue_op None f = Stuck" "queue_op (Some (tp, s)) f = Ret () (f tp s)"
  by (simp_all add: lift_def lift_unit_def queue_op_def)

lemma kthen_Ret [simp]: "kthen r Ret = r"
  by (cases r) simp_all

lemma kthen_assoc: "kthen (kthen r f) g = kthen r (\<lambda>x s. kthen (f x s) g)"
  by (cases r) simp_all

section \<open>Memory and machine access\<close>

definition store_word :: "u32 \<Rightarrow> u32 \<Rightarrow> 'z kstate_scheme \<Rightarrow> 'z kstate_scheme" where
  "store_word a v s = s\<lparr>mem := (mem s)(a := v)\<rparr>"

text \<open>\<open>&deviceSemaphores[i]\<close>\<close>

definition devsem :: "u32 \<Rightarrow> 'z kstate_scheme \<Rightarrow> u32" where
  "devsem i s = deviceSemaphores (link s) + 4 * i"

text \<open>The macros \<open>DEV_REG_ADDR\<close>, \<open>INTDEVBITMAP_ADDR\<close>, \<open>RAMTOP\<close>, \<open>STCK\<close> and \<open>LDIT\<close>.\<close>

definition DEV_REG_ADDR :: "u32 \<Rightarrow> u32 \<Rightarrow> u32" where
  "DEV_REG_ADDR intLine devNum = 0x10000054 + (intLine - 3) * 0x80 + devNum * 0x10"

definition INTDEVBITMAP_ADDR :: "u32 \<Rightarrow> u32" where
  "INTDEVBITMAP_ADDR intLine = 0x10000040 + (intLine - 3) * 4"

definition RAMTOP :: "'z kstate_scheme \<Rightarrow> u32" where
  "RAMTOP s = mem s RAMBASEADDR + mem s RAMBASESIZE"

definition STCK :: "'z kstate_scheme \<Rightarrow> u32 \<times> 'z kstate_scheme" where
  "STCK s = (word_of_int (sint (tod s (tod_n s)) sdiv sint (mem s TIMESCALEADDR)),
     s\<lparr>tod_n := tod_n s + 1\<rparr>)"

definition LDIT :: "u32 \<Rightarrow> 'z kstate_scheme \<Rightarrow> 'z kstate_scheme" where
  "LDIT t s = store_word INTERVALTMR (t * mem s TIMESCALEADDR) s"

text \<open>The fields of \<open>device_t\<close> at a device register's address.\<close>

abbreviation (input) d_status :: "u32 \<Rightarrow> u32" where "d_status a \<equiv> a"
abbreviation (input) d_command :: "u32 \<Rightarrow> u32" where "d_command a \<equiv> a + 4"
abbreviation (input) d_data0 :: "u32 \<Rightarrow> u32" where "d_data0 a \<equiv> a + 8"
abbreviation (input) d_data1 :: "u32 \<Rightarrow> u32" where "d_data1 a \<equiv> a + 12"
abbreviation (input) t_recv_status :: "u32 \<Rightarrow> u32" where "t_recv_status a \<equiv> a"
abbreviation (input) t_recv_command :: "u32 \<Rightarrow> u32" where "t_recv_command a \<equiv> a + 4"
abbreviation (input) t_transm_status :: "u32 \<Rightarrow> u32" where "t_transm_status a \<equiv> a + 8"
abbreviation (input) t_transm_command :: "u32 \<Rightarrow> u32" where "t_transm_command a \<equiv> a + 12"

definition setSTATUS :: "u32 \<Rightarrow> 'z kstate_scheme \<Rightarrow> 'z kstate_scheme" where
  "setSTATUS v s = s\<lparr>cpu := (cpu s)\<lparr>status_reg := v\<rparr>\<rparr>"

definition setTIMER :: "u32 \<Rightarrow> 'z kstate_scheme \<Rightarrow> 'z kstate_scheme" where
  "setTIMER v s = s\<lparr>cpu := (cpu s)\<lparr>timer_reg := v\<rparr>\<rparr>"

text \<open>The \<open>state_t\<close> object behind a pointer, and a change of one PCB or of the saved state.\<close>

definition load_state :: "state_ref \<Rightarrow> 'z kstate_scheme \<Rightarrow> state_t" where
  "load_state r s = (case r of BiosPage \<Rightarrow> bios s | PcbState i \<Rightarrow> p_s (pcbTable s i)
     | SupState i k \<Rightarrow> sup_exceptState (sups s i) k | MemState a \<Rightarrow> states s a)"

definition set_saved_reg :: "nat \<Rightarrow> u32 \<Rightarrow> 'z kstate_scheme \<Rightarrow> 'z kstate_scheme" where
  "set_saved_reg r v s = s\<lparr>bios := set_reg r v (bios s)\<rparr>"

text \<open>What these change.\<close>

lemma store_word_simps [simp]:
  "pcbTable (store_word a v s) = pcbTable s" "pcbFree_h (store_word a v s) = pcbFree_h s"
  "semdTable (store_word a v s) = semdTable s" "semd_h (store_word a v s) = semd_h s"
  "semdFree_h (store_word a v s) = semdFree_h s" "link (store_word a v s) = link s"
  "mem (store_word a v s) = (mem s)(a := v)" "states (store_word a v s) = states s"
  "sups (store_word a v s) = sups s" "processCount (store_word a v s) = processCount s"
  "softBlockCount (store_word a v s) = softBlockCount s" "readyQueue (store_word a v s) = readyQueue s"
  "currentProcess (store_word a v s) = currentProcess s" "bios (store_word a v s) = bios s"
  "cpu (store_word a v s) = cpu s" "tod (store_word a v s) = tod s"
  "tod_n (store_word a v s) = tod_n s" "tlb_log (store_word a v s) = tlb_log s"
  "kstate.more (store_word a v s) = kstate.more s"
  by (simp_all add: store_word_def)

lemma setSTATUS_simps [simp]:
  "pcbTable (setSTATUS v s) = pcbTable s" "pcbFree_h (setSTATUS v s) = pcbFree_h s"
  "semdTable (setSTATUS v s) = semdTable s" "semd_h (setSTATUS v s) = semd_h s"
  "semdFree_h (setSTATUS v s) = semdFree_h s" "link (setSTATUS v s) = link s"
  "mem (setSTATUS v s) = mem s" "states (setSTATUS v s) = states s"
  "sups (setSTATUS v s) = sups s" "processCount (setSTATUS v s) = processCount s"
  "softBlockCount (setSTATUS v s) = softBlockCount s" "readyQueue (setSTATUS v s) = readyQueue s"
  "currentProcess (setSTATUS v s) = currentProcess s" "bios (setSTATUS v s) = bios s"
  "cpu (setSTATUS v s) = (cpu s)\<lparr>status_reg := v\<rparr>" "tod (setSTATUS v s) = tod s"
  "tod_n (setSTATUS v s) = tod_n s" "tlb_log (setSTATUS v s) = tlb_log s"
  "kstate.more (setSTATUS v s) = kstate.more s"
  by (simp_all add: setSTATUS_def)

lemma setTIMER_simps [simp]:
  "pcbTable (setTIMER v s) = pcbTable s" "pcbFree_h (setTIMER v s) = pcbFree_h s"
  "semdTable (setTIMER v s) = semdTable s" "semd_h (setTIMER v s) = semd_h s"
  "semdFree_h (setTIMER v s) = semdFree_h s" "link (setTIMER v s) = link s"
  "mem (setTIMER v s) = mem s" "states (setTIMER v s) = states s"
  "sups (setTIMER v s) = sups s" "processCount (setTIMER v s) = processCount s"
  "softBlockCount (setTIMER v s) = softBlockCount s" "readyQueue (setTIMER v s) = readyQueue s"
  "currentProcess (setTIMER v s) = currentProcess s" "bios (setTIMER v s) = bios s"
  "cpu (setTIMER v s) = (cpu s)\<lparr>timer_reg := v\<rparr>" "tod (setTIMER v s) = tod s"
  "tod_n (setTIMER v s) = tod_n s" "tlb_log (setTIMER v s) = tlb_log s"
  "kstate.more (setTIMER v s) = kstate.more s"
  by (simp_all add: setTIMER_def)

lemma set_saved_reg_simps [simp]:
  "pcbTable (set_saved_reg r v s) = pcbTable s" "pcbFree_h (set_saved_reg r v s) = pcbFree_h s"
  "semdTable (set_saved_reg r v s) = semdTable s" "semd_h (set_saved_reg r v s) = semd_h s"
  "semdFree_h (set_saved_reg r v s) = semdFree_h s" "link (set_saved_reg r v s) = link s"
  "mem (set_saved_reg r v s) = mem s" "states (set_saved_reg r v s) = states s"
  "sups (set_saved_reg r v s) = sups s" "processCount (set_saved_reg r v s) = processCount s"
  "softBlockCount (set_saved_reg r v s) = softBlockCount s" "readyQueue (set_saved_reg r v s) = readyQueue s"
  "currentProcess (set_saved_reg r v s) = currentProcess s" "bios (set_saved_reg r v s) = set_reg r v (bios s)"
  "cpu (set_saved_reg r v s) = cpu s" "tod (set_saved_reg r v s) = tod s"
  "tod_n (set_saved_reg r v s) = tod_n s" "tlb_log (set_saved_reg r v s) = tlb_log s"
  "kstate.more (set_saved_reg r v s) = kstate.more s"
  by (simp_all add: set_saved_reg_def)

section \<open>A cleared machine\<close>

definition zero_link :: link_map where
  "zero_link = \<lparr>deviceSemaphores = 0x20008000, test_addr = 0x20010000,
     uTLB_RefillHandler_addr = 0x20010100, exceptionHandler_addr = 0x20010200,
     pagerHandler_addr = 0x20010300, supportGenExceptionHandler_addr = 0x20010400,
     delayDaemon_addr = 0x20010500, masterSemaphore = 0x20009000, swapPoolSem = 0x20009004,
     ADLsem = 0x20009008, printerSem = 0x20009010, termReadSem = 0x20009030,
     termWriteSem = 0x20009050, sup_privateSem = (\<lambda>k. 0x20009100 + 4 * of_nat k),
     state_at = (\<lambda>a. if 0x2000A000 \<le> a \<and> a < 0x2000A014 then PcbState (unat (a - 0x2000A000))
       else MemState a),
     support_at = (\<lambda>a. if a < 8 then Some (unat a) else NULL),
     state_addr = (\<lambda>i. 0x2000A000 + of_nat i),
     support_addr = (\<lambda>k. case k of None \<Rightarrow> NULL_addr | Some i \<Rightarrow> of_nat i)\<rparr>"

definition zero_kernel :: kstate where
  "zero_kernel = \<lparr>pcbTable = (\<lambda>_. zero_pcb), pcbFree_h = NULL, semdTable = (\<lambda>_. zero_semd),
     semd_h = NULL, semdFree_h = NULL, link = zero_link, mem = (\<lambda>_. 0), states = (\<lambda>_. zero_state),
     sups = (\<lambda>_. zero_support), processCount = 0, softBlockCount = 0, readyQueue = NULL,
     currentProcess = NULL, bios = zero_state,
     cpu = \<lparr>status_reg = 0, timer_reg = 0, entryHi_reg = 0, entryLo_reg = 0\<rparr>,
     tod = (\<lambda>n. of_nat n), tod_n = 0, tlb_log = []\<rparr>"

end
