(* ===== verification/Scheduler.thy ===== *)
theory Scheduler
  imports Nucleus
begin

text \<open>
  \<open>phase3/scheduler.c\<close>.  \<open>dispatch\<close> is the end of \<open>scheduler\<close>, which also is the code an
  interrupt handler that returns by \<open>LDST\<close> to an idle processor resumes after \<open>WAIT\<close>.
\<close>

definition dispatch :: "'z kstate_scheme \<Rightarrow> ('z kstate_scheme, unit) kres" where
  "dispatch s =
     (let s = setTIMER 5000 s
      in case rd p_s (currentProcess s) s of None \<Rightarrow> Stuck | Some st \<Rightarrow> Exit (LDST st) s)"

definition scheduler :: "'z kstate_scheme \<Rightarrow> ('z kstate_scheme, unit) kres" where
  "scheduler s =
     (case removeProcQ (readyQueue s) s of
        None \<Rightarrow> Stuck
      | Some (p, tp, s) \<Rightarrow>
          let s = s\<lparr>readyQueue := tp, currentProcess := p\<rparr>
          in if p = NULL then
               (if processCount s = 0 then Exit HALT s
                else if 0 < sint (softBlockCount s) then
                  Exit WAIT (setSTATUS (((IECON OR IM) AND TIMEROFF) AND NOT TEBITON) s)
                else Exit PANIC s)
             else dispatch s)"

end
