(* ===== verification/Exceptions.thy ===== *)
theory Exceptions
  imports Scheduler
begin

text \<open>
  \<open>phase3/exceptions.c\<close>: the exception dispatcher, the system calls of the nucleus (1 to 8),
  pass up or die, and the TLB refill handler.

  \<open>savedState\<close> is always the BIOS data page's state, the field \<open>bios\<close>.  The recursion of
  \<open>sysTerminate\<close> through the process tree has a fuel argument; \<open>terminate_fuel\<close> is enough for
  every tree of \<open>MAXPROC\<close> processes.
\<close>

section \<open>Helpers\<close>

definition updateCPUTime :: "'z kstate_scheme \<Rightarrow> ('z kstate_scheme, unit) kres" where
  "updateCPUTime s =
     (let (currentTOD, s) = STCK s
      in case currentProcess s of
           None \<Rightarrow> Stuck
         | Some c \<Rightarrow>
             let p = pcbTable s c;
                 p = p\<lparr>p_time := p_time p + (currentTOD - p_startTOD p)\<rparr>;
                 p = p\<lparr>p_startTOD := currentTOD\<rparr>
             in Ret () (s\<lparr>pcbTable := (pcbTable s)(c := p)\<rparr>))"

text \<open>\<open>memcopy\<close> on byte memory, and its use on a whole \<open>state_t\<close>.\<close>

fun memcopy :: "u32 \<Rightarrow> u32 \<Rightarrow> nat \<Rightarrow> (u32 \<Rightarrow> 8 word) \<Rightarrow> (u32 \<Rightarrow> 8 word)" where
  "memcopy d src 0 m = m"
| "memcopy d src (Suc n) m = memcopy (d + 1) (src + 1) n (m(d := m src))"

section \<open>Termination of a process and its progeny\<close>

text \<open>\<open>semAddr >= &deviceSemaphores[0] && semAddr <= &deviceSemaphores[NUM_DEVICES - 1]\<close>\<close>

definition is_devsem :: "u32 \<Rightarrow> 'z kstate_scheme \<Rightarrow> bool" where
  "is_devsem a s \<longleftrightarrow> devsem 0 s \<le> a \<and> a \<le> devsem (NUM_DEVICES - 1) s"

text \<open>The part of \<open>sysTerminate\<close> after the loop over the children, up to \<open>freePcb\<close>.\<close>

definition unblock_dead :: "nat \<Rightarrow> 'z kstate_scheme \<Rightarrow> ('z kstate_scheme, unit) kres" where
  "unblock_dead p s =
     (let semAddr = p_semAdd (pcbTable s p)
      in if semAddr = NULL_addr then Ret () s
         else
           let s = (if is_devsem semAddr s then s
                    else store_word semAddr (mem s semAddr + 1) s)
           in kthen (lift (outBlocked (Some p) s)) (\<lambda>_ s.
                Ret () (if is_devsem semAddr s then s\<lparr>softBlockCount := softBlockCount s - 1\<rparr>
                        else s)))"

definition unqueue_dead :: "nat \<Rightarrow> 'z kstate_scheme \<Rightarrow> ('z kstate_scheme, unit) kres" where
  "unqueue_dead p s =
     (case outProcQ (readyQueue s) (Some p) s of
        None \<Rightarrow> Stuck
      | Some (_, tp, s) \<Rightarrow> Ret () (s\<lparr>readyQueue := tp\<rparr>))"

definition detach_dead :: "nat \<Rightarrow> 'z kstate_scheme \<Rightarrow> ('z kstate_scheme, unit) kres" where
  "detach_dead p s =
     (if p_prnt (pcbTable s p) \<noteq> NULL then kthen (lift (outChild (Some p) s)) (\<lambda>_. Ret ())
      else Ret () s)"

definition free_dead :: "nat \<Rightarrow> 'z kstate_scheme \<Rightarrow> ('z kstate_scheme, unit) kres" where
  "free_dead p s =
     (let s = (if Some p = currentProcess s then s\<lparr>currentProcess := NULL\<rparr> else s)
      in kthen (lift_unit (freePcb (Some p) s)) (\<lambda>_ s.
           let s = (if 0 < sint (processCount s) then s\<lparr>processCount := processCount s - 1\<rparr> else s)
           in if processCount s = 0 then Exit HALT s else Ret () s))"

definition bury :: "nat \<Rightarrow> 'z kstate_scheme \<Rightarrow> ('z kstate_scheme, unit) kres" where
  "bury p s = kthen (unblock_dead p s) (\<lambda>_ s. kthen (unqueue_dead p s) (\<lambda>_ s.
     kthen (detach_dead p s) (\<lambda>_ s. free_dead p s)))"

fun sysTerminate_n :: "nat \<Rightarrow> ptr \<Rightarrow> 'z kstate_scheme \<Rightarrow> ('z kstate_scheme, unit) kres"
  and kill_children :: "nat \<Rightarrow> nat \<Rightarrow> 'z kstate_scheme \<Rightarrow> ('z kstate_scheme, unit) kres" where
  "sysTerminate_n 0 p s = Stuck"
| "sysTerminate_n (Suc n) p s =
     (case p of
        None \<Rightarrow> Ret () s
      | Some i \<Rightarrow> kthen (kill_children n i s) (\<lambda>_ s. bury i s))"
| "kill_children 0 p s = Stuck"
| "kill_children (Suc n) p s =
     (case emptyChild (Some p) s of
        None \<Rightarrow> Stuck
      | Some True \<Rightarrow> Ret () s
      | Some False \<Rightarrow>
          kthen (lift (removeChild (Some p) s)) (\<lambda>c s.
            kthen (sysTerminate_n n c s) (\<lambda>_ s. kill_children n p s)))"

abbreviation (input) terminate_fuel :: nat where "terminate_fuel \<equiv> 2 * MAXPROC + 2"

definition sysTerminate :: "ptr \<Rightarrow> 'z kstate_scheme \<Rightarrow> ('z kstate_scheme, unit) kres" where
  "sysTerminate p s = sysTerminate_n terminate_fuel p s"

section \<open>Semaphore system calls\<close>

text \<open>The blocking branch of \<open>sysPasseren\<close>.\<close>

definition block_current :: "u32 \<Rightarrow> nat \<Rightarrow> 'z kstate_scheme \<Rightarrow> ('z kstate_scheme, unit) kres" where
  "block_current semaddr c s =
     (let p = (pcbTable s c)\<lparr>p_s := bios s, p_semAdd := semaddr\<rparr>;
          s = s\<lparr>pcbTable := (pcbTable s)(c := p)\<rparr>
      in kthen (lift (insertBlocked semaddr (Some c) s)) (\<lambda>_ s. scheduler s))"

definition sysPasseren :: "u32 \<Rightarrow> 'z kstate_scheme \<Rightarrow> ('z kstate_scheme, unit) kres" where
  "sysPasseren semaddr s = kthen (updateCPUTime s) (\<lambda>_ s.
     let s = store_word semaddr (mem s semaddr - 1) s
     in if sint (mem s semaddr) < 0 then
          (case currentProcess s of None \<Rightarrow> Stuck | Some c \<Rightarrow> block_current semaddr c s)
        else Ret () s)"

definition make_ready :: "ptr \<Rightarrow> 'z kstate_scheme \<Rightarrow> ('z kstate_scheme, unit) kres" where
  "make_ready p s = queue_op (insertProcQ (readyQueue s) p s) (\<lambda>tp s. s\<lparr>readyQueue := tp\<rparr>)"

definition sysVerhogen :: "u32 \<Rightarrow> 'z kstate_scheme \<Rightarrow> ('z kstate_scheme, unit) kres" where
  "sysVerhogen semAddr s =
     (let s = store_word semAddr (mem s semAddr + 1) s
      in if sint (mem s semAddr) \<le> 0 then
           kthen (lift (removeBlocked semAddr s)) (\<lambda>p s.
             case p of
               None \<Rightarrow> Ret () s
             | Some i \<Rightarrow>
                 make_ready p (s\<lparr>pcbTable := (pcbTable s)(i := (pcbTable s i)\<lparr>p_semAdd := NULL_addr\<rparr>)\<rparr>))
         else Ret () s)"

definition waitio_index :: "u32 \<Rightarrow> u32 \<Rightarrow> u32 \<Rightarrow> u32" where
  "waitio_index intLineNo devNum waitForTermRead =
     (if intLineNo = TERMINT then (4 * DEVPERINT) + (devNum * 2) + waitForTermRead
      else (intLineNo - 3) * DEVPERINT + devNum)"

definition sysWaitIO :: "u32 \<Rightarrow> u32 \<Rightarrow> u32 \<Rightarrow> 'z kstate_scheme \<Rightarrow> ('z kstate_scheme, unit) kres" where
  "sysWaitIO intLineNo devNum waitForTermRead s =
     (let semaddr = devsem (waitio_index intLineNo devNum waitForTermRead) s;
          s = s\<lparr>softBlockCount := softBlockCount s + 1\<rparr>
      in kthen (sysPasseren semaddr s) (\<lambda>_ s.
           Ret () (set_saved_reg r_v0 (mem s (d_status (DEV_REG_ADDR intLineNo devNum))) s)))"

definition sysWaitClock :: "'z kstate_scheme \<Rightarrow> ('z kstate_scheme, unit) kres" where
  "sysWaitClock s = kthen (updateCPUTime s) (\<lambda>_ s.
     let s = s\<lparr>softBlockCount := softBlockCount s + 1\<rparr>
     in sysPasseren (devsem NUM_DEVICES s) s)"

section \<open>The other system calls\<close>

definition sysCreateProcess :: "state_ref \<Rightarrow> ptr \<Rightarrow> 'z kstate_scheme \<Rightarrow> ('z kstate_scheme, u32) kres" where
  "sysCreateProcess statep supportp s = kthen (lift (allocPcb s)) (\<lambda>newProcess s.
     case newProcess of
       None \<Rightarrow> Ret (- 1) s
     | Some n \<Rightarrow>
         let p = (pcbTable s n)\<lparr>p_s := load_state statep s\<rparr>;
             p = p\<lparr>p_supportStruct := supportp\<rparr>;
             p = p\<lparr>p_time := 0, p_semAdd := NULL_addr\<rparr>;
             s = s\<lparr>pcbTable := (pcbTable s)(n := p)\<rparr>
         in kthen (lift_unit (insertChild (currentProcess s) newProcess s)) (\<lambda>_ s.
              kthen (make_ready newProcess s) (\<lambda>_ s.
                Ret 0 (s\<lparr>processCount := processCount s + 1\<rparr>))))"

definition sysGetCPUTime :: "'z kstate_scheme \<Rightarrow> ('z kstate_scheme, unit) kres" where
  "sysGetCPUTime s =
     (let (currentTOD, s) = STCK s
      in case currentProcess s of
           None \<Rightarrow> Stuck
         | Some c \<Rightarrow> Ret () (set_saved_reg r_v0
             (p_time (pcbTable s c) + (currentTOD - p_startTOD (pcbTable s c))) s))"

definition sysGetSupportPTR :: "'z kstate_scheme \<Rightarrow> ptr option" where
  "sysGetSupportPTR s = rd p_supportStruct (currentProcess s) s"

section \<open>Pass up or die\<close>

definition passUpOrDie :: "nat \<Rightarrow> 'z kstate_scheme \<Rightarrow> ('z kstate_scheme, unit) kres" where
  "passUpOrDie exceptType s =
     (case rd p_supportStruct (currentProcess s) s of
        None \<Rightarrow> Stuck
      | Some None \<Rightarrow> kthen (sysTerminate (currentProcess s) s) (\<lambda>_ s. scheduler s)
      | Some (Some k) \<Rightarrow>
          let sup = sups s k;
              sup = sup\<lparr>sup_exceptState := (sup_exceptState sup)(exceptType := bios s)\<rparr>;
              s = s\<lparr>sups := (sups s)(k := sup)\<rparr>;
              cx = sup_exceptContext (sups s k) exceptType
          in Exit (LDCXT (c_stackPtr cx) (c_status cx) (c_pc cx)) s)"

definition programTrapHandler :: "'z kstate_scheme \<Rightarrow> ('z kstate_scheme, unit) kres" where
  "programTrapHandler s = passUpOrDie GENERALEXCEPT s"

definition TLBExceptionHandler :: "'z kstate_scheme \<Rightarrow> ('z kstate_scheme, unit) kres" where
  "TLBExceptionHandler s = passUpOrDie PGFAULTEXCEPT s"

section \<open>Dispatch\<close>

definition syscallHandler :: "'z kstate_scheme \<Rightarrow> ('z kstate_scheme, unit) kres" where
  "syscallHandler s =
     (let s = s\<lparr>bios := (bios s)\<lparr>s_pc := s_pc (bios s) + 4\<rparr>\<rparr>
      in kthen (if s_status (bios s) AND KUPBITON \<noteq> 0 then passUpOrDie GENERALEXCEPT s else Ret () s)
         (\<lambda>_ s.
           let syscallNumber = s_reg (bios s) r_a0;
               a1 = s_reg (bios s) r_a1; a2 = s_reg (bios s) r_a2; a3 = s_reg (bios s) r_a3
           in kthen
             (if syscallNumber = 1 then
                kthen (sysCreateProcess (state_at (link s) a1) (support_at (link s) a2) s)
                  (\<lambda>r s. Ret () (set_saved_reg r_v0 r s))
              else if syscallNumber = 2 then
                kthen (sysTerminate (currentProcess s) s) (\<lambda>_ s. scheduler s)
              else if syscallNumber = 3 then sysPasseren a1 s
              else if syscallNumber = 4 then sysVerhogen a1 s
              else if syscallNumber = 5 then sysWaitIO a1 a2 a3 s
              else if syscallNumber = 6 then sysGetCPUTime s
              else if syscallNumber = 7 then sysWaitClock s
              else if syscallNumber = 8 then
                (case sysGetSupportPTR s of None \<Rightarrow> Stuck
                 | Some k \<Rightarrow> Ret () (set_saved_reg r_v0 (support_addr (link s) k) s))
              else passUpOrDie GENERALEXCEPT s)
             (\<lambda>_ s. Exit (LDST (bios s)) s)))"

definition exceptionCode :: "u32 \<Rightarrow> u32" where
  "exceptionCode cause = drop_bit 2 (cause AND CAUSEMASK)"

end
