(* ===== verification/Interrupts.thy ===== *)
theory Interrupts
  imports Exceptions
begin

text \<open>
  \<open>phase3/interrupts.c\<close>, and the dispatcher \<open>exceptionHandler\<close> of \<open>phase3/exceptions.c\<close>, which
  calls it.
\<close>

section \<open>Finding the interrupt\<close>

text \<open>The loop \<open>for (i = 1; i <= 7; i++)\<close>.\<close>

function lowest_line :: "u32 \<Rightarrow> nat \<Rightarrow> u32" where
  "lowest_line pending i =
     (if i \<le> 7 then
        (if pending AND push_bit i 1 \<noteq> 0 then of_nat i else lowest_line pending (i + 1))
      else - 1)"
  by pat_completeness auto
termination
  by (relation "measure (\<lambda>(_, i). 8 - i)") auto

declare lowest_line.simps [simp del]

definition getHighestPriorityInterrupt :: "u32 \<Rightarrow> u32" where
  "getHighestPriorityInterrupt cause = lowest_line (drop_bit IPSHIFT (cause AND IPMASK)) 1"

partial_function (option) lowest_device :: "u32 \<Rightarrow> u32 \<Rightarrow> u32 option" where
  "lowest_device bitmap devNum =
     (if bitmap AND 1 = 0 then lowest_device (drop_bit 1 bitmap) (devNum + 1) else Some devNum)"

definition getHighestPriorityDevice :: "u32 \<Rightarrow> 'z kstate_scheme \<Rightarrow> u32 option" where
  "getHighestPriorityDevice intLine s =
     (let deviceBitmap = mem s (INTDEVBITMAP_ADDR intLine)
      in if deviceBitmap = 0 then Some (- 1) else lowest_device deviceBitmap 0)"

section \<open>Handlers\<close>

definition handlePLTInterrupt :: "'z kstate_scheme \<Rightarrow> ('z kstate_scheme, unit) kres" where
  "handlePLTInterrupt s =
     (let s = setTIMER 5000 s
      in kthen
          (case currentProcess s of
             None \<Rightarrow> Ret () s
           | Some c \<Rightarrow>
               let s = s\<lparr>pcbTable := (pcbTable s)(c := (pcbTable s c)\<lparr>p_s := bios s\<rparr>)\<rparr>
               in kthen (updateCPUTime s) (\<lambda>_ s. make_ready (currentProcess s) s))
          (\<lambda>_ s. scheduler s))"

partial_function (option) wake_clock :: "'z kstate_scheme \<Rightarrow> 'z kstate_scheme option" where
  "wake_clock s = do {
     h \<leftarrow> headBlocked (devsem NUM_DEVICES s) s;
     (if h = NULL then Some s
      else do {
        (p, s) \<leftarrow> removeBlocked (devsem NUM_DEVICES s) s;
        s \<leftarrow> (if p = NULL then Some s
               else do {
                 (tp, s) \<leftarrow> insertProcQ (readyQueue s) p s;
                 Some (s\<lparr>readyQueue := tp\<rparr>)
               });
        wake_clock s
      })
   }"

definition handleIntervalTimerInterrupt :: "'z kstate_scheme \<Rightarrow> ('z kstate_scheme, unit) kres" where
  "handleIntervalTimerInterrupt s = kthen (lift_unit (wake_clock (LDIT CLOCKINTERVAL s))) (\<lambda>_ s.
     let s = store_word (devsem NUM_DEVICES s) 0 s
     in if currentProcess s \<noteq> NULL then Exit (LDST (bios s)) s else scheduler s)"

text \<open>
  Acknowledging the device: the status read before \<open>ACK\<close>.  On a terminal line where neither
  sub-device reports status 5 the local \<open>status\<close> keeps no defined value: \<open>None\<close>.
\<close>

definition ack_device :: "u32 \<Rightarrow> u32 \<Rightarrow> 'z kstate_scheme \<Rightarrow> u32 option \<times> 'z kstate_scheme" where
  "ack_device intLine deviceReg s =
     (if intLine = TERMINT then
        (if mem s (t_transm_status deviceReg) AND STATUS_MASK = 5 then
           (Some (mem s (t_transm_status deviceReg)), store_word (t_transm_command deviceReg) ACK s)
         else if mem s (t_recv_status deviceReg) AND STATUS_MASK = 5 then
           (Some (mem s (t_recv_status deviceReg)), store_word (t_recv_command deviceReg) ACK s)
         else (None, s))
      else (Some (mem s (d_status deviceReg)), store_word (d_command deviceReg) ACK s))"

definition device_index :: "u32 \<Rightarrow> u32 \<Rightarrow> u32 \<Rightarrow> u32" where
  "device_index intLine devNum status =
     (if intLine = TERMINT then
        let isTransmitter = (if status AND 0xFF \<noteq> 0 then 1 else 0)
        in (4 * DEVPERINT) + (devNum * 2) + isTransmitter
      else (intLine - 3) * DEVPERINT + devNum)"

definition handleDeviceInterrupt :: "u32 \<Rightarrow> 'z kstate_scheme \<Rightarrow> ('z kstate_scheme, unit) kres" where
  "handleDeviceInterrupt intLine s =
     (case getHighestPriorityDevice intLine s of
        None \<Rightarrow> Stuck
      | Some devNum \<Rightarrow>
          let (st, s) = ack_device intLine (DEV_REG_ADDR intLine devNum) s
          in case st of
               None \<Rightarrow> Stuck
             | Some status \<Rightarrow>
                 let semAddr = devsem (device_index intLine devNum status) s;
                     s = store_word semAddr (mem s semAddr + 1) s
                 in if sint (mem s semAddr) \<le> 0 then
                      kthen (lift (removeBlocked semAddr s)) (\<lambda>p s.
                        kthen (case p of
                                 None \<Rightarrow> Ret () s
                               | Some i \<Rightarrow>
                                   let s = s\<lparr>pcbTable := (pcbTable s)(i := (pcbTable s i)
                                         \<lparr>p_s := set_reg r_v0 status (p_s (pcbTable s i))\<rparr>)\<rparr>;
                                       s = s\<lparr>softBlockCount := softBlockCount s - 1\<rparr>
                                   in make_ready p s)
                          (\<lambda>_ s. if currentProcess s = NULL then scheduler s
                                  else Exit (LDST (bios s)) s))
                    else Ret () s)"

definition interruptHandler :: "'z kstate_scheme \<Rightarrow> ('z kstate_scheme, unit) kres" where
  "interruptHandler s =
     (let intLine = getHighestPriorityInterrupt (s_cause (bios s))
      in kthen
          (if intLine = 0 then Ret () s
           else if intLine = 1 then handlePLTInterrupt s
           else if intLine = 2 then handleIntervalTimerInterrupt s
           else if intLine \<in> {3, 4, 5, 6, 7} then handleDeviceInterrupt intLine s
           else Exit PANIC s)
          (\<lambda>_ s. Exit (LDST (bios s)) s))"

definition exceptionHandler :: "'z kstate_scheme \<Rightarrow> ('z kstate_scheme, unit) kres" where
  "exceptionHandler s =
     (let code = exceptionCode (s_cause (bios s))
      in if code = 0 then interruptHandler s
         else if code \<in> {1, 2, 3} then TLBExceptionHandler s
         else if code \<in> {4, 5, 6, 7, 9, 10, 11, 12} then programTrapHandler s
         else if code = 8 then
           (if 9 \<le> sint (s_reg (bios s) r_a0) then passUpOrDie GENERALEXCEPT s
            else syscallHandler s)
         else kthen (sysTerminate (currentProcess s) s) (\<lambda>_ s. scheduler s))"

section \<open>TLB refill\<close>

text \<open>\<open>vpn << VPNSHIFT\<close> and the page index of \<open>uTLB_RefillHandler\<close>.\<close>

definition page_index :: "u32 \<Rightarrow> u32" where
  "page_index ehi =
     (let vpn = drop_bit VPNSHIFT (ehi AND VPN_MASK)
      in if push_bit VPNSHIFT vpn = STACK_PAGE_VPN then STACK_PAGE_INDEX
         else vpn - drop_bit VPNSHIFT VPN_BASE)"

definition uTLB_RefillHandler :: "'z kstate_scheme \<Rightarrow> ('z kstate_scheme, unit) kres" where
  "uTLB_RefillHandler s =
     (let pageIndex = page_index (s_entryHI (bios s))
      in case rd p_supportStruct (currentProcess s) s of
           None \<Rightarrow> Stuck
         | Some support \<Rightarrow>
             if sint pageIndex < 0 \<or> int PAGE_TABLE_SIZE \<le> sint pageIndex then Exit PANIC s
             else case support of
               None \<Rightarrow> Stuck
             | Some k \<Rightarrow>
                 let entry = sup_pageTable (sups s k) (unat pageIndex);
                     s = s\<lparr>cpu := (cpu s)\<lparr>entryHi_reg := entryHi entry, entryLo_reg := entryLo entry\<rparr>,
                           tlb_log := tlb_log s @ [(entryHi entry, entryLo entry)]\<rparr>
                 in Exit (LDST (bios s)) s)"

end
