(* ===== verification/Support.thy ===== *)
theory Support
  imports Interrupts
begin

text \<open>
  The state of the support level and the programs that run on it.

  \<open>sstate\<close> extends the nucleus' state with the static data of \<open>phase3/vmSupport.c\<close>,
  \<open>phase3/delayDaemon.c\<close> and \<open>phase3/initProc.c\<close>; the support structures themselves are the array
  \<open>sups\<close> of the nucleus' state.  \<open>bytes\<close> is byte memory: the user pages as the running process
  sees them and the DMA frames; the kernel's own words and the device registers are in \<open>mem\<close>.
  \<open>tlbp_result\<close> is the hardware's answer to a TLB probe, \<open>tlb_ops\<close> the TLB operations made so far.

  The code of the support level runs as a process, with interrupts on, and calls the nucleus with
  \<open>SYSCALL\<close>; other processes run before the call returns.  Such code is an interaction tree
  (\<open>act\<close>): it computes on the state until its next system call, and goes on with whatever value
  and state the nucleus resumes it with.
\<close>

section \<open>State\<close>

record swapPoolEntry_t =
  sw_asid :: u32
  sw_vpn :: u32
  sw_occupied :: u32

record delayd_t =
  d_next :: ptr
  d_wakeTime :: u32
  d_supStruct :: ptr

datatype tlb_op = TLBP u32 | TLBWI u32 u32 u32 | TLBCLR

record sstate = kstate +
  swapPool :: "nat \<Rightarrow> swapPoolEntry_t"
  swapIndex :: u32
  delaydTable :: "nat \<Rightarrow> delayd_t"
  delayd_h :: ptr
  delaydFree_h :: ptr
  asidProcessTable :: "nat \<Rightarrow> ptr"
  supportFreeList :: ptr
  bytes :: "u32 \<Rightarrow> 8 word"
  index_reg :: u32
  tlbp_result :: "u32 \<Rightarrow> u32"
  tlb_ops :: "tlb_op list"

section \<open>Constants\<close>

abbreviation (input) UPROCMAX :: nat where "UPROCMAX \<equiv> 8"
abbreviation (input) SWAP_POOL_SIZE :: nat where "SWAP_POOL_SIZE \<equiv> 16"
abbreviation (input) SUPPORT_STRUCT_POOL_SIZE :: nat where "SUPPORT_STRUCT_POOL_SIZE \<equiv> UPROCMAX"
abbreviation (input) DELAY_LIST_SIZE :: nat where "DELAY_LIST_SIZE \<equiv> 9"
abbreviation (input) SECOND :: u32 where "SECOND \<equiv> 1000000"
abbreviation (input) KUSEG :: u32 where "KUSEG \<equiv> 0x80000000"
abbreviation (input) RAM_START :: u32 where "RAM_START \<equiv> 0x20000000"
abbreviation (input) MAX_LEN :: nat where "MAX_LEN \<equiv> 128"
abbreviation (input) SWAP_POOL_START_FRAME :: u32 where "SWAP_POOL_START_FRAME \<equiv> 32"
abbreviation (input) DMA_DISK_START_FRAME :: u32 where "DMA_DISK_START_FRAME \<equiv> 16"
abbreviation (input) DMA_FLASH_START_FRAME :: u32 where "DMA_FLASH_START_FRAME \<equiv> 24"
abbreviation (input) ENTRYLO_DIRTY :: u32 where "ENTRYLO_DIRTY \<equiv> 0x400"
abbreviation (input) ENTRYLO_VALID :: u32 where "ENTRYLO_VALID \<equiv> 0x200"
abbreviation (input) ASID_SHIFT :: nat where "ASID_SHIFT \<equiv> 6"
abbreviation (input) COMMAND_SHIFT :: nat where "COMMAND_SHIFT \<equiv> 8"
abbreviation (input) FLASH_BASE :: u32 where "FLASH_BASE \<equiv> 0x100000D4"
abbreviation (input) FLASH_SIZE :: u32 where "FLASH_SIZE \<equiv> 0x10"
abbreviation (input) SEEKCYL :: u32 where "SEEKCYL \<equiv> 2"
abbreviation (input) READBLK :: u32 where "READBLK \<equiv> 2"
abbreviation (input) WRITEBLK :: u32 where "WRITEBLK \<equiv> 3"
abbreviation (input) DEVICE_READY :: u32 where "DEVICE_READY \<equiv> 1"
abbreviation (input) DISKINT :: u32 where "DISKINT \<equiv> 3"
abbreviation (input) FLASHINT :: u32 where "FLASHINT \<equiv> 4"
abbreviation (input) PRNTINT :: u32 where "PRNTINT \<equiv> 6"
abbreviation (input) INDEX_P_BIT :: u32 where "INDEX_P_BIT \<equiv> 0x80000000"
abbreviation (input) INDEX_MASK :: u32 where "INDEX_MASK \<equiv> 0x3F"

section \<open>Programs\<close>

text \<open>A request: the system call number (\<open>a0\<close>) and the arguments \<open>a1\<close>, \<open>a2\<close>, \<open>a3\<close>.\<close>

type_synonym sysreq = "u32 \<times> u32 \<times> u32 \<times> u32"

abbreviation (input) CREATEPROCESS :: u32 where "CREATEPROCESS \<equiv> 1"
abbreviation (input) TERMINATEPROCESS :: u32 where "TERMINATEPROCESS \<equiv> 2"
abbreviation (input) PASSEREN :: u32 where "PASSEREN \<equiv> 3"
abbreviation (input) VERHOGEN :: u32 where "VERHOGEN \<equiv> 4"
abbreviation (input) WAITIO :: u32 where "WAITIO \<equiv> 5"
abbreviation (input) WAITCLOCK :: u32 where "WAITCLOCK \<equiv> 7"
abbreviation (input) GETSUPPORTPTR :: u32 where "GETSUPPORTPTR \<equiv> 8"

datatype 'a act =
    Done 'a sstate
  | Syscall sysreq sstate "u32 \<Rightarrow> sstate \<Rightarrow> 'a act"
  | Leave kexit sstate
  | Undefined

primrec abind :: "'a act \<Rightarrow> ('a \<Rightarrow> sstate \<Rightarrow> 'b act) \<Rightarrow> 'b act" where
  "abind (Done x s) f = f x s"
| "abind (Syscall r s k) f = Syscall r s (\<lambda>v s'. abind (k v s') f)"
| "abind (Leave e s) f = Leave e s"
| "abind Undefined f = Undefined"

definition SYSCALL :: "u32 \<Rightarrow> u32 \<Rightarrow> u32 \<Rightarrow> u32 \<Rightarrow> sstate \<Rightarrow> u32 act" where
  "SYSCALL n a1 a2 a3 s = Syscall (n, a1, a2, a3) s Done"

text \<open>\<open>when_some x f\<close>: go on with \<open>f\<close>, unless computing \<open>x\<close> dereferences \<open>NULL\<close>.\<close>

definition when_some :: "'a option \<Rightarrow> ('a \<Rightarrow> 'b act) \<Rightarrow> 'b act" where
  "when_some x f = (case x of None \<Rightarrow> Undefined | Some a \<Rightarrow> f a)"

lemma when_some_simps [simp]: "when_some None f = Undefined" "when_some (Some a) f = f a"
  by (simp_all add: when_some_def)

lemma abind_SYSCALL [simp]: "abind (SYSCALL n a1 a2 a3 s) f = Syscall (n, a1, a2, a3) s f"
  by (simp add: SYSCALL_def)

lemma act_induct [case_names Done Syscall Leave Undefined, induct type: act]:
  assumes "\<And>x s. P (Done x s)" and "\<And>r s k. (\<And>v s'. P (k v s')) \<Longrightarrow> P (Syscall r s k)"
    and "\<And>e s. P (Leave e s)" and "P Undefined"
  shows "P t"
proof (induction t rule: act.induct)
  case (Syscall r s k)
  show ?case by (rule assms(2)) (rule Syscall; rule rangeI)
qed (rule assms)+

lemma abind_Done [simp]: "abind t Done = t"
  by (induction t) simp_all

lemma abind_assoc: "abind (abind t f) g = abind t (\<lambda>x s. abind (f x s) g)"
  by (induction t) simp_all

lemma abind_when_some [simp]: "abind (when_some x f) g = when_some x (\<lambda>a. abind (f a) g)"
  by (cases x) simp_all

section \<open>Runs\<close>

text \<open>
  An environment gives, for the \<open>i\<close>-th request of a run and the state in which it is made, the
  value and the state the caller is resumed with.  It stands for the nucleus and all other
  processes; theorems quantify over it.  \<open>TERMINATEPROCESS\<close> is never answered
  (\<open>sysTerminate\<close> removes the caller).  A run is the requests made, with the state at each, and
  how it ended.
\<close>

type_synonym env = "nat \<Rightarrow> sysreq \<Rightarrow> sstate \<Rightarrow> u32 \<times> sstate"

datatype 'a outcome = Returned 'a sstate | Exited kexit sstate | Terminated sstate | Failed

type_synonym 'a run = "(sysreq \<times> sstate) list \<times> 'a outcome"

primrec run :: "'a act \<Rightarrow> env \<Rightarrow> nat \<Rightarrow> 'a run" where
  "run (Done x s) h i = ([], Returned x s)"
| "run (Syscall r s k) h i =
     (if fst r = TERMINATEPROCESS then ([(r, s)], Terminated s)
      else case h i r s of (v, s') \<Rightarrow>
        case run (k v s') h (Suc i) of (tr, res) \<Rightarrow> ((r, s) # tr, res))"
| "run (Leave e s) h i = ([], Exited e s)"
| "run Undefined h i = ([], Failed)"

definition after :: "'a run \<Rightarrow> ('a \<Rightarrow> sstate \<Rightarrow> nat \<Rightarrow> 'b run) \<Rightarrow> 'b run" where
  "after r f = (case snd r of
     Returned x s \<Rightarrow> (case f x s (length (fst r)) of (tr, res) \<Rightarrow> (fst r @ tr, res))
   | Exited e s \<Rightarrow> (fst r, Exited e s)
   | Terminated s \<Rightarrow> (fst r, Terminated s)
   | Failed \<Rightarrow> (fst r, Failed))"

lemma run_abind: "run (abind t f) h i = after (run t h i) (\<lambda>x s n. run (f x s) h (i + n))"
proof (induction t arbitrary: i)
  case (Syscall r s k)
  show ?case
  proof (cases "fst r = TERMINATEPROCESS")
    case False
    obtain v s' where h: "h i r s = (v, s')" by fastforce
    have "run (abind (k v s') f) h (Suc i) =
        after (run (k v s') h (Suc i)) (\<lambda>x s n. run (f x s) h (Suc i + n))"
      by (rule Syscall.IH)
    then show ?thesis using False h
      by (auto simp: after_def split: outcome.splits prod.splits)
  qed (simp add: after_def)
qed (simp_all add: after_def split: prod.splits)

section \<open>Machine access\<close>

text \<open>The assignment through a \<open>state_t\<close> pointer.\<close>

definition store_state :: "state_ref \<Rightarrow> state_t \<Rightarrow> sstate \<Rightarrow> sstate" where
  "store_state r st s = (case r of
     BiosPage \<Rightarrow> s\<lparr>bios := st\<rparr>
   | PcbState i \<Rightarrow> s\<lparr>pcbTable := (pcbTable s)(i := (pcbTable s i)\<lparr>p_s := st\<rparr>)\<rparr>
   | SupState i k \<Rightarrow> s\<lparr>sups := (sups s)(i := (sups s i)
       \<lparr>sup_exceptState := (sup_exceptState (sups s i))(k := st)\<rparr>)\<rparr>
   | MemState a \<Rightarrow> s\<lparr>states := (states s)(a := st)\<rparr>)"

definition set_state_reg :: "state_ref \<Rightarrow> nat \<Rightarrow> u32 \<Rightarrow> sstate \<Rightarrow> sstate" where
  "set_state_reg r n v s = store_state r (set_reg n v (load_state r s)) s"

text \<open>\<open>setSTATUS(getSTATUS() & ~IECON)\<close> and \<open>setSTATUS(getSTATUS() | IECON)\<close>.\<close>

definition disable_interrupts :: "sstate \<Rightarrow> sstate" where
  "disable_interrupts s = setSTATUS (status_reg (cpu s) AND NOT IECON) s"

definition enable_interrupts :: "sstate \<Rightarrow> sstate" where
  "enable_interrupts s = setSTATUS (status_reg (cpu s) OR IECON) s"

definition setENTRYHI :: "u32 \<Rightarrow> sstate \<Rightarrow> sstate" where
  "setENTRYHI v s = s\<lparr>cpu := (cpu s)\<lparr>entryHi_reg := v\<rparr>\<rparr>"

definition setENTRYLO :: "u32 \<Rightarrow> sstate \<Rightarrow> sstate" where
  "setENTRYLO v s = s\<lparr>cpu := (cpu s)\<lparr>entryLo_reg := v\<rparr>\<rparr>"

definition do_TLBP :: "sstate \<Rightarrow> sstate" where
  "do_TLBP s = s\<lparr>index_reg := tlbp_result s (entryHi_reg (cpu s)),
     tlb_ops := tlb_ops s @ [TLBP (entryHi_reg (cpu s))]\<rparr>"

definition do_TLBWI :: "sstate \<Rightarrow> sstate" where
  "do_TLBWI s = s\<lparr>tlb_ops := tlb_ops s
     @ [TLBWI (index_reg s) (entryHi_reg (cpu s)) (entryLo_reg (cpu s))]\<rparr>"

definition do_TLBCLR :: "sstate \<Rightarrow> sstate" where
  "do_TLBCLR s = s\<lparr>tlb_ops := tlb_ops s @ [TLBCLR]\<rparr>"

text \<open>
  \<open>(support_t *)SYSCALL(GETSUPPORTPTR, 0, 0, 0)\<close>, and \<open>currentProcess->p_supportStruct\<close> as a
  pointer that is dereferenced at once.
\<close>

definition get_support :: "sstate \<Rightarrow> nat act" where
  "get_support s = abind (SYSCALL GETSUPPORTPTR 0 0 0 s) (\<lambda>v s.
     when_some (support_at (link s) v) (\<lambda>k. Done k s))"

definition current_support :: "sstate \<Rightarrow> nat option" where
  "current_support s = do {
     sup \<leftarrow> rd p_supportStruct (currentProcess s) s;
     sup
   }"

text \<open>\<open>LDST(state)\<close> for a pointer into a support structure.\<close>

definition load_and_leave :: "state_ref \<Rightarrow> sstate \<Rightarrow> 'a act" where
  "load_and_leave r s = Leave (LDST (load_state r s)) s"

text \<open>
  The loop \<open>for (i = 0; i < n; i++) buffer[i] = virtAddr[i]\<close> into a local \<open>char buffer[129]\<close>:
  \<open>None\<close> when an index leaves the buffer.
\<close>

definition read_user :: "u32 \<Rightarrow> nat \<Rightarrow> sstate \<Rightarrow> 8 word list option" where
  "read_user a n s = (if n \<le> 129 then Some (map (\<lambda>i. bytes s (a + of_nat i)) [0..<n]) else None)"

text \<open>The loop \<open>for (i = 0; i < count; i++) virtAddr[i] = buffer[i]\<close>.\<close>

primrec write_user :: "u32 \<Rightarrow> 8 word list \<Rightarrow> sstate \<Rightarrow> sstate" where
  "write_user a [] s = s"
| "write_user a (c # cs) s = write_user (a + 1) cs (s\<lparr>bytes := (bytes s)(a := c)\<rparr>)"

end
