(* ===== verification/InitProc.thy ===== *)
theory InitProc
  imports Support
begin

text \<open>
  \<open>phase3/initProc.c\<close> without its calls of other support modules: page tables, the free list of
  support structures, and \<open>test\<close>, the first process.
\<close>

section \<open>Page tables\<close>

text \<open>One round of the loop of \<open>initPageTable\<close>.\<close>

definition init_entry :: "u32 \<Rightarrow> nat \<Rightarrow> pageTableEntry_t" where
  "init_entry asid i =
     (let vpn = (if i = unat STACK_PAGE_INDEX then STACK_PAGE_VPN
                 else VPN_BASE + of_nat i * PAGESIZE)
      in \<lparr>entryHi = (vpn AND VPN_MASK) OR push_bit ASID_SHIFT asid,
          entryLo = (if i = 1 then ENTRYLO_VALID OR ENTRYLO_DIRTY else ENTRYLO_DIRTY)\<rparr>)"

definition initPageTable :: "nat \<Rightarrow> sstate \<Rightarrow> sstate" where
  "initPageTable k s =
     (let asid = sup_asid (sups s k)
      in foldl (\<lambda>s i. s\<lparr>sups := (sups s)(k := (sups s k)
           \<lparr>sup_pageTable := (sup_pageTable (sups s k))(i := init_entry asid i)\<rparr>)\<rparr>)
         s [0..<PAGE_TABLE_SIZE])"

section \<open>Support structures\<close>

definition allocSupportStruct :: "sstate \<Rightarrow> ptr \<times> sstate" where
  "allocSupportStruct s =
     (case supportFreeList s of
        None \<Rightarrow> (NULL, s)
      | Some k \<Rightarrow> (Some k, s\<lparr>supportFreeList := sup_next (sups s k)\<rparr>))"

definition freeSupportStruct :: "nat \<Rightarrow> sstate \<Rightarrow> sstate" where
  "freeSupportStruct k s =
     s\<lparr>sups := (sups s)(k := (sups s k)\<lparr>sup_next := supportFreeList s\<rparr>),
       supportFreeList := Some k\<rparr>"

definition initSupportStructs :: "sstate \<Rightarrow> sstate" where
  "initSupportStructs s = foldl (\<lambda>s i. s
     \<lparr>sups := (sups s)(i := (sups s i)\<lparr>sup_next := supportFreeList s\<rparr>),
      supportFreeList := Some i\<rparr>) s [0..<SUPPORT_STRUCT_POOL_SIZE]"

section \<open>The processes of the users\<close>

text \<open>\<open>RAMTOP - n * PAGESIZE\<close>\<close>

definition stack_below :: "u32 \<Rightarrow> sstate \<Rightarrow> u32" where
  "stack_below n s = RAMTOP s - n * PAGESIZE"

definition KERNEL_STATUS :: u32 where
  "KERNEL_STATUS = 0 OR IEPBITON OR IM OR TEBITON"

definition handler_context :: "u32 \<Rightarrow> u32 \<Rightarrow> context_t" where
  "handler_context sp pc = \<lparr>c_stackPtr = sp, c_status = KERNEL_STATUS, c_pc = pc\<rparr>"

abbreviation (input) UPROC_START :: u32 where "UPROC_START \<equiv> 0x800000B0"
abbreviation (input) UPROC_STACK :: u32 where "UPROC_STACK \<equiv> 0xC0000000"

text \<open>The two \<open>Exception Contexts Setup\<close> groups and the processor state of \<open>initUProcs\<close>.\<close>

definition init_contexts :: "u32 \<Rightarrow> nat \<Rightarrow> sstate \<Rightarrow> sstate" where
  "init_contexts i k s =
     (let tlbStack = stack_below (2 * i - 1) s;
          genStack = stack_below (2 * i) s;
          cx = sup_exceptContext (sups s k);
          cx = cx(PGFAULTEXCEPT := handler_context tlbStack (pagerHandler_addr (link s)));
          cx = cx(GENERALEXCEPT := handler_context genStack (supportGenExceptionHandler_addr (link s)))
      in s\<lparr>sups := (sups s)(k := (sups s k)\<lparr>sup_exceptContext := cx\<rparr>)\<rparr>)"

definition uproc_state :: "u32 \<Rightarrow> state_t \<Rightarrow> state_t" where
  "uproc_state i st =
     (let st = st\<lparr>s_pc := UPROC_START\<rparr>;
          st = set_reg r_t9 UPROC_START st;
          st = set_reg r_sp UPROC_STACK st;
          st = st\<lparr>s_status := 0 OR IEPBITON OR IM OR TEBITON OR KUPBITON\<rparr>
      in st\<lparr>s_entryHI := s_entryHI st OR push_bit ASID_SHIFT i\<rparr>)"

definition initUProc :: "nat \<Rightarrow> sstate \<Rightarrow> (sstate, unit) kres" where
  "initUProc i s = kthen (lift (allocPcb s)) (\<lambda>newProc s.
     case newProc of
       None \<Rightarrow> Exit PANIC s
     | Some p \<Rightarrow>
         let (support, s) = allocSupportStruct s
         in case support of
              None \<Rightarrow> Exit PANIC s
            | Some k \<Rightarrow>
                let s = s\<lparr>pcbTable := (pcbTable s)(p := (pcbTable s p)\<lparr>p_supportStruct := Some k\<rparr>)\<rparr>;
                    s = s\<lparr>sups := (sups s)(k := (sups s k)\<lparr>sup_asid := of_nat i\<rparr>)\<rparr>;
                    s = store_word (sup_privateSem (link s) k) 0 s;
                    s = initPageTable k s;
                    s = s\<lparr>asidProcessTable := (asidProcessTable s)(i := Some p)\<rparr>;
                    s = init_contexts (of_nat i) k s
                in Ret () (s\<lparr>pcbTable := (pcbTable s)(p := (pcbTable s p)
                     \<lparr>p_s := uproc_state (of_nat i) (p_s (pcbTable s p))\<rparr>)\<rparr>))"

primrec init_uprocs :: "nat list \<Rightarrow> sstate \<Rightarrow> (sstate, unit) kres" where
  "init_uprocs [] s = Ret () s"
| "init_uprocs (i # is) s = kthen (initUProc i s) (\<lambda>_ s. init_uprocs is s)"

definition initUProcs :: "sstate \<Rightarrow> (sstate, unit) kres" where
  "initUProcs s = init_uprocs [1..<UPROCMAX + 1] s"

section \<open>The first process\<close>

text \<open>The two loops of \<open>test\<close>.\<close>

primrec start_uprocs :: "nat list \<Rightarrow> sstate \<Rightarrow> unit act" where
  "start_uprocs [] s = Done () s"
| "start_uprocs (i # is) s =
     when_some (asidProcessTable s i) (\<lambda>p.
       abind (SYSCALL CREATEPROCESS (state_addr (link s) p)
           (support_addr (link s) (p_supportStruct (pcbTable s p))) 0 s) (\<lambda>result s.
         abind (if sint result < 0 then Leave PANIC s else Done () s) (\<lambda>_ s.
           start_uprocs is s)))"

primrec await_uprocs :: "nat \<Rightarrow> sstate \<Rightarrow> unit act" where
  "await_uprocs 0 s = Done () s"
| "await_uprocs (Suc n) s =
     abind (SYSCALL PASSEREN (masterSemaphore (link s)) 0 0 s) (\<lambda>_ s. await_uprocs n s)"

definition test :: "sstate \<Rightarrow> unit act" where
  "test s = abind (start_uprocs [1..<UPROCMAX + 1] s) (\<lambda>_ s.
     abind (await_uprocs UPROCMAX s) (\<lambda>_ s.
       abind (SYSCALL TERMINATEPROCESS 0 0 0 s) (\<lambda>_ s. Done () s)))"

end
