(* ===== verification/VmSupport.thy ===== *)
theory VmSupport
  imports InitProc
begin

text \<open>
  \<open>phase3/vmSupport.c\<close>: the swap pool and the pager.  An index outside \<open>swapPool\<close>,
  \<open>asidProcessTable\<close> or a page table makes the program \<open>Undefined\<close>.
\<close>

section \<open>The swap pool\<close>

definition empty_frame :: swapPoolEntry_t where
  "empty_frame = \<lparr>sw_asid = - 1, sw_vpn = - 1, sw_occupied = 0\<rparr>"

definition initSwapPool :: "sstate \<Rightarrow> sstate" where
  "initSwapPool s = foldl (\<lambda>s i. s\<lparr>swapPool := (swapPool s)(i := empty_frame)\<rparr>)
     s [0..<SWAP_POOL_SIZE]"

text \<open>The loop of \<open>getFreeFrame\<close>.\<close>

fun first_free :: "(nat \<Rightarrow> swapPoolEntry_t) \<Rightarrow> nat list \<Rightarrow> u32" where
  "first_free pool [] = - 1"
| "first_free pool (i # is) =
     (if sw_occupied (pool i) = 0 then of_nat i else first_free pool is)"

definition getFreeFrame :: "sstate \<Rightarrow> u32" where
  "getFreeFrame s = first_free (swapPool s) [0..<SWAP_POOL_SIZE]"

definition pickVictimFrame :: "sstate \<Rightarrow> u32 \<times> sstate" where
  "pickVictimFrame s =
     (let victim = swapIndex s
      in (victim, s\<lparr>swapIndex := word_of_int (sint (swapIndex s + 1) smod int SWAP_POOL_SIZE)\<rparr>))"

definition freeFrame :: "nat \<Rightarrow> sstate \<Rightarrow> sstate" where
  "freeFrame i s = s\<lparr>swapPool := (swapPool s)(i := empty_frame)\<rparr>"

definition getSupportStruct :: "u32 \<Rightarrow> sstate \<Rightarrow> ptr option" where
  "getSupportStruct asid s =
     (if unat asid \<le> UPROCMAX then rd p_supportStruct (asidProcessTable s (unat asid)) s else None)"

section \<open>Flash input and output\<close>

definition flash_dev :: "u32 \<Rightarrow> u32" where
  "flash_dev asid = FLASH_BASE + (asid - 1) * FLASH_SIZE"

definition frame_addr :: "u32 \<Rightarrow> u32" where
  "frame_addr frame = RAM_START + ((SWAP_POOL_START_FRAME + frame) * PAGESIZE)"

text \<open>The page index the two flash routines compute.\<close>

definition flash_block :: "u32 \<Rightarrow> u32" where
  "flash_block vpn =
     (if vpn = drop_bit VPNSHIFT STACK_PAGE_VPN then STACK_PAGE_INDEX
      else vpn - drop_bit VPNSHIFT VPN_BASE)"

text \<open>
  \<open>loadPageFromBackingStore\<close> and \<open>writePageToBackingStore\<close> differ in the command only.
\<close>

definition flash_transfer :: "u32 \<Rightarrow> u32 \<Rightarrow> u32 \<Rightarrow> u32 \<Rightarrow> sstate \<Rightarrow> unit act" where
  "flash_transfer command asid vpn frame s =
     (let s = store_word (d_data0 (flash_dev asid)) (frame_addr frame) s;
          s = disable_interrupts s;
          s = setENTRYHI ((entryHi_reg (cpu s) AND VPN_MASK) OR push_bit ASID_SHIFT asid) s;
          s = store_word (d_command (flash_dev asid))
                (push_bit COMMAND_SHIFT (flash_block vpn) OR command) s
      in abind (SYSCALL WAITIO FLASHINT (asid - 1) 0 s) (\<lambda>_ s.
           let s = enable_interrupts s
           in if mem s (d_status (flash_dev asid)) \<noteq> 1 then Leave PANIC s else Done () s))"

definition loadPageFromBackingStore :: "u32 \<Rightarrow> u32 \<Rightarrow> u32 \<Rightarrow> sstate \<Rightarrow> unit act" where
  "loadPageFromBackingStore asid vpn frame s = flash_transfer READBLK asid vpn frame s"

definition writePageToBackingStore :: "u32 \<Rightarrow> u32 \<Rightarrow> u32 \<Rightarrow> sstate \<Rightarrow> unit act" where
  "writePageToBackingStore asid vpn frame s = flash_transfer WRITEBLK asid vpn frame s"

section \<open>The pager\<close>

text \<open>The index of a page in its page table, as \<open>pagerHandler\<close> computes it (twice).\<close>

definition pte_index :: "u32 \<Rightarrow> u32" where
  "pte_index vpn =
     (if push_bit VPNSHIFT vpn = STACK_PAGE_VPN then STACK_PAGE_INDEX
      else vpn - drop_bit VPNSHIFT VPN_BASE)"

definition set_entryLo :: "nat \<Rightarrow> nat \<Rightarrow> u32 \<Rightarrow> sstate \<Rightarrow> sstate" where
  "set_entryLo k j v s = s\<lparr>sups := (sups s)(k := (sups s k)\<lparr>sup_pageTable :=
     (sup_pageTable (sups s k))(j := (sup_pageTable (sups s k) j)\<lparr>entryLo := v\<rparr>)\<rparr>)\<rparr>"

text \<open>Step 8: the victim's page table entry and its TLB entry lose their valid bit.\<close>

definition invalidate :: "u32 \<Rightarrow> u32 \<Rightarrow> sstate \<Rightarrow> sstate option" where
  "invalidate victimASID victimVPN s =
     (let j = unat (pte_index victimVPN);
          s = disable_interrupts s
      in case getSupportStruct victimASID s of
           Some (Some k) \<Rightarrow>
             if PAGE_TABLE_SIZE \<le> j then None
             else
               let s = set_entryLo k j
                         (entryLo (sup_pageTable (sups s k) j) AND NOT ENTRYLO_VALID) s;
                   s = setENTRYHI (entryHi (sup_pageTable (sups s k) j)) s;
                   s = do_TLBP s;
                   index = index_reg s;
                   s = (if index AND INDEX_P_BIT = 0 then
                          do_TLBWI (setENTRYLO (entryLo (sup_pageTable (sups s k) j))
                            (s\<lparr>index_reg := index AND INDEX_MASK\<rparr>))
                        else s)
               in Some (enable_interrupts s)
         | _ \<Rightarrow> None)"

text \<open>Step 6: a free frame, or a victim's frame after its page is saved.\<close>

definition obtain_frame :: "sstate \<Rightarrow> u32 act" where
  "obtain_frame s =
     (let frameIndex = getFreeFrame s
      in if frameIndex = - 1 then
           let (frameIndex, s) = pickVictimFrame s
           in if SWAP_POOL_SIZE \<le> unat frameIndex then Undefined
              else
                let victimASID = sw_asid (swapPool s (unat frameIndex));
                    victimVPN = sw_vpn (swapPool s (unat frameIndex))
                in when_some (invalidate victimASID victimVPN s) (\<lambda>s.
                     abind (writePageToBackingStore victimASID victimVPN frameIndex s) (\<lambda>_ s.
                       Done frameIndex s))
         else Done frameIndex s)"

text \<open>Steps 10 and 11: the swap pool entry, the page table entry and the TLB.\<close>

definition install_page :: "nat \<Rightarrow> u32 \<Rightarrow> u32 \<Rightarrow> u32 \<Rightarrow> u32 \<Rightarrow> sstate \<Rightarrow> sstate option" where
  "install_page k asid vpn pageIndex frameIndex s =
     (let s = s\<lparr>swapPool := (swapPool s)(unat frameIndex :=
            \<lparr>sw_asid = asid, sw_vpn = vpn, sw_occupied = 1\<rparr>)\<rparr>;
          s = disable_interrupts s
      in if PAGE_TABLE_SIZE \<le> unat pageIndex then None
         else
           let s = set_entryLo k (unat pageIndex)
                     ((RAM_START + (SWAP_POOL_START_FRAME * PAGESIZE) + (frameIndex * PAGESIZE))
                        OR ENTRYLO_VALID OR ENTRYLO_DIRTY) s
           in Some (enable_interrupts (do_TLBCLR s)))"

text \<open>The address of the running PCB: \<open>p_s\<close> is its seventh word.\<close>

definition pcb_addr :: "nat \<Rightarrow> sstate \<Rightarrow> u32" where
  "pcb_addr c s = state_addr (link s) c - 24"

definition pagerHandler :: "sstate \<Rightarrow> unit act" where
  "pagerHandler s =
     when_some (currentProcess s) (\<lambda>c.
       when_some (p_supportStruct (pcbTable s c)) (\<lambda>k.
         let asid = sup_asid (sups s k);
             cause = s_cause (load_state (SupState k PGFAULTEXCEPT) s) AND 0xFF
         in abind
           (if cause = 1 then
              abind (SYSCALL TERMINATEPROCESS (pcb_addr c s) 0 0 s) (\<lambda>_ s. Done () s)
            else Done () s) (\<lambda>_ s.
           abind (SYSCALL PASSEREN (swapPoolSem (link s)) 0 0 s) (\<lambda>_ s.
             let entryHi = s_entryHI (load_state (SupState k PGFAULTEXCEPT) s);
                 vpn = drop_bit VPNSHIFT (entryHi AND VPN_MASK);
                 pageIndex = pte_index vpn
             in abind (obtain_frame s) (\<lambda>frameIndex s.
               abind (loadPageFromBackingStore asid vpn frameIndex s) (\<lambda>_ s.
                 when_some (install_page k asid vpn pageIndex frameIndex s) (\<lambda>s.
                   abind (SYSCALL VERHOGEN (swapPoolSem (link s)) 0 0 s) (\<lambda>_ s.
                     load_and_leave (SupState k PGFAULTEXCEPT) s))))))))"

section \<open>Termination of a user process\<close>

text \<open>
  \<open>supTerminate\<close> of \<open>phase3/sysSupport.c\<close>, which the other parts of the support level call.  The
  condition of its loop reads \<open>currentProcess\<close> for an occupied frame only.
\<close>

fun free_owned :: "nat list \<Rightarrow> sstate \<Rightarrow> sstate option" where
  "free_owned [] s = Some s"
| "free_owned (i # is) s =
     (if sw_occupied (swapPool s i) \<noteq> 0 then
        case current_support s of
          None \<Rightarrow> None
        | Some k \<Rightarrow> free_owned is
            (if sw_asid (swapPool s i) = sup_asid (sups s k) then freeFrame i s else s)
      else free_owned is s)"

definition supTerminate :: "sstate \<Rightarrow> unit act" where
  "supTerminate s =
     when_some (free_owned [0..<SWAP_POOL_SIZE] s) (\<lambda>s.
       abind (SYSCALL VERHOGEN (masterSemaphore (link s)) 0 0 s) (\<lambda>_ s.
         when_some (current_support s) (\<lambda>k.
           abind (SYSCALL TERMINATEPROCESS 0 0 0 (freeSupportStruct k s)) (\<lambda>_ s. Done () s))))"

end
