(* ===== verification/DelayDaemon.thy ===== *)
theory DelayDaemon
  imports VmSupport
begin

text \<open>
  \<open>phase3/delayDaemon.c\<close>: the delay system call, the daemon, and their data, the active delay list
  (ADL), sorted by wake time and closed by a dummy node, and the free list of delay descriptors.
\<close>

section \<open>The active delay list\<close>

text \<open>
  A \<open>delayd_t **\<close> points to \<open>delayd_h\<close> (\<open>NULL\<close> here) or to the \<open>d_next\<close> of a node.
\<close>

definition adl_get :: "ptr \<Rightarrow> sstate \<Rightarrow> ptr" where
  "adl_get loc s = (case loc of None \<Rightarrow> delayd_h s | Some j \<Rightarrow> d_next (delaydTable s j))"

definition set_d_next :: "nat \<Rightarrow> ptr \<Rightarrow> sstate \<Rightarrow> sstate" where
  "set_d_next j v s = s\<lparr>delaydTable := (delaydTable s)(j := (delaydTable s j)\<lparr>d_next := v\<rparr>)\<rparr>"

definition adl_set :: "ptr \<Rightarrow> ptr \<Rightarrow> sstate \<Rightarrow> sstate" where
  "adl_set loc v s = (case loc of None \<Rightarrow> s\<lparr>delayd_h := v\<rparr> | Some j \<Rightarrow> set_d_next j v s)"

text \<open>The loop \<open>while ((*ptr)->d_wakeTime < node->d_wakeTime) ptr = &(*ptr)->d_next;\<close>\<close>

partial_function (option) find_slot :: "u32 \<Rightarrow> ptr \<Rightarrow> sstate \<Rightarrow> ptr option" where
  "find_slot w loc s = do {
     i \<leftarrow> adl_get loc s;
     (if sint (d_wakeTime (delaydTable s i)) < sint w then find_slot w (Some i) s else Some loc)
   }"

text \<open>What \<open>supDelay\<close> does with its node \<open>n\<close> while it holds the lock.\<close>

definition schedule_wakeup :: "u32 \<Rightarrow> nat \<Rightarrow> nat \<Rightarrow> sstate \<Rightarrow> sstate option" where
  "schedule_wakeup secCnt k n s =
     (let s = s\<lparr>delaydFree_h := d_next (delaydTable s n)\<rparr>;
          (currTime, s) = STCK s;
          w = currTime + (secCnt * SECOND);
          s = s\<lparr>delaydTable := (delaydTable s)(n := (delaydTable s n)
                \<lparr>d_wakeTime := w, d_supStruct := Some k\<rparr>)\<rparr>
      in do {
        loc \<leftarrow> find_slot w NULL s;
        Some (adl_set loc (Some n) (set_d_next n (adl_get loc s) s))
      })"

definition supDelay :: "u32 \<Rightarrow> sstate \<Rightarrow> unit act" where
  "supDelay secCnt s =
     abind (get_support s) (\<lambda>k s.
     abind (if sint secCnt < 0 then supTerminate s else Done () s) (\<lambda>_ s.
     abind (SYSCALL PASSEREN (ADLsem (link s)) 0 0 s) (\<lambda>_ s.
       let node = delaydFree_h s
       in abind
         (if node = NULL then
            abind (SYSCALL VERHOGEN (ADLsem (link s)) 0 0 s) (\<lambda>_ s. supTerminate s)
          else Done () s) (\<lambda>_ s.
         when_some node (\<lambda>n.
         when_some (schedule_wakeup secCnt k n s) (\<lambda>s.
         abind (SYSCALL VERHOGEN (ADLsem (link s)) 0 0 s) (\<lambda>_ s.
         abind (SYSCALL PASSEREN (sup_privateSem (link s) k) 0 0 s) (\<lambda>_ s.
           load_and_leave (SupState k GENERALEXCEPT) s))))))))"

section \<open>The daemon\<close>

text \<open>The node \<open>i\<close> leaves the ADL for the free list.\<close>

definition recycle :: "ptr \<Rightarrow> nat \<Rightarrow> sstate \<Rightarrow> sstate" where
  "recycle prev i s =
     (let cur = d_next (delaydTable s i);
          s = (case prev of None \<Rightarrow> s\<lparr>delayd_h := cur\<rparr> | Some p \<Rightarrow> set_d_next p cur s);
          s = set_d_next i (delaydFree_h s) s
      in s\<lparr>delaydFree_h := Some i\<rparr>)"

text \<open>
  The inner loop, with a bound on its rounds; \<open>prev\<close> keeps the value it has before the loop.
\<close>

primrec wake_expired :: "nat \<Rightarrow> u32 \<Rightarrow> ptr \<Rightarrow> ptr \<Rightarrow> sstate \<Rightarrow> unit act" where
  "wake_expired 0 currTime prev cur s = Undefined"
| "wake_expired (Suc n) currTime prev cur s =
     (case cur of
        None \<Rightarrow> Done () s
      | Some i \<Rightarrow>
          (case d_supStruct (delaydTable s i) of
             None \<Rightarrow> Done () s
           | Some k \<Rightarrow>
               if sint (d_wakeTime (delaydTable s i)) \<le> sint currTime then
                 abind (SYSCALL VERHOGEN (sup_privateSem (link s) k) 0 0 s) (\<lambda>_ s.
                   wake_expired n currTime prev (d_next (delaydTable s i)) (recycle prev i s))
               else Done () s))"

abbreviation (input) adl_fuel :: nat where "adl_fuel \<equiv> DELAY_LIST_SIZE + 1"

text \<open>One round of \<open>while (TRUE)\<close>, and the first \<open>n\<close> rounds of the daemon.\<close>

definition delay_round :: "sstate \<Rightarrow> unit act" where
  "delay_round s =
     abind (SYSCALL WAITCLOCK 0 0 0 s) (\<lambda>_ s.
     abind (SYSCALL PASSEREN (ADLsem (link s)) 0 0 s) (\<lambda>_ s.
       let (currTime, s) = STCK s
       in abind (wake_expired adl_fuel currTime NULL (delayd_h s) s) (\<lambda>_ s.
            abind (SYSCALL VERHOGEN (ADLsem (link s)) 0 0 s) (\<lambda>_ s. Done () s))))"

primrec delayDaemon :: "nat \<Rightarrow> sstate \<Rightarrow> unit act" where
  "delayDaemon 0 s = Done () s"
| "delayDaemon (Suc n) s = abind (delay_round s) (\<lambda>_ s. delayDaemon n s)"

section \<open>Initialisation\<close>

definition init_delayd :: "sstate \<Rightarrow> sstate" where
  "init_delayd s =
     (let s = s\<lparr>delayd_h := NULL, delaydFree_h := NULL\<rparr>;
          s = foldl (\<lambda>s i. (set_d_next i (delaydFree_h s) s)\<lparr>delaydFree_h := Some i\<rparr>)
                s [0..<DELAY_LIST_SIZE - 1];
          dummy = DELAY_LIST_SIZE - 1
      in s\<lparr>delaydTable := (delaydTable s)(dummy :=
             \<lparr>d_next = NULL, d_wakeTime = MAXINT, d_supStruct = NULL\<rparr>),
           delayd_h := Some dummy\<rparr>)"

definition initADL :: "sstate \<Rightarrow> (sstate, unit) kres" where
  "initADL s = kthen (lift (allocPcb (init_delayd s))) (\<lambda>ddProc s.
     case ddProc of
       None \<Rightarrow> Exit PANIC s
     | Some d \<Rightarrow>
         let st = p_s (pcbTable s d);
             st = st\<lparr>s_pc := delayDaemon_addr (link s)\<rparr>;
             st = set_reg r_t9 (delayDaemon_addr (link s)) st;
             st = set_reg r_sp (stack_below 2 s) st;
             st = st\<lparr>s_status := KERNEL_STATUS, s_entryHI := 0\<rparr>;
             s = s\<lparr>pcbTable := (pcbTable s)(d := (pcbTable s d)
                   \<lparr>p_s := st, p_supportStruct := NULL\<rparr>)\<rparr>
         in make_ready ddProc s)"

text \<open>\<open>initPhase3Resources\<close> of \<open>phase3/initProc.c\<close>, which starts the daemon.\<close>

primrec init_device_sems :: "nat list \<Rightarrow> sstate \<Rightarrow> sstate" where
  "init_device_sems [] s = s"
| "init_device_sems (i # is) s =
     (let s = store_word (printerSem (link s) + 4 * of_nat i) 1 s;
          s = store_word (termReadSem (link s) + 4 * of_nat i) 1 s;
          s = store_word (termWriteSem (link s) + 4 * of_nat i) 1 s
      in init_device_sems is s)"

definition initPhase3Resources :: "sstate \<Rightarrow> (sstate, unit) kres" where
  "initPhase3Resources s =
     (let s = initSwapPool s;
          s = store_word (swapPoolSem (link s)) 1 s;
          s = init_device_sems [0..<UPROCMAX] s
      in initADL s)"

end
