(* ===== verification/DeviceSupportDMA.thy ===== *)
theory DeviceSupportDMA
  imports DelayDaemon
begin

text \<open>
  \<open>phase3/deviceSupportDMA.c\<close>: block input and output of the disks and flash devices through DMA
  frames.  \<open>supTerminate\<close> does not return, so the code after a failed check of the source runs
  only in the model's text, as it does in the source's.
\<close>

text \<open>\<open>if (bad) supTerminate();\<close>\<close>

definition terminate_if :: "bool \<Rightarrow> sstate \<Rightarrow> unit act" where
  "terminate_if bad s = (if bad then supTerminate s else Done () s)"

text \<open>The loop \<open>for (i = 0; i < n; i++) to[i] = from[i]\<close>.\<close>

definition copy_block :: "u32 \<Rightarrow> u32 \<Rightarrow> sstate \<Rightarrow> sstate" where
  "copy_block to from s = s\<lparr>bytes := memcopy to from (unat PAGESIZE) (bytes s)\<rparr>"

definition dma_addr :: "u32 \<Rightarrow> u32 \<Rightarrow> u32" where
  "dma_addr start num = RAM_START + (start + num) * PAGESIZE"

section \<open>Disks\<close>

definition disk_geometry :: "u32 \<Rightarrow> u32 \<times> u32 \<times> u32" where
  "disk_geometry geometry =
     (drop_bit 16 geometry AND 0xFFFF, drop_bit 8 geometry AND 0xFF, geometry AND 0xFF)"

text \<open>
  Cylinder, head and sector of a block: signed divisions that round towards 0; \<open>None\<close> is a
  division by 0.
\<close>

definition disk_position :: "u32 \<Rightarrow> u32 \<Rightarrow> u32 \<Rightarrow> (u32 \<times> u32 \<times> u32) option" where
  "disk_position blockNum maxHead maxSect =
     (if maxHead * maxSect = 0 then None
      else
        let cyl = word_of_int (sint blockNum sdiv sint (maxHead * maxSect));
            rem = word_of_int (sint blockNum smod sint (maxHead * maxSect)) :: u32;
            head = word_of_int (sint rem sdiv sint maxSect);
            sect = word_of_int (sint rem smod sint maxSect)
        in Some (cyl, head, sect))"

text \<open>
  From the geometry to the second \<open>WAITIO\<close>: both disk routines issue \<open>SEEKCYL\<close> and then
  \<open>command\<close>.  The result is the status of the second request.
\<close>

definition disk_transfer :: "u32 \<Rightarrow> u32 \<Rightarrow> u32 \<Rightarrow> sstate \<Rightarrow> u32 act" where
  "disk_transfer command diskNum blockNum s =
     (let disk = DEV_REG_ADDR DISKINT diskNum;
          (maxCyl, maxHead, maxSect) = disk_geometry (mem s (d_data1 disk))
      in when_some (disk_position blockNum maxHead maxSect) (\<lambda>(cyl, head, sect).
         abind (terminate_if (sint maxCyl \<le> sint cyl \<or> sint maxHead \<le> sint head
             \<or> sint maxSect \<le> sint sect) s) (\<lambda>_ s.
         let s = store_word (d_data0 disk) (dma_addr DMA_DISK_START_FRAME diskNum) s;
             s = store_word (d_command disk) (push_bit 8 cyl OR SEEKCYL) s
         in abind (SYSCALL WAITIO DISKINT diskNum 0 s) (\<lambda>status s.
         abind (terminate_if (status \<noteq> DEVICE_READY) s) (\<lambda>_ s.
         let s = store_word (d_command disk)
                   (push_bit 24 head OR push_bit 16 sect OR command) s
         in SYSCALL WAITIO DISKINT diskNum 0 s)))))"

text \<open>
  \<open>if ((status & STATUS_MASK) != DEVICE_READY) { state->s_v0 = -status; LDST(state); }\<close>
\<close>

definition leave_on_error :: "nat \<Rightarrow> u32 \<Rightarrow> sstate \<Rightarrow> unit act" where
  "leave_on_error k status s =
     (if status AND STATUS_MASK \<noteq> DEVICE_READY then
        load_and_leave (SupState k GENERALEXCEPT)
          (set_state_reg (SupState k GENERALEXCEPT) r_v0 (- status) s)
      else Done () s)"

definition leave_ready :: "nat \<Rightarrow> sstate \<Rightarrow> unit act" where
  "leave_ready k s = load_and_leave (SupState k GENERALEXCEPT)
     (set_state_reg (SupState k GENERALEXCEPT) r_v0 DEVICE_READY s)"

definition dmaWriteDisk :: "u32 \<Rightarrow> u32 \<Rightarrow> u32 \<Rightarrow> sstate \<Rightarrow> unit act" where
  "dmaWriteDisk diskNum blockNum srcAddr s =
     abind (get_support s) (\<lambda>k s.
     abind (terminate_if (sint diskNum < 0 \<or> 8 \<le> sint diskNum) s) (\<lambda>_ s.
       let s = copy_block (dma_addr DMA_DISK_START_FRAME diskNum) srcAddr s
       in abind (disk_transfer WRITEBLK diskNum blockNum s) (\<lambda>status s.
            abind (leave_on_error k status s) (\<lambda>_ s. leave_ready k s))))"

definition dmaReadDisk :: "u32 \<Rightarrow> u32 \<Rightarrow> u32 \<Rightarrow> sstate \<Rightarrow> unit act" where
  "dmaReadDisk diskNum blockNum destAddr s =
     abind (get_support s) (\<lambda>k s.
     abind (terminate_if (sint diskNum < 0 \<or> 8 \<le> sint diskNum) s) (\<lambda>_ s.
     abind (disk_transfer READBLK diskNum blockNum s) (\<lambda>status s.
     abind (leave_on_error k status s) (\<lambda>_ s.
       leave_ready k (copy_block destAddr (dma_addr DMA_DISK_START_FRAME diskNum) s)))))"

section \<open>Flash devices\<close>

text \<open>The command with interrupts off, and the status of its \<open>WAITIO\<close>.\<close>

definition flash_command :: "u32 \<Rightarrow> u32 \<Rightarrow> u32 \<Rightarrow> sstate \<Rightarrow> u32 act" where
  "flash_command command flashNum blockNum s =
     (let flash = DEV_REG_ADDR FLASHINT flashNum;
          s = store_word (d_data0 flash) (dma_addr DMA_FLASH_START_FRAME flashNum) s;
          s = disable_interrupts s;
          s = store_word (d_command flash) (push_bit COMMAND_SHIFT blockNum OR command) s
      in abind (SYSCALL WAITIO FLASHINT flashNum 0 s) (\<lambda>status s.
           Done status (enable_interrupts s)))"

definition dmaReadFlash :: "u32 \<Rightarrow> u32 \<Rightarrow> u32 \<Rightarrow> sstate \<Rightarrow> unit act" where
  "dmaReadFlash flashNum blockNum destAddr s =
     abind (get_support s) (\<lambda>k s.
     abind (terminate_if (sint flashNum < 0 \<or> 8 \<le> sint flashNum) s) (\<lambda>_ s.
       let MAXBLOCK = mem s (d_data1 (DEV_REG_ADDR FLASHINT flashNum))
       in abind (terminate_if (sint blockNum < 0 \<or> sint MAXBLOCK \<le> sint blockNum) s) (\<lambda>_ s.
          abind (flash_command READBLK flashNum blockNum s) (\<lambda>status s.
          abind (leave_on_error k status s) (\<lambda>_ s.
            leave_ready k (copy_block destAddr (dma_addr DMA_FLASH_START_FRAME flashNum) s))))))"

definition dmaWriteFlash :: "u32 \<Rightarrow> u32 \<Rightarrow> u32 \<Rightarrow> sstate \<Rightarrow> unit act" where
  "dmaWriteFlash flashNum blockNum srcAddr s =
     abind (get_support s) (\<lambda>k s.
     abind (terminate_if (sint flashNum < 0 \<or> 8 \<le> sint flashNum) s) (\<lambda>_ s.
       let s = copy_block (dma_addr DMA_FLASH_START_FRAME flashNum) srcAddr s
       in abind (flash_command WRITEBLK flashNum blockNum s) (\<lambda>status s.
            abind (leave_on_error k status s) (\<lambda>_ s. leave_ready k s))))"

end
