(* ===== verification/SysSupport.thy ===== *)
theory SysSupport
  imports DeviceSupportDMA
begin

text \<open>
  \<open>phase3/sysSupport.c\<close>: the exception handler of the support level and the system calls 9 to 13;
  14 to 18 are dispatched to \<open>DeviceSupportDMA\<close> and \<open>DelayDaemon\<close>.  \<open>char\<close> is signed, so storing
  a character into a word extends its sign.
\<close>

section \<open>Time of day\<close>

definition supGetTOD :: "state_ref \<Rightarrow> sstate \<Rightarrow> unit act" where
  "supGetTOD exceptionState s =
     (let (currentTOD, s) = STCK s
      in load_and_leave exceptionState (set_state_reg exceptionState r_v0 currentTOD s))"

section \<open>Writing\<close>

text \<open>
  The error branch of the three device loops: the negated status goes to the caller, after the
  device's semaphore is released.
\<close>

definition device_error :: "nat \<Rightarrow> u32 \<Rightarrow> u32 \<Rightarrow> sstate \<Rightarrow> 'a act" where
  "device_error k sem status s =
     (let s = set_state_reg (SupState k GENERALEXCEPT) r_v0 (- status) s
      in abind (SYSCALL VERHOGEN sem 0 0 s) (\<lambda>_ s.
           load_and_leave (SupState k GENERALEXCEPT) s))"

text \<open>The end of the three: \<open>V\<close>, the count to \<open>v0\<close>, \<open>LDST\<close>.\<close>

definition device_done :: "nat \<Rightarrow> u32 \<Rightarrow> u32 \<Rightarrow> sstate \<Rightarrow> unit act" where
  "device_done k sem count s =
     abind (SYSCALL VERHOGEN sem 0 0 s) (\<lambda>_ s.
       load_and_leave (SupState k GENERALEXCEPT)
         (set_state_reg (SupState k GENERALEXCEPT) r_v0 count s))"

definition sem_of :: "u32 \<Rightarrow> u32 \<Rightarrow> u32" where
  "sem_of base lineNum = base + 4 * lineNum"

text \<open>\<open>len <= 0 || len > MAX_LEN || (memaddr)virtAddr < KUSEG\<close>\<close>

definition bad_string :: "u32 \<Rightarrow> u32 \<Rightarrow> bool" where
  "bad_string virtAddr len \<longleftrightarrow> sint len \<le> 0 \<or> int MAX_LEN < sint len \<or> virtAddr < KUSEG"

text \<open>
  The loop over the characters, which the two routines share: \<open>issue c\<close> gives the device its
  command for \<open>c\<close>, with interrupts off, \<open>req\<close> is the \<open>WAITIO\<close>, \<open>ok\<close> the status of success.
\<close>

primrec write_chars :: "(8 word \<Rightarrow> sstate \<Rightarrow> sstate) \<Rightarrow> sysreq \<Rightarrow> u32 \<Rightarrow> nat \<Rightarrow> u32
    \<Rightarrow> 8 word list \<Rightarrow> u32 \<Rightarrow> sstate \<Rightarrow> u32 act" where
  "write_chars issue req ok k sem [] n s = Done n s"
| "write_chars issue req ok k sem (c # cs) n s =
     Syscall req (issue c s) (\<lambda>status s.
       let s = enable_interrupts s
       in if status AND STATUS_MASK \<noteq> ok then device_error k sem status s
          else write_chars issue req ok k sem cs (n + 1) s)"

definition print_char :: "u32 \<Rightarrow> 8 word \<Rightarrow> sstate \<Rightarrow> sstate" where
  "print_char lineNum c s =
     (let printer = DEV_REG_ADDR PRNTINT lineNum;
          s = store_word (d_data0 printer) (scast c) s;
          s = disable_interrupts s
      in store_word (d_command printer) 2 s)"

definition send_char :: "u32 \<Rightarrow> 8 word \<Rightarrow> sstate \<Rightarrow> sstate" where
  "send_char lineNum c s =
     (let terminal = DEV_REG_ADDR TERMINT lineNum;
          s = store_word (t_transm_command terminal) (push_bit COMMAND_SHIFT (scast c) OR 2) s
      in disable_interrupts s)"

text \<open>
  The two routines differ in the semaphore array, the line, the way a character is issued, the third
  argument of \<open>WAITIO\<close> and the status of success.
\<close>

definition write_string :: "(link_map \<Rightarrow> u32) \<Rightarrow> (u32 \<Rightarrow> 8 word \<Rightarrow> sstate \<Rightarrow> sstate)
    \<Rightarrow> (u32 \<Rightarrow> sysreq) \<Rightarrow> u32 \<Rightarrow> sstate \<Rightarrow> unit act" where
  "write_string base issue req ok s =
     abind (get_support s) (\<lambda>k s.
       let st = load_state (SupState k GENERALEXCEPT) s;
           virtAddr = s_reg st r_a1;
           len = s_reg st r_a2
       in abind (terminate_if (bad_string virtAddr len) s) (\<lambda>_ s.
            let lineNum = sup_asid (sups s k) - 1
            in when_some (read_user virtAddr (unat len) s) (\<lambda>buffer.
               let sem = sem_of (base (link s)) lineNum
               in abind (SYSCALL PASSEREN sem 0 0 s) (\<lambda>_ s.
                  abind (write_chars (issue lineNum) (req lineNum) ok k sem buffer 0 s) (\<lambda>n s.
                    device_done k sem n s)))))"

definition supWriteToPrinter :: "sstate \<Rightarrow> unit act" where
  "supWriteToPrinter =
     write_string printerSem print_char (\<lambda>lineNum. (WAITIO, PRNTINT, lineNum, 0)) 1"

definition supWriteToTerminal :: "sstate \<Rightarrow> unit act" where
  "supWriteToTerminal =
     write_string termWriteSem send_char (\<lambda>lineNum. (WAITIO, TERMINT, lineNum, 1)) 5"

section \<open>Reading\<close>

text \<open>The \<open>do ... while\<close> loop; \<open>buffer\<close> holds the \<open>count\<close> characters read so far.\<close>

function read_chars :: "nat \<Rightarrow> u32 \<Rightarrow> u32 \<Rightarrow> 8 word list \<Rightarrow> sstate \<Rightarrow> 8 word list act" where
  "read_chars k lineNum sem buffer s =
     (let terminal = DEV_REG_ADDR TERMINT lineNum;
          s = store_word (t_recv_command terminal) 2 s;
          s = disable_interrupts s
      in abind (SYSCALL WAITIO TERMINT lineNum 1 s) (\<lambda>status s.
           let s = enable_interrupts s
           in if status AND STATUS_MASK \<noteq> 5 then device_error k sem status s
              else
                let ch = ucast (drop_bit COMMAND_SHIFT status AND STATUS_MASK);
                    buffer = buffer @ [ch]
                in if ch \<noteq> 10 \<and> length buffer < MAX_LEN then read_chars k lineNum sem buffer s
                   else Done buffer s))"
  by pat_completeness auto
termination
  by (relation "measure (\<lambda>(_, _, _, buffer, _). MAX_LEN - length buffer)") auto

declare read_chars.simps [simp del]

definition supReadTerminal :: "sstate \<Rightarrow> unit act" where
  "supReadTerminal s =
     abind (get_support s) (\<lambda>k s.
       let virtAddr = s_reg (load_state (SupState k GENERALEXCEPT) s) r_a1
       in abind (terminate_if (virtAddr < KUSEG) s) (\<lambda>_ s.
            let lineNum = sup_asid (sups s k) - 1;
                sem = sem_of (termReadSem (link s)) lineNum
            in abind (SYSCALL PASSEREN sem 0 0 s) (\<lambda>_ s.
               abind (read_chars k lineNum sem [] s) (\<lambda>buffer s.
                 device_done k sem (of_nat (length buffer)) (write_user virtAddr buffer s)))))"

section \<open>Dispatch\<close>

definition supportProgTrapHandler :: "sstate \<Rightarrow> unit act" where
  "supportProgTrapHandler s =
     abind (SYSCALL VERHOGEN (swapPoolSem (link s)) 0 0 s) (\<lambda>_ s. supTerminate s)"

definition supportSyscallHandler :: "state_ref \<Rightarrow> sstate \<Rightarrow> unit act" where
  "supportSyscallHandler r s =
     (let st = load_state r s;
          s = store_state r (st\<lparr>s_pc := s_pc st + 4\<rparr>) s;
          st = load_state r s;
          syscallNumber = s_reg st r_a0;
          a1 = s_reg st r_a1; a2 = s_reg st r_a2; a3 = s_reg st r_a3;
          ready = (\<lambda>_ s. Done () (set_state_reg r r_v0 DEVICE_READY s))
      in if syscallNumber = 9 then supTerminate s
         else if syscallNumber = 10 then supGetTOD r s
         else if syscallNumber = 11 then supWriteToPrinter s
         else if syscallNumber = 12 then supWriteToTerminal s
         else if syscallNumber = 13 then supReadTerminal s
         else if syscallNumber = 14 then abind (dmaReadDisk a2 a3 a1 s) ready
         else if syscallNumber = 15 then abind (dmaWriteDisk a2 a3 a1 s) ready
         else if syscallNumber = 16 then abind (dmaReadFlash a2 a3 a1 s) ready
         else if syscallNumber = 17 then abind (dmaWriteFlash a2 a3 a1 s) ready
         else if syscallNumber = 18 then supDelay a1 s
         else supTerminate s)"

definition supportGenExceptionHandler :: "sstate \<Rightarrow> unit act" where
  "supportGenExceptionHandler s =
     abind (get_support s) (\<lambda>k s.
       let code = exceptionCode (s_cause (load_state (SupState k GENERALEXCEPT) s))
       in if code \<in> {4, 5, 6, 7, 9, 10, 11, 12} then supportProgTrapHandler s
          else if code = 8 then supportSyscallHandler (SupState k GENERALEXCEPT) s
          else supTerminate s)"

end
