(* ===== verification/Initial.thy ===== *)
theory Initial
  imports SysSupport
begin

text \<open>\<open>phase3/initial.c\<close>: \<open>main\<close> and the creation of the first process.\<close>

abbreviation (input) PASSUPVECTOR :: u32 where "PASSUPVECTOR \<equiv> 0x0FFFF900"
abbreviation (input) PASSUP_STACK :: u32 where "PASSUP_STACK \<equiv> 0x20001000"

text \<open>The four words of the pass up vector.\<close>

definition init_passup :: "sstate \<Rightarrow> sstate" where
  "init_passup s =
     (let s = store_word PASSUPVECTOR (uTLB_RefillHandler_addr (link s)) s;
          s = store_word (PASSUPVECTOR + 4) PASSUP_STACK s;
          s = store_word (PASSUPVECTOR + 8) (exceptionHandler_addr (link s)) s
      in store_word (PASSUPVECTOR + 12) PASSUP_STACK s)"

definition init_devsems :: "sstate \<Rightarrow> sstate" where
  "init_devsems s = foldl (\<lambda>s i. store_word (devsem (of_nat i) s) 0 s) s [0..<unat NUM_DEVICES + 1]"

definition first_state :: "state_t \<Rightarrow> sstate \<Rightarrow> state_t" where
  "first_state st s =
     (let st = st\<lparr>s_status := IEPBITON OR IM OR TEBITON\<rparr>;
          st = set_reg r_sp (RAMTOP s) st;
          st = st\<lparr>s_pc := test_addr (link s)\<rparr>
      in set_reg r_t9 (test_addr (link s)) st)"

definition createProcess :: "sstate \<Rightarrow> (sstate, unit) kres" where
  "createProcess s = kthen (lift (allocPcb s)) (\<lambda>p s.
     case p of
       None \<Rightarrow> Exit PANIC s
     | Some i \<Rightarrow>
         let s = s\<lparr>pcbTable := (pcbTable s)(i := (pcbTable s i)
               \<lparr>p_s := first_state (p_s (pcbTable s i)) s\<rparr>)\<rparr>;
             s = s\<lparr>pcbTable := (pcbTable s)(i := (pcbTable s i)
               \<lparr>p_prnt := NULL, p_child := NULL, p_sib_left := NULL, p_sib_right := NULL,
                p_time := 0, p_semAdd := NULL_addr, p_supportStruct := NULL\<rparr>)\<rparr>
         in kthen (make_ready p s) (\<lambda>_ s. Ret () (s\<lparr>processCount := processCount s + 1\<rparr>)))"

definition main :: "sstate \<Rightarrow> (sstate, unit) kres" where
  "main s =
     (let s = s\<lparr>processCount := 0, softBlockCount := 0, readyQueue := mkEmptyProcQ,
                currentProcess := NULL\<rparr>;
          s = init_passup s;
          s = initPcbs s;
          s = initASL s;
          s = init_devsems s;
          s = LDIT CLOCKINTERVAL s
      in kthen (createProcess s) (\<lambda>_ s.
           let s = initSupportStructs s
           in kthen (initPhase3Resources s) (\<lambda>_ s.
              kthen (initUProcs s) (\<lambda>_ s.
              kthen (scheduler s) (\<lambda>_ s. Exit PANIC s)))))"

end
