(* ===== verification/SupportSpec.thy ===== *)
theory SupportSpec
  imports Initial
begin

text \<open>
  Shared facts on the programs of the support level: what the machine accesses change, the contract
  of their environment, and how runs go on.
\<close>

section \<open>What the machine accesses leave unchanged\<close>

lemma store_word_support [simp]:
  "swapPool (store_word a v s) = swapPool s" "swapIndex (store_word a v s) = swapIndex s"
  "delaydTable (store_word a v s) = delaydTable s" "delayd_h (store_word a v s) = delayd_h s"
  "delaydFree_h (store_word a v s) = delaydFree_h s"
  "asidProcessTable (store_word a v s) = asidProcessTable s"
  "supportFreeList (store_word a v s) = supportFreeList s" "bytes (store_word a v s) = bytes s"
  "index_reg (store_word a v s) = index_reg s" "tlbp_result (store_word a v s) = tlbp_result s"
  "tlb_ops (store_word a v s) = tlb_ops s"
  by (simp_all add: store_word_def)

lemma disable_interrupts_simps [simp]:
  "pcbTable (disable_interrupts s) = pcbTable s" "pcbFree_h (disable_interrupts s) = pcbFree_h s"
  "semdTable (disable_interrupts s) = semdTable s" "semd_h (disable_interrupts s) = semd_h s"
  "semdFree_h (disable_interrupts s) = semdFree_h s" "link (disable_interrupts s) = link s"
  "mem (disable_interrupts s) = mem s" "states (disable_interrupts s) = states s"
  "sups (disable_interrupts s) = sups s" "processCount (disable_interrupts s) = processCount s"
  "softBlockCount (disable_interrupts s) = softBlockCount s"
  "readyQueue (disable_interrupts s) = readyQueue s"
  "currentProcess (disable_interrupts s) = currentProcess s"
  "bios (disable_interrupts s) = bios s" "tod (disable_interrupts s) = tod s"
  "tod_n (disable_interrupts s) = tod_n s" "tlb_log (disable_interrupts s) = tlb_log s"
  "swapPool (disable_interrupts s) = swapPool s" "swapIndex (disable_interrupts s) = swapIndex s"
  "delaydTable (disable_interrupts s) = delaydTable s"
  "delayd_h (disable_interrupts s) = delayd_h s"
  "delaydFree_h (disable_interrupts s) = delaydFree_h s"
  "asidProcessTable (disable_interrupts s) = asidProcessTable s"
  "supportFreeList (disable_interrupts s) = supportFreeList s"
  "bytes (disable_interrupts s) = bytes s" "index_reg (disable_interrupts s) = index_reg s"
  "tlbp_result (disable_interrupts s) = tlbp_result s"
  "tlb_ops (disable_interrupts s) = tlb_ops s"
  by (simp_all add: disable_interrupts_def setSTATUS_def)

lemma enable_interrupts_simps [simp]:
  "pcbTable (enable_interrupts s) = pcbTable s" "pcbFree_h (enable_interrupts s) = pcbFree_h s"
  "semdTable (enable_interrupts s) = semdTable s" "semd_h (enable_interrupts s) = semd_h s"
  "semdFree_h (enable_interrupts s) = semdFree_h s" "link (enable_interrupts s) = link s"
  "mem (enable_interrupts s) = mem s" "states (enable_interrupts s) = states s"
  "sups (enable_interrupts s) = sups s" "processCount (enable_interrupts s) = processCount s"
  "softBlockCount (enable_interrupts s) = softBlockCount s"
  "readyQueue (enable_interrupts s) = readyQueue s"
  "currentProcess (enable_interrupts s) = currentProcess s" "bios (enable_interrupts s) = bios s"
  "tod (enable_interrupts s) = tod s" "tod_n (enable_interrupts s) = tod_n s"
  "tlb_log (enable_interrupts s) = tlb_log s" "swapPool (enable_interrupts s) = swapPool s"
  "swapIndex (enable_interrupts s) = swapIndex s"
  "delaydTable (enable_interrupts s) = delaydTable s"
  "delayd_h (enable_interrupts s) = delayd_h s"
  "delaydFree_h (enable_interrupts s) = delaydFree_h s"
  "asidProcessTable (enable_interrupts s) = asidProcessTable s"
  "supportFreeList (enable_interrupts s) = supportFreeList s"
  "bytes (enable_interrupts s) = bytes s" "index_reg (enable_interrupts s) = index_reg s"
  "tlbp_result (enable_interrupts s) = tlbp_result s" "tlb_ops (enable_interrupts s) = tlb_ops s"
  by (simp_all add: enable_interrupts_def setSTATUS_def)

lemma setENTRYHI_simps [simp]:
  "pcbTable (setENTRYHI v s) = pcbTable s" "pcbFree_h (setENTRYHI v s) = pcbFree_h s"
  "semdTable (setENTRYHI v s) = semdTable s" "semd_h (setENTRYHI v s) = semd_h s"
  "semdFree_h (setENTRYHI v s) = semdFree_h s" "link (setENTRYHI v s) = link s"
  "mem (setENTRYHI v s) = mem s" "states (setENTRYHI v s) = states s"
  "sups (setENTRYHI v s) = sups s" "processCount (setENTRYHI v s) = processCount s"
  "softBlockCount (setENTRYHI v s) = softBlockCount s"
  "readyQueue (setENTRYHI v s) = readyQueue s"
  "currentProcess (setENTRYHI v s) = currentProcess s" "bios (setENTRYHI v s) = bios s"
  "tod (setENTRYHI v s) = tod s" "tod_n (setENTRYHI v s) = tod_n s"
  "tlb_log (setENTRYHI v s) = tlb_log s" "swapPool (setENTRYHI v s) = swapPool s"
  "swapIndex (setENTRYHI v s) = swapIndex s" "delaydTable (setENTRYHI v s) = delaydTable s"
  "delayd_h (setENTRYHI v s) = delayd_h s" "delaydFree_h (setENTRYHI v s) = delaydFree_h s"
  "asidProcessTable (setENTRYHI v s) = asidProcessTable s"
  "supportFreeList (setENTRYHI v s) = supportFreeList s" "bytes (setENTRYHI v s) = bytes s"
  "index_reg (setENTRYHI v s) = index_reg s" "tlbp_result (setENTRYHI v s) = tlbp_result s"
  "tlb_ops (setENTRYHI v s) = tlb_ops s"
  by (simp_all add: setENTRYHI_def)

lemma setENTRYLO_simps [simp]:
  "pcbTable (setENTRYLO v s) = pcbTable s" "pcbFree_h (setENTRYLO v s) = pcbFree_h s"
  "semdTable (setENTRYLO v s) = semdTable s" "semd_h (setENTRYLO v s) = semd_h s"
  "semdFree_h (setENTRYLO v s) = semdFree_h s" "link (setENTRYLO v s) = link s"
  "mem (setENTRYLO v s) = mem s" "states (setENTRYLO v s) = states s"
  "sups (setENTRYLO v s) = sups s" "processCount (setENTRYLO v s) = processCount s"
  "softBlockCount (setENTRYLO v s) = softBlockCount s"
  "readyQueue (setENTRYLO v s) = readyQueue s"
  "currentProcess (setENTRYLO v s) = currentProcess s" "bios (setENTRYLO v s) = bios s"
  "tod (setENTRYLO v s) = tod s" "tod_n (setENTRYLO v s) = tod_n s"
  "tlb_log (setENTRYLO v s) = tlb_log s" "swapPool (setENTRYLO v s) = swapPool s"
  "swapIndex (setENTRYLO v s) = swapIndex s" "delaydTable (setENTRYLO v s) = delaydTable s"
  "delayd_h (setENTRYLO v s) = delayd_h s" "delaydFree_h (setENTRYLO v s) = delaydFree_h s"
  "asidProcessTable (setENTRYLO v s) = asidProcessTable s"
  "supportFreeList (setENTRYLO v s) = supportFreeList s" "bytes (setENTRYLO v s) = bytes s"
  "index_reg (setENTRYLO v s) = index_reg s" "tlbp_result (setENTRYLO v s) = tlbp_result s"
  "tlb_ops (setENTRYLO v s) = tlb_ops s"
  by (simp_all add: setENTRYLO_def)

lemma do_TLBCLR_simps [simp]:
  "pcbTable (do_TLBCLR s) = pcbTable s" "pcbFree_h (do_TLBCLR s) = pcbFree_h s"
  "semdTable (do_TLBCLR s) = semdTable s" "semd_h (do_TLBCLR s) = semd_h s"
  "semdFree_h (do_TLBCLR s) = semdFree_h s" "link (do_TLBCLR s) = link s"
  "mem (do_TLBCLR s) = mem s" "states (do_TLBCLR s) = states s" "sups (do_TLBCLR s) = sups s"
  "processCount (do_TLBCLR s) = processCount s" "softBlockCount (do_TLBCLR s) = softBlockCount s"
  "readyQueue (do_TLBCLR s) = readyQueue s" "currentProcess (do_TLBCLR s) = currentProcess s"
  "bios (do_TLBCLR s) = bios s" "cpu (do_TLBCLR s) = cpu s" "tod (do_TLBCLR s) = tod s"
  "tod_n (do_TLBCLR s) = tod_n s" "tlb_log (do_TLBCLR s) = tlb_log s"
  "swapPool (do_TLBCLR s) = swapPool s" "swapIndex (do_TLBCLR s) = swapIndex s"
  "delaydTable (do_TLBCLR s) = delaydTable s" "delayd_h (do_TLBCLR s) = delayd_h s"
  "delaydFree_h (do_TLBCLR s) = delaydFree_h s"
  "asidProcessTable (do_TLBCLR s) = asidProcessTable s"
  "supportFreeList (do_TLBCLR s) = supportFreeList s" "bytes (do_TLBCLR s) = bytes s"
  "index_reg (do_TLBCLR s) = index_reg s" "tlbp_result (do_TLBCLR s) = tlbp_result s"
  by (simp_all add: do_TLBCLR_def)

lemma do_TLBP_simps [simp]:
  "pcbTable (do_TLBP s) = pcbTable s" "pcbFree_h (do_TLBP s) = pcbFree_h s"
  "semdTable (do_TLBP s) = semdTable s" "semd_h (do_TLBP s) = semd_h s"
  "semdFree_h (do_TLBP s) = semdFree_h s" "link (do_TLBP s) = link s" "mem (do_TLBP s) = mem s"
  "states (do_TLBP s) = states s" "sups (do_TLBP s) = sups s"
  "processCount (do_TLBP s) = processCount s" "softBlockCount (do_TLBP s) = softBlockCount s"
  "readyQueue (do_TLBP s) = readyQueue s" "currentProcess (do_TLBP s) = currentProcess s"
  "bios (do_TLBP s) = bios s" "cpu (do_TLBP s) = cpu s" "tod (do_TLBP s) = tod s"
  "tod_n (do_TLBP s) = tod_n s" "tlb_log (do_TLBP s) = tlb_log s"
  "swapPool (do_TLBP s) = swapPool s" "swapIndex (do_TLBP s) = swapIndex s"
  "delaydTable (do_TLBP s) = delaydTable s" "delayd_h (do_TLBP s) = delayd_h s"
  "delaydFree_h (do_TLBP s) = delaydFree_h s" "asidProcessTable (do_TLBP s) = asidProcessTable s"
  "supportFreeList (do_TLBP s) = supportFreeList s" "bytes (do_TLBP s) = bytes s"
  "tlbp_result (do_TLBP s) = tlbp_result s"
  by (simp_all add: do_TLBP_def)

lemma do_TLBWI_simps [simp]:
  "pcbTable (do_TLBWI s) = pcbTable s" "pcbFree_h (do_TLBWI s) = pcbFree_h s"
  "semdTable (do_TLBWI s) = semdTable s" "semd_h (do_TLBWI s) = semd_h s"
  "semdFree_h (do_TLBWI s) = semdFree_h s" "link (do_TLBWI s) = link s" "mem (do_TLBWI s) = mem s"
  "states (do_TLBWI s) = states s" "sups (do_TLBWI s) = sups s"
  "processCount (do_TLBWI s) = processCount s" "softBlockCount (do_TLBWI s) = softBlockCount s"
  "readyQueue (do_TLBWI s) = readyQueue s" "currentProcess (do_TLBWI s) = currentProcess s"
  "bios (do_TLBWI s) = bios s" "cpu (do_TLBWI s) = cpu s" "tod (do_TLBWI s) = tod s"
  "tod_n (do_TLBWI s) = tod_n s" "tlb_log (do_TLBWI s) = tlb_log s"
  "swapPool (do_TLBWI s) = swapPool s" "swapIndex (do_TLBWI s) = swapIndex s"
  "delaydTable (do_TLBWI s) = delaydTable s" "delayd_h (do_TLBWI s) = delayd_h s"
  "delaydFree_h (do_TLBWI s) = delaydFree_h s"
  "asidProcessTable (do_TLBWI s) = asidProcessTable s"
  "supportFreeList (do_TLBWI s) = supportFreeList s" "bytes (do_TLBWI s) = bytes s"
  "index_reg (do_TLBWI s) = index_reg s" "tlbp_result (do_TLBWI s) = tlbp_result s"
  by (simp_all add: do_TLBWI_def)

lemma set_state_reg_simps [simp]:
  "pcbTable (set_state_reg (SupState k j) n v s) = pcbTable s"
  "pcbFree_h (set_state_reg (SupState k j) n v s) = pcbFree_h s"
  "semdTable (set_state_reg (SupState k j) n v s) = semdTable s"
  "semd_h (set_state_reg (SupState k j) n v s) = semd_h s"
  "semdFree_h (set_state_reg (SupState k j) n v s) = semdFree_h s"
  "link (set_state_reg (SupState k j) n v s) = link s"
  "mem (set_state_reg (SupState k j) n v s) = mem s"
  "states (set_state_reg (SupState k j) n v s) = states s"
  "processCount (set_state_reg (SupState k j) n v s) = processCount s"
  "softBlockCount (set_state_reg (SupState k j) n v s) = softBlockCount s"
  "readyQueue (set_state_reg (SupState k j) n v s) = readyQueue s"
  "currentProcess (set_state_reg (SupState k j) n v s) = currentProcess s"
  "bios (set_state_reg (SupState k j) n v s) = bios s"
  "cpu (set_state_reg (SupState k j) n v s) = cpu s"
  "tod (set_state_reg (SupState k j) n v s) = tod s"
  "tod_n (set_state_reg (SupState k j) n v s) = tod_n s"
  "tlb_log (set_state_reg (SupState k j) n v s) = tlb_log s"
  "swapPool (set_state_reg (SupState k j) n v s) = swapPool s"
  "swapIndex (set_state_reg (SupState k j) n v s) = swapIndex s"
  "delaydTable (set_state_reg (SupState k j) n v s) = delaydTable s"
  "delayd_h (set_state_reg (SupState k j) n v s) = delayd_h s"
  "delaydFree_h (set_state_reg (SupState k j) n v s) = delaydFree_h s"
  "asidProcessTable (set_state_reg (SupState k j) n v s) = asidProcessTable s"
  "supportFreeList (set_state_reg (SupState k j) n v s) = supportFreeList s"
  "bytes (set_state_reg (SupState k j) n v s) = bytes s"
  "index_reg (set_state_reg (SupState k j) n v s) = index_reg s"
  "tlbp_result (set_state_reg (SupState k j) n v s) = tlbp_result s"
  "tlb_ops (set_state_reg (SupState k j) n v s) = tlb_ops s"
  by (simp_all add: set_state_reg_def store_state_def)

lemma cpu_simps [simp]:
  "entryHi_reg (cpu (disable_interrupts s)) = entryHi_reg (cpu s)"
  "entryHi_reg (cpu (enable_interrupts s)) = entryHi_reg (cpu s)"
  "entryHi_reg (cpu (setENTRYHI v s)) = v" "entryHi_reg (cpu (setENTRYLO v s)) = entryHi_reg (cpu s)"
  "entryLo_reg (cpu (setENTRYLO v s)) = v"
  by (simp_all add: disable_interrupts_def enable_interrupts_def setENTRYHI_def setENTRYLO_def)

lemma load_state_simps [simp]:
  "load_state (SupState k j) s = sup_exceptState (sups s k) j"
  by (simp add: load_state_def)

lemma sups_set_state_reg [simp]:
  "sups (set_state_reg (SupState k j) n v s) = (sups s)(k := (sups s k)
     \<lparr>sup_exceptState := (sup_exceptState (sups s k))
        (j := set_reg n v (sup_exceptState (sups s k) j))\<rparr>)"
  by (simp add: set_state_reg_def store_state_def)

lemma pickVictimFrame_simps [simp]:
  "fst (pickVictimFrame s) = swapIndex s"
  by (simp add: pickVictimFrame_def Let_def)

section \<open>The environment\<close>

text \<open>
  What the process with support structure \<open>k\<close> can rely on when a system call returns to it: it
  runs again, with its own saved exception states, address space identifier and memory; and what
  other processes and devices may have changed: everything else.
\<close>

definition kept :: "nat \<Rightarrow> sstate \<Rightarrow> sstate \<Rightarrow> bool" where
  "kept k s s' \<longleftrightarrow> link s' = link s \<and> currentProcess s' = currentProcess s
    \<and> (\<forall>c. currentProcess s = Some c \<longrightarrow> p_supportStruct (pcbTable s' c) = p_supportStruct (pcbTable s c))
    \<and> sup_asid (sups s' k) = sup_asid (sups s k)
    \<and> sup_exceptState (sups s' k) = sup_exceptState (sups s k)
    \<and> (\<forall>a. KUSEG \<le> a \<longrightarrow> bytes s' a = bytes s a)"

definition cooperative :: "nat \<Rightarrow> env \<Rightarrow> bool" where
  "cooperative k h \<longleftrightarrow> (\<forall>i r s. kept k s (snd (h i r s))
    \<and> (fst r = GETSUPPORTPTR \<longrightarrow> fst (h i r s) = support_addr (link s) (Some k)))"

text \<open>The address of a support structure denotes it.\<close>

definition addressed :: "nat \<Rightarrow> sstate \<Rightarrow> bool" where
  "addressed k s \<longleftrightarrow> support_at (link s) (support_addr (link s) (Some k)) = Some k"

lemma kept_refl [simp]: "kept k s s"
  by (simp add: kept_def)

lemma kept_trans: "kept k s s' \<Longrightarrow> kept k s' s'' \<Longrightarrow> kept k s s''"
  by (simp add: kept_def)

lemma keptD:
  assumes "kept k s s'"
  shows "link s' = link s" "currentProcess s' = currentProcess s"
    "sup_asid (sups s' k) = sup_asid (sups s k)"
    "sup_exceptState (sups s' k) = sup_exceptState (sups s k)"
    "KUSEG \<le> a \<Longrightarrow> bytes s' a = bytes s a"
  using assms by (simp_all add: kept_def)

lemma cooperativeD:
  assumes "cooperative k h" and "h i r s = (v, s')"
  shows "kept k s s'" and "fst r = GETSUPPORTPTR \<Longrightarrow> v = support_addr (link s) (Some k)"
  using assms unfolding cooperative_def by (metis snd_conv, metis fst_conv)

lemma kept_current_support:
  assumes "kept k s s'"
  shows "current_support s' = current_support s"
  using assms by (cases "currentProcess s") (simp_all add: kept_def current_support_def)

section \<open>Runs\<close>

text \<open>A request that is answered, and the run of its continuation.\<close>

lemma run_step:
  assumes "fst r \<noteq> TERMINATEPROCESS" and "h i r s = (v, s')" and "run (k v s') h (Suc i) = (tr, res)"
  shows "run (Syscall r s k) h i = ((r, s) # tr, res)"
  using assms by simp

lemma after_Returned [simp]:
  "after ([], Returned x s) f = f x s 0"
  by (simp add: after_def split: prod.splits)

lemma after_final [simp]:
  "after (tr, Exited e s) f = (tr, Exited e s)" "after (tr, Terminated s) f = (tr, Terminated s)"
  "after (tr, Failed) f = (tr, Failed)"
  by (simp_all add: after_def)

lemma after_cons:
  "after (tr, Returned x s) f = (tr @ fst (f x s (length tr)), snd (f x s (length tr)))"
  by (simp add: after_def split: prod.splits)

text \<open>Sequencing: the first part returns, and the second goes on from there.\<close>

lemma run_abindI:
  assumes "run t h i = (tr, Returned x s)" and "run (f x s) h (i + length tr) = (tr', res)"
  shows "run (abind t f) h i = (tr @ tr', res)"
  using assms by (simp add: run_abind after_cons)

lemma run_get_support:
  assumes "cooperative k h" and "addressed k s"
  shows "\<exists>s'. kept k s s'
    \<and> (\<forall>f. run (abind (get_support s) f) h i =
        (case run (f k s') h (Suc i) of (tr, res) \<Rightarrow> (((GETSUPPORTPTR, 0, 0, 0), s) # tr, res)))"
proof -
  obtain v s' where h: "h i (GETSUPPORTPTR, 0, 0, 0) s = (v, s')" by fastforce
  note K = cooperativeD [OF assms(1) h]
  have "support_at (link s') v = Some k"
    using K(2) keptD(1) [OF K(1)] assms(2) by (simp add: addressed_def)
  then show ?thesis using h K(1) by (intro exI [of _ s']) (simp add: get_support_def)
qed

section \<open>A concrete environment\<close>

text \<open>
  For examples: the process with support structure \<open>k\<close> is alone, so its semaphore operations
  only count, and the device of line \<open>l\<close> answers with the status \<open>dev l\<close>, which it also shows in
  its status register.
\<close>

definition alone :: "nat \<Rightarrow> (u32 \<Rightarrow> u32) \<Rightarrow> env" where
  "alone k dev i r s = (case r of (n, a1, a2, a3) \<Rightarrow>
     if n = PASSEREN then (0, store_word a1 (mem s a1 - 1) s)
     else if n = VERHOGEN then (0, store_word a1 (mem s a1 + 1) s)
     else if n = WAITIO then (dev a1, store_word (d_status (DEV_REG_ADDR a1 a2)) (dev a1) s)
     else if n = GETSUPPORTPTR then (support_addr (link s) (Some k), s)
     else (0, s))"

lemma alone_cooperative: "cooperative k (alone k dev)"
  by (auto simp: cooperative_def alone_def kept_def split: prod.splits if_splits)

text \<open>A process that runs with support structure 0, in a machine that is otherwise cleared.\<close>

definition zero_sstate :: sstate where
  "zero_sstate = \<lparr>pcbTable = (\<lambda>_. zero_pcb), pcbFree_h = NULL, semdTable = (\<lambda>_. zero_semd),
     semd_h = NULL, semdFree_h = NULL, link = zero_link, mem = (\<lambda>_. 0), states = (\<lambda>_. zero_state),
     sups = (\<lambda>_. zero_support), processCount = 0, softBlockCount = 0, readyQueue = NULL,
     currentProcess = NULL, bios = zero_state,
     cpu = \<lparr>status_reg = 0, timer_reg = 0, entryHi_reg = 0, entryLo_reg = 0\<rparr>,
     tod = (\<lambda>n. of_nat n), tod_n = 0, tlb_log = [], swapPool = (\<lambda>_. empty_frame), swapIndex = 0,
     delaydTable = (\<lambda>_. \<lparr>d_next = NULL, d_wakeTime = 0, d_supStruct = NULL\<rparr>), delayd_h = NULL,
     delaydFree_h = NULL, asidProcessTable = (\<lambda>_. NULL), supportFreeList = NULL, bytes = (\<lambda>_. 0),
     index_reg = 0, tlbp_result = (\<lambda>_. 0), tlb_ops = []\<rparr>"

definition user_state :: "u32 \<Rightarrow> u32 \<Rightarrow> u32 \<Rightarrow> state_t" where
  "user_state a1 a2 a3 = set_reg r_a1 a1 (set_reg r_a2 a2 (set_reg r_a3 a3 zero_state))"

definition user_process :: "state_t \<Rightarrow> sstate" where
  "user_process st = zero_sstate
     \<lparr>currentProcess := Some 0, pcbTable := (\<lambda>_. zero_pcb\<lparr>p_supportStruct := Some 0\<rparr>),
      sups := (\<lambda>_. zero_support\<lparr>sup_asid := 1, sup_exceptState := (\<lambda>_. st)\<rparr>)\<rparr>"

lemma user_process_simps [simp]:
  "addressed 0 (user_process st)" "sup_asid (sups (user_process st) 0) = 1"
  "sup_exceptState (sups (user_process st) 0) j = st" "currentProcess (user_process st) = Some 0"
  "current_support (user_process st) = Some 0" "link (user_process st) = zero_link"
  by (simp_all add: user_process_def addressed_def zero_sstate_def zero_link_def current_support_def)

lemma user_state_simps [simp]:
  "s_reg (user_state a1 a2 a3) 4 = a1" "s_reg (user_state a1 a2 a3) 5 = a2"
  "s_reg (user_state a1 a2 a3) 6 = a3"
  by (simp_all add: user_state_def)

end
