(* ===== verification/SupportPool.thy ===== *)
theory SupportPool
  imports SupportSpec
begin

text \<open>
  The pool of support structures, and the end of a user process: what \<open>supTerminate\<close> gives back.
\<close>

section \<open>The pool of support structures\<close>

definition support_pool :: "sstate \<Rightarrow> nat list \<Rightarrow> bool" where
  "support_pool s xs \<longleftrightarrow> distinct xs \<and> slist (\<lambda>k. sup_next (sups s k)) (supportFreeList s) xs"

interpretation supports: node_pool support_pool "\<lambda>s. Some (allocSupportStruct s)"
  "\<lambda>k s. Some (freeSupportStruct k s)"
proof unfold_locales
  fix s xs x
  show "support_pool s xs \<Longrightarrow> distinct xs" by (simp add: support_pool_def)
  show "support_pool s [] \<Longrightarrow> Some (allocSupportStruct s) = Some (NULL, s)"
    by (simp add: support_pool_def allocSupportStruct_def)
  show "\<exists>s'. Some (allocSupportStruct s) = Some (Some x, s') \<and> support_pool s' xs"
    if "support_pool s (x # xs)"
    using that by (simp add: support_pool_def allocSupportStruct_def)
  show "\<exists>s'. Some (freeSupportStruct x s) = Some s' \<and> support_pool s' (x # xs)"
    if "support_pool s xs" "x \<notin> set xs"
  proof -
    have "slist (\<lambda>k. sup_next (((sups s)(x := (sups s x)\<lparr>sup_next := supportFreeList s\<rparr>)) k)) p ys
        = slist (\<lambda>k. sup_next (sups s k)) p ys" if "x \<notin> set ys" for p ys
      using that by (induction ys arbitrary: p) auto
    then show ?thesis using that by (simp add: support_pool_def freeSupportStruct_def)
  qed
qed

lemma initSupportStructs_steps:
  assumes "support_pool s xs" and "distinct ys" and "set ys \<inter> set xs = {}"
  shows "support_pool (foldl (\<lambda>s i. freeSupportStruct i s) s ys) (rev ys @ xs)"
  using assms
proof (induction ys arbitrary: s xs)
  case (Cons y ys)
  then have "support_pool (freeSupportStruct y s) (y # xs)"
    using supports.release_head [of s xs y] by auto
  then show ?case using Cons.IH [of "freeSupportStruct y s" "y # xs"] Cons.prems by auto
qed simp

lemma initSupportStructs_pool:
  assumes "supportFreeList s = NULL"
  shows "support_pool (initSupportStructs s) (rev [0..<UPROCMAX])"
proof -
  have "initSupportStructs s = foldl (\<lambda>s i. freeSupportStruct i s) s [0..<SUPPORT_STRUCT_POOL_SIZE]"
    by (simp add: initSupportStructs_def freeSupportStruct_def)
  moreover have "support_pool s []" using assms by (simp add: support_pool_def)
  ultimately show ?thesis
    using initSupportStructs_steps [of s "[]" "[0..<UPROCMAX]"] by simp
qed

section \<open>The end of a process\<close>

definition owned :: "u32 \<Rightarrow> swapPoolEntry_t \<Rightarrow> bool" where
  "owned asid e \<longleftrightarrow> sw_occupied e \<noteq> 0 \<and> sw_asid e = asid"

definition disowned :: "u32 \<Rightarrow> nat set \<Rightarrow> (nat \<Rightarrow> swapPoolEntry_t) \<Rightarrow> (nat \<Rightarrow> swapPoolEntry_t)" where
  "disowned asid I pool = (\<lambda>i. if i \<in> I \<and> owned asid (pool i) then empty_frame else pool i)"

lemma free_owned_spec:
  assumes "current_support s = Some k" and "asid = sup_asid (sups s k)"
  shows "free_owned is s = Some (s\<lparr>swapPool := disowned asid (set is) (swapPool s)\<rparr>)"
  using assms
proof (induction "is" arbitrary: s)
  case Nil
  then show ?case by (simp add: disowned_def)
next
  case (Cons i "is")
  let ?s = "freeFrame i s"
  have s: "current_support ?s = Some k" "sup_asid (sups ?s k) = asid"
    using Cons.prems by (simp_all add: freeFrame_def current_support_def rd_def)
  have e: "\<not> owned asid empty_frame" by (simp add: owned_def empty_frame_def)
  show ?case
  proof (cases "owned asid (swapPool s i)")
    case True
    have "disowned asid (set is) ((swapPool s)(i := empty_frame)) = disowned asid (set (i # is)) (swapPool s)"
      using True e by (auto simp: disowned_def fun_eq_iff)
    moreover have "free_owned (i # is) s = free_owned is ?s"
      using True Cons.prems by (simp add: owned_def)
    ultimately show ?thesis using Cons.IH [OF s(1) s(2) [symmetric]] by (simp add: freeFrame_def del: fun_upd_apply free_owned.simps)
  next
    case False
    have "disowned asid (set is) (swapPool s) = disowned asid (set (i # is)) (swapPool s)"
      using False by (auto simp: disowned_def fun_eq_iff)
    moreover have "free_owned (i # is) s = free_owned is s"
      using False Cons.prems by (auto simp: owned_def)
    ultimately show ?thesis using Cons.IH [OF Cons.prems] by simp
  qed
qed

lemma run_supTerminate:
  assumes h: "cooperative k h" and c: "current_support s = Some k"
  defines "s1 \<equiv> s\<lparr>swapPool := disowned (sup_asid (sups s k)) {..<SWAP_POOL_SIZE} (swapPool s)\<rparr>"
  shows "\<exists>t. kept k s1 t \<and> run (supTerminate s) h i =
    ([((VERHOGEN, masterSemaphore (link s), 0, 0), s1),
      ((TERMINATEPROCESS, 0, 0, 0), freeSupportStruct k t)], Terminated (freeSupportStruct k t))"
proof -
  have f: "free_owned [0..<SWAP_POOL_SIZE] s = Some s1"
    using free_owned_spec [OF c refl, of "[0..<SWAP_POOL_SIZE]"] by (simp add: s1_def lessThan_atLeast0)
  have "current_support s1 = Some k" using c by (simp add: s1_def current_support_def rd_def)
  moreover obtain v t where h1: "h i (VERHOGEN, masterSemaphore (link s), 0, 0) s1 = (v, t)" by fastforce
  moreover note K = cooperativeD(1) [OF h h1]
  ultimately have "current_support t = Some k" using kept_current_support by simp
  moreover have "link s1 = link s" by (simp add: s1_def)
  ultimately show ?thesis using f h1 K by (intro exI [of _ t]) (simp add: supTerminate_def)
qed

lemma run_checked:
  fixes f :: "nat \<Rightarrow> sstate \<Rightarrow> unit \<Rightarrow> sstate \<Rightarrow> unit act"
  assumes h: "cooperative k h" and a: "addressed k s" and c: "current_support s = Some k"
    and bad: "\<And>s'. kept k s s' \<Longrightarrow> bad k s'"
  shows "\<exists>tr s'. run (abind (get_support s) (\<lambda>k s. abind (terminate_if (bad k s) s) (f k s))) h i =
      (tr, Terminated s')
    \<and> map fst tr = [(GETSUPPORTPTR, 0, 0, 0), (VERHOGEN, masterSemaphore (link s), 0, 0),
        (TERMINATEPROCESS, 0, 0, 0)]"
proof -
  obtain s1 where s1: "kept k s s1" "\<And>f :: nat \<Rightarrow> sstate \<Rightarrow> unit act. run (abind (get_support s) f) h i =
      (case run (f k s1) h (Suc i) of (tr, res) \<Rightarrow> (((GETSUPPORTPTR, 0, 0, 0), s) # tr, res))"
    using run_get_support [OF h a, of i] by blast
  have "current_support s1 = Some k" using kept_current_support [OF s1(1)] c by simp
  then obtain s2 t where "run (supTerminate s1) h (Suc i) =
      ([((VERHOGEN, masterSemaphore (link s1), 0, 0), s2), ((TERMINATEPROCESS, 0, 0, 0), t)], Terminated t)"
    using run_supTerminate [OF h, of s1 "Suc i"] by blast
  then show ?thesis
    unfolding s1(2) using bad [OF s1(1)] keptD(1) [OF s1(1)] by (simp add: terminate_if_def run_abind)
qed

section \<open>Properties\<close>

text \<open>The static pool of support structures serves exactly the user processes: after its
  initialisation \<open>UPROCMAX\<close> allocations succeed, each with another structure, and the next one
  reports \<open>NULL\<close>.\<close>

theorem initSupportStructs_supply:
  assumes "supportFreeList s = NULL"
  shows "\<exists>s'. alloc_many (\<lambda>s. Some (allocSupportStruct s)) (UPROCMAX + 1) (initSupportStructs s) =
    Some (map Some (rev [0..<UPROCMAX]) @ [NULL], s')"
  using supports.exhausted [OF initSupportStructs_pool [OF assms]] by simp

theorem initSupportStructs_supply_witness:
  "\<exists>s'. alloc_many (\<lambda>s. Some (allocSupportStruct s)) 9 (initSupportStructs zero_sstate) =
    Some ([Some 7, Some 6, Some 5, Some 4, Some 3, Some 2, Some 1, Some 0, NULL], s')"
proof -
  have "rev [0..<8] = [7, 6, 5, 4, 3, 2, 1, 0 :: nat]" by (simp add: upt_rec)
  then show ?thesis
    using initSupportStructs_supply [of zero_sstate] by (simp add: zero_sstate_def)
qed

end
