(* ===== verification/DmaSpec.thy ===== *)
theory DmaSpec
  imports SupportPool
begin

text \<open>
  Block transfers: copying a block, the position of a block on a disk, and the runs of the four DMA
  system calls.
\<close>

section \<open>Copying\<close>

lemma memcopy_outside:
  "(\<And>j. j < n \<Longrightarrow> x \<noteq> d + of_nat j) \<Longrightarrow> memcopy d src n m x = m x"
proof (induction n arbitrary: d src m)
  case (Suc n)
  have "x \<noteq> d + 1 + of_nat j" if "j < n" for j
    using Suc.prems [of "Suc j"] that by (simp add: add.assoc)
  moreover have "x \<noteq> d" using Suc.prems [of 0] by simp
  ultimately show ?case using Suc.IH [of "d + 1"] by simp
qed simp

lemma memcopy_inside:
  assumes "n < 2 ^ 32" and "i < n" and "\<And>i j. i < n \<Longrightarrow> j < n \<Longrightarrow> src + of_nat j \<noteq> d + of_nat i"
  shows "memcopy d src n m (d + of_nat i) = m (src + of_nat i)"
  using assms
proof (induction n arbitrary: d src m i)
  case (Suc n)
  have sep: "src + 1 + of_nat j \<noteq> d + 1 + of_nat i" if "i < n" "j < n" for i j
    using Suc.prems(3) [of "Suc i" "Suc j"] that by (simp add: add.assoc)
  show ?case
  proof (cases i)
    case 0
    have "d \<noteq> d + 1 + of_nat j" if "j < n" for j
    proof -
      have "unat (of_nat (Suc j) :: u32) = Suc j"
        using that Suc.prems(1) by (intro unat_of_nat_small) simp
      then have "(of_nat (Suc j) :: u32) \<noteq> 0" by (metis nat.distinct(1) unsigned_0)
      then show ?thesis by (simp add: add.assoc)
    qed
    then show ?thesis using 0 memcopy_outside [of n d "d + 1"] by simp
  next
    case (Suc k)
    then have "memcopy (d + 1) (src + 1) n (m(d := m src)) (d + 1 + of_nat k) =
        (m(d := m src)) (src + 1 + of_nat k)"
      using Suc.prems(1,2) sep by (intro Suc.IH) simp_all
    moreover have "src + 1 + of_nat k \<noteq> d"
      using Suc.prems(3) [of 0 "Suc k"] Suc.prems(2) Suc by (simp add: add.assoc)
    ultimately show ?thesis using Suc by (simp add: add.assoc)
  qed
qed simp

lemma copy_block_simps [simp]:
  "link (copy_block to from s) = link s" "sups (copy_block to from s) = sups s"
  "mem (copy_block to from s) = mem s" "cpu (copy_block to from s) = cpu s"
  "pcbTable (copy_block to from s) = pcbTable s"
  "currentProcess (copy_block to from s) = currentProcess s"
  by (simp_all add: copy_block_def)

text \<open>The DMA frame \<open>f\<close> of a device, below the user segment, and a user block above it.\<close>

definition user_block :: "u32 \<Rightarrow> bool" where
  "user_block a \<longleftrightarrow> KUSEG \<le> a \<and> unat a + 4096 \<le> 2 ^ 32"

lemma user_block_addr:
  assumes "user_block a" and "i < 4096"
  shows "KUSEG \<le> a + of_nat i" and "unat (a + of_nat i) = unat a + i"
proof -
  have "unat (of_nat i :: u32) = i" using assms by (intro unat_of_nat_small) simp
  then show "unat (a + of_nat i) = unat a + i"
    using assms by (simp add: user_block_def unat_add_lem [THEN iffD1])
  then show "KUSEG \<le> a + of_nat i" using assms by (simp add: user_block_def word_le_nat_alt)
qed

lemma dma_frame_addr:
  assumes "unat num < 8" and "unat start \<le> 24" and "i < 4096"
  shows "dma_addr start num + of_nat i < KUSEG"
proof -
  have "unat (start + num) = unat start + unat num" using assms by (intro unat_add_lem [THEN iffD1]) simp
  then have m: "unat ((start + num) * PAGESIZE) = (unat start + unat num) * 4096"
    using assms by (subst unat_mult_lem [THEN iffD1]) simp_all
  then have d: "unat (dma_addr start num) = 2 ^ 29 + (unat start + unat num) * 4096"
    using assms unfolding dma_addr_def by (subst unat_add_lem [THEN iffD1]) simp_all
  have "unat (of_nat i :: u32) = i" using assms by (intro unat_of_nat_small) simp
  then have "unat (dma_addr start num + of_nat i) = 2 ^ 29 + (unat start + unat num) * 4096 + i"
    using assms d by (subst unat_add_lem [THEN iffD1]) simp_all
  then show ?thesis using assms by (simp add: word_less_nat_alt)
qed

lemma copy_out:
  assumes "user_block a" and "unat num < 8" "unat start \<le> 24"
  shows "i < 4096 \<Longrightarrow> bytes (copy_block a (dma_addr start num) s) (a + of_nat i) =
      bytes s (dma_addr start num + of_nat i)"
    and "(\<And>i. i < 4096 \<Longrightarrow> x \<noteq> a + of_nat i) \<Longrightarrow> bytes (copy_block a (dma_addr start num) s) x = bytes s x"
proof -
  have "dma_addr start num + of_nat j \<noteq> a + of_nat i" if "i < 4096" "j < 4096" for i j
    using user_block_addr(1) [OF assms(1) that(1)] dma_frame_addr [OF assms(2,3) that(2)] by auto
  then show "i < 4096 \<Longrightarrow> bytes (copy_block a (dma_addr start num) s) (a + of_nat i) =
      bytes s (dma_addr start num + of_nat i)"
    by (simp add: copy_block_def memcopy_inside)
  show "(\<And>i. i < 4096 \<Longrightarrow> x \<noteq> a + of_nat i) \<Longrightarrow> bytes (copy_block a (dma_addr start num) s) x = bytes s x"
    by (simp add: copy_block_def memcopy_outside)
qed

lemma copy_in:
  assumes "user_block a" and "unat num < 8" "unat start \<le> 24"
  shows "i < 4096 \<Longrightarrow> bytes (copy_block (dma_addr start num) a s) (dma_addr start num + of_nat i) =
      bytes s (a + of_nat i)"
    and "KUSEG \<le> x \<Longrightarrow> bytes (copy_block (dma_addr start num) a s) x = bytes s x"
proof -
  have "a + of_nat j \<noteq> dma_addr start num + of_nat i" if "i < 4096" "j < 4096" for i j
    using user_block_addr(1) [OF assms(1) that(2)] dma_frame_addr [OF assms(2,3) that(1)] by auto
  then show "i < 4096 \<Longrightarrow> bytes (copy_block (dma_addr start num) a s) (dma_addr start num + of_nat i) =
      bytes s (a + of_nat i)"
    by (simp add: copy_block_def memcopy_inside)
  assume "KUSEG \<le> x"
  then have "x \<noteq> dma_addr start num + of_nat i" if "i < 4096" for i
    using dma_frame_addr [OF assms(2,3) that] by (metis leD)
  then show "bytes (copy_block (dma_addr start num) a s) x = bytes s x"
    by (simp add: copy_block_def memcopy_outside)
qed

lemma kept_copy_in:
  assumes "user_block a" and "unat num < 8" "unat start \<le> 24"
  shows "kept k s (copy_block (dma_addr start num) a s)"
  using copy_in(2) [OF assms] by (simp add: kept_def)

section \<open>The position of a block on a disk\<close>

lemma sint_word_of_int_small:
  "- (2 ^ 31) \<le> x \<Longrightarrow> x < 2 ^ 31 \<Longrightarrow> sint (word_of_int x :: u32) = x"
  by (simp add: sint_sbintrunc' signed_take_bit_int_eq_self)

lemma disk_position_ints:
  assumes H: "0 < sint H" "sint H \<le> 255" and S: "0 < sint S" "sint S \<le> 255" and b: "0 \<le> sint b"
  shows "disk_position b H S = Some
    (word_of_int (sint b div (sint H * sint S)),
     word_of_int (sint b mod (sint H * sint S) div sint S),
     word_of_int (sint b mod (sint H * sint S) mod sint S))"
proof -
  have "sint H * sint S \<le> 255 * 255" using H S by (intro mult_mono) simp_all
  then have P: "0 < sint H * sint S" "sint H * sint S \<le> 65025" using H S by simp_all
  have HS: "sint (H * S) = sint H * sint S"
    using P by (subst sint_word_ariths) (simp add: signed_take_bit_int_eq_self)
  then have "H * S \<noteq> 0" using P(1) by (metis less_irrefl signed_0)
  have nonneg: "x sdiv y = x div y" "x smod y = x mod y" if "0 \<le> x" "0 < y" for x y :: int
    using that by (cases "x = 0"; simp add: signed_divide_int_def signed_modulo_int_def)+
  have "0 \<le> sint b mod (sint H * sint S)" "sint b mod (sint H * sint S) < 2 ^ 31"
    using P pos_mod_sign [OF P(1), of "sint b"] pos_mod_bound [OF P(1), of "sint b"] by simp_all
  then have "sint (word_of_int (sint b mod (sint H * sint S)) :: u32) = sint b mod (sint H * sint S)"
    by (intro sint_word_of_int_small) simp_all
  then show ?thesis
    using \<open>H * S \<noteq> 0\<close> \<open>0 \<le> sint b mod (sint H * sint S)\<close> P(1) S(1) b
    by (simp add: disk_position_def Let_def HS nonneg)
qed

lemma int_le_div:
  assumes "(0 :: int) < p"
  shows "c \<le> b div p \<longleftrightarrow> c * p \<le> b"
proof -
  have b: "b = b div p * p + b mod p" by simp
  have m: "0 \<le> b mod p" "b mod p < p" using assms by simp_all
  show ?thesis
  proof
    assume "c \<le> b div p"
    then have "c * p \<le> b div p * p" using assms by (intro mult_right_mono) simp_all
    then show "c * p \<le> b" using b m(1) by linarith
  next
    assume "c * p \<le> b"
    then have "c * p < b div p * p + p" using b m(2) by linarith
    also have "\<dots> = (b div p + 1) * p" by (simp add: algebra_simps)
    finally show "c \<le> b div p" using assms by (simp add: mult_less_cancel_right)
  qed
qed

lemma int_div_less:
  assumes "(0 :: int) < p" and "b < h * p"
  shows "b div p < h"
  using int_le_div [OF assms(1), of h b] assms(2) by linarith

lemma block_arith:
  assumes "0 < S" and "0 < H" and "(0 :: int) \<le> b"
  shows "0 \<le> b div (H * S)" "b div (H * S) \<le> b"
    "0 \<le> b mod (H * S) div S" "b mod (H * S) div S < H" "0 \<le> b mod (H * S) mod S"
    "b mod (H * S) mod S < S"
    "b = (b div (H * S) * H + b mod (H * S) div S) * S + b mod (H * S) mod S"
    "c \<le> b div (H * S) \<longleftrightarrow> c * (H * S) \<le> b"
proof -
  have P: "0 < H * S" using assms by simp
  note r = pos_mod_sign [OF P, of b] pos_mod_bound [OF P, of b]
  show "0 \<le> b div (H * S)" using assms P by (simp add: pos_imp_zdiv_nonneg_iff)
  show "b div (H * S) \<le> b" using zdiv_mono2 [of b 1 "H * S"] assms(3) P by simp
  show "0 \<le> b mod (H * S) div S" "0 \<le> b mod (H * S) mod S" "b mod (H * S) mod S < S"
    using assms r by (simp_all add: pos_imp_zdiv_nonneg_iff)
  show "b mod (H * S) div S < H"
    using r(2) assms(1) by (simp add: int_div_less)
  have "b = b div (H * S) * (H * S) + b mod (H * S)" by (rule div_mult_mod_eq [symmetric])
  also have "b mod (H * S) = b mod (H * S) div S * S + b mod (H * S) mod S"
    by (rule div_mult_mod_eq [symmetric])
  finally show "b = (b div (H * S) * H + b mod (H * S) div S) * S + b mod (H * S) mod S"
    by (simp add: algebra_simps)
  show "c \<le> b div (H * S) \<longleftrightarrow> c * (H * S) \<le> b" by (rule int_le_div [OF P])
qed

section \<open>The two transfers\<close>

text \<open>The device's geometry register does not change while the caller asks for its support structure.\<close>

definition steady :: "u32 \<Rightarrow> env \<Rightarrow> bool" where
  "steady a h \<longleftrightarrow> (\<forall>i s. mem (snd (h i (GETSUPPORTPTR, 0, 0, 0) s)) a = mem s a)"

lemma steadyD: "steady a h \<Longrightarrow> h i (GETSUPPORTPTR, 0, 0, 0) s = (v, s') \<Longrightarrow> mem s' a = mem s a"
  unfolding steady_def by (metis snd_conv)

lemma run_get_support_steady:
  assumes "cooperative k h" and "addressed k s" and "steady d h"
  shows "\<exists>s'. kept k s s' \<and> mem s' d = mem s d
    \<and> (\<forall>f. run (abind (get_support s) f) h i =
        (case run (f k s') h (Suc i) of (tr, res) \<Rightarrow> (((GETSUPPORTPTR, 0, 0, 0), s) # tr, res)))"
proof -
  obtain v s' where h: "h i (GETSUPPORTPTR, 0, 0, 0) s = (v, s')" by fastforce
  note K = cooperativeD [OF assms(1) h]
  have "support_at (link s') v = Some k"
    using K(2) keptD(1) [OF K(1)] assms(2) by (simp add: addressed_def)
  then show ?thesis using h K(1) steadyD [OF assms(3) h]
    by (intro exI [of _ s']) (simp add: get_support_def)
qed

lemma run_leave_ready:
  "run (leave_ready k s) h i = ([], Exited (LDST (set_reg r_v0 1 (sup_exceptState (sups s k) 1)))
    (set_state_reg (SupState k GENERALEXCEPT) r_v0 1 s))"
  by (simp add: leave_ready_def load_and_leave_def)

text \<open>The request of a flash transfer, as the device sees it.\<close>

definition flash_request :: "u32 \<Rightarrow> u32 \<Rightarrow> u32 \<Rightarrow> sstate \<Rightarrow> bool" where
  "flash_request command num block q \<longleftrightarrow>
     mem q (d_data0 (DEV_REG_ADDR FLASHINT num)) = dma_addr DMA_FLASH_START_FRAME num
   \<and> mem q (d_command (DEV_REG_ADDR FLASHINT num)) = push_bit 8 block OR command
   \<and> status_reg (cpu q) AND IECON = 0"

lemma run_flash_command:
  assumes h: "cooperative k h" and v: "\<And>t. fst (h i (WAITIO, FLASHINT, num, 0) t) = v"
  shows "\<exists>q t. flash_request command num block q \<and> kept k s q \<and> bytes q = bytes s
    \<and> snd (h i (WAITIO, FLASHINT, num, 0) q) = t \<and> kept k s t
    \<and> run (flash_command command num block s) h i =
        ([((WAITIO, FLASHINT, num, 0), q)], Returned v (enable_interrupts t))"
proof -
  define q where "q = store_word (d_command (DEV_REG_ADDR FLASHINT num)) (push_bit COMMAND_SHIFT block OR command)
    (disable_interrupts (store_word (d_data0 (DEV_REG_ADDR FLASHINT num))
      (dma_addr DMA_FLASH_START_FRAME num) s))"
  obtain w t where h1: "h i (WAITIO, FLASHINT, num, 0) q = (w, t)" by fastforce
  then have "w = v" using v [of q] by simp
  moreover have "kept k s q" by (simp add: q_def kept_def)
  moreover have "flash_request command num block q"
    by (simp add: q_def flash_request_def disable_interrupts_def word_bw_assocs)
  moreover have "kept k s t" using kept_trans [OF _ cooperativeD(1) [OF h h1]] calculation(2) by blast
  ultimately show ?thesis using h1
    by (intro exI [of _ q] exI [of _ t]) (simp add: flash_command_def Let_def q_def [symmetric], simp add: q_def)
qed

lemma device_number:
  assumes "unat (num :: u32) < 8"
  shows "\<not> (sint num < 0 \<or> 8 \<le> sint num)"
proof -
  have "sint num = int (unat num)" using assms by (intro sint_small) simp
  then show ?thesis using assms by linarith
qed

lemma kept_enable [simp]: "kept k s (enable_interrupts t) = kept k s t"
  by (simp add: kept_def)

lemma run_leave_on_error:
  "status AND STATUS_MASK = 1 \<Longrightarrow> leave_on_error k status s = Done () s"
  "status AND STATUS_MASK \<noteq> 1 \<Longrightarrow> run (leave_on_error k status s) h i =
    ([], Exited (LDST (set_reg r_v0 (- status) (sup_exceptState (sups s k) 1)))
      (set_state_reg (SupState k GENERALEXCEPT) r_v0 (- status) s))"
  by (simp_all add: leave_on_error_def load_and_leave_def)

text \<open>The two requests of a disk transfer, as the device sees them.\<close>

definition seek_request :: "u32 \<Rightarrow> u32 \<Rightarrow> sstate \<Rightarrow> bool" where
  "seek_request num cyl q \<longleftrightarrow>
     mem q (d_data0 (DEV_REG_ADDR DISKINT num)) = dma_addr DMA_DISK_START_FRAME num
   \<and> mem q (d_command (DEV_REG_ADDR DISKINT num)) = push_bit 8 cyl OR SEEKCYL"

definition disk_request :: "u32 \<Rightarrow> u32 \<Rightarrow> u32 \<Rightarrow> u32 \<Rightarrow> sstate \<Rightarrow> bool" where
  "disk_request command num head sect q \<longleftrightarrow>
     mem q (d_command (DEV_REG_ADDR DISKINT num)) = push_bit 24 head OR push_bit 16 sect OR command"

text \<open>A block that the disk with geometry register \<open>g\<close> has, at this place.\<close>

definition on_disk :: "u32 \<Rightarrow> u32 \<Rightarrow> u32 \<times> u32 \<times> u32 \<Rightarrow> bool" where
  "on_disk g block = (\<lambda>(cyl, head, sect). case disk_geometry g of (C, H, S) \<Rightarrow>
     disk_position block H S = Some (cyl, head, sect)
     \<and> sint cyl < sint C \<and> sint head < sint H \<and> sint sect < sint S)"

lemma run_disk_transfer:
  assumes h: "cooperative k h"
    and pos: "on_disk (mem s (d_data1 (DEV_REG_ADDR DISKINT num))) block (cyl, head, sect)"
    and seek: "\<And>t. fst (h i (WAITIO, DISKINT, num, 0) t) = 1"
    and v: "\<And>t. fst (h (Suc i) (WAITIO, DISKINT, num, 0) t) = v"
  shows "\<exists>q1 q2 t. seek_request num cyl q1 \<and> disk_request command num head sect q2
    \<and> bytes q1 = bytes s \<and> t = snd (h (Suc i) (WAITIO, DISKINT, num, 0) q2) \<and> kept k s t
    \<and> run (disk_transfer command num block s) h i =
        ([((WAITIO, DISKINT, num, 0), q1), ((WAITIO, DISKINT, num, 0), q2)], Returned v t)"
proof -
  let ?r = "(WAITIO, DISKINT, num, 0) :: sysreq"
  let ?disk = "DEV_REG_ADDR DISKINT num"
  define q1 where "q1 = store_word (d_command ?disk) (push_bit 8 cyl OR SEEKCYL)
    (store_word (d_data0 ?disk) (dma_addr DMA_DISK_START_FRAME num) s)"
  obtain w1 t1 where h1: "h i ?r q1 = (w1, t1)" by fastforce
  then have w1: "w1 = 1" using seek [of q1] by simp
  define q2 where "q2 = store_word (d_command ?disk) (push_bit 24 head OR push_bit 16 sect OR command) t1"
  obtain w2 t where h2: "h (Suc i) ?r q2 = (w2, t)" by fastforce
  then have w2: "w2 = v" using v [of q2] by simp
  have "kept k s q1" "kept k t1 q2" by (simp_all add: q1_def q2_def kept_def)
  then have "kept k s t"
    using kept_trans cooperativeD(1) [OF h h1] cooperativeD(1) [OF h h2] by blast
  obtain C H S where g: "disk_geometry (mem s (d_data1 ?disk)) = (C, H, S)"
    "disk_position block H S = Some (cyl, head, sect)"
    "\<not> (sint C \<le> sint cyl \<or> sint H \<le> sint head \<or> sint S \<le> sint sect)"
    using pos by (auto simp: on_disk_def)
  have "run (disk_transfer command num block s) h i = ([(?r, q1), (?r, q2)], Returned v t)"
    using g h1 h2 w1 w2
    by (simp add: disk_transfer_def Let_def terminate_if_def SYSCALL_def q1_def q2_def)
  moreover have "bytes q1 = bytes s" by (simp add: q1_def)
  moreover have "seek_request num cyl q1" "disk_request command num head sect q2"
    by (simp_all add: q1_def q2_def seek_request_def disk_request_def)
  ultimately show ?thesis using h2 \<open>kept k s t\<close> by (metis snd_conv)
qed

section \<open>Properties\<close>

text \<open>System call 16 reads a block from a flash device: for a device number and a block in range
  and a user address with room for a block, the run makes one device request, with the DMA frame and
  the read command for that block in the device's registers and interrupts off; when it succeeds,
  the 4096 bytes the device left in the DMA frame are at the user's address, no other byte has
  changed, and the user resumes with 1 in \<open>v0\<close>.\<close>

theorem dmaReadFlash_reads:
  assumes h: "cooperative k h" and ad: "addressed k s" and st: "sup_exceptState (sups s k) 1 = st"
    and num: "unat num < 8" and geo: "steady (d_data1 (DEV_REG_ADDR FLASHINT num)) h"
    and block: "0 \<le> sint block" "sint block < sint (mem s (d_data1 (DEV_REG_ADDR FLASHINT num)))"
    and dest: "user_block dest"
    and v: "\<And>t. fst (h 1 (WAITIO, FLASHINT, num, 0) t) = v" "v AND STATUS_MASK = 1"
  shows "\<exists>q t s'. run (dmaReadFlash num block dest s) h 0 =
      ([((GETSUPPORTPTR, 0, 0, 0), s), ((WAITIO, FLASHINT, num, 0), q)],
       Exited (LDST (set_reg r_v0 1 st)) s')
    \<and> flash_request READBLK num block q \<and> t = snd (h 1 (WAITIO, FLASHINT, num, 0) q)
    \<and> (\<forall>i<4096. bytes s' (dest + of_nat i) = bytes t (dma_addr DMA_FLASH_START_FRAME num + of_nat i))
    \<and> (\<forall>x. (\<forall>i<4096. x \<noteq> dest + of_nat i) \<longrightarrow> bytes s' x = bytes t x)"
proof -
  obtain s1 where s1: "kept k s s1"
    "mem s1 (d_data1 (DEV_REG_ADDR FLASHINT num)) = mem s (d_data1 (DEV_REG_ADDR FLASHINT num))"
    "\<And>f :: nat \<Rightarrow> sstate \<Rightarrow> unit act. run (abind (get_support s) f) h 0 =
        (case run (f k s1) h (Suc 0) of (tr, res) \<Rightarrow> (((GETSUPPORTPTR, 0, 0, 0), s) # tr, res))"
    using run_get_support_steady [OF h ad geo, of 0] by blast
  obtain q t where q: "flash_request READBLK num block q" "kept k s1 t"
    "snd (h 1 (WAITIO, FLASHINT, num, 0) q) = t"
    "run (flash_command READBLK num block s1) h 1 =
        ([((WAITIO, FLASHINT, num, 0), q)], Returned v (enable_interrupts t))"
    using run_flash_command [OF h v(1), where s = s1 and block = block and command = READBLK] by blast
  let ?t = "copy_block dest (dma_addr DMA_FLASH_START_FRAME num) (enable_interrupts t)"
  let ?s = "set_state_reg (SupState k GENERALEXCEPT) r_v0 1 ?t"
  have "sup_exceptState (sups ?t k) 1 = st" using keptD(4) [OF kept_trans [OF s1(1) q(2)]] st by simp
  then have "run (dmaReadFlash num block dest s) h 0 =
      ([((GETSUPPORTPTR, 0, 0, 0), s), ((WAITIO, FLASHINT, num, 0), q)],
       Exited (LDST (set_reg r_v0 1 st)) ?s)"
    unfolding dmaReadFlash_def s1(3)
    using device_number [OF num] block s1(2) q(4) run_leave_on_error(1) [OF v(2)]
      run_leave_ready [of k ?t h "Suc (Suc 0)"]
    by (simp add: terminate_if_def Let_def run_abind after_cons)
  moreover have "bytes ?s (dest + of_nat i) = bytes t (dma_addr DMA_FLASH_START_FRAME num + of_nat i)"
    if "i < 4096" for i
    using copy_out(1) [OF dest num _ that, of DMA_FLASH_START_FRAME "enable_interrupts t"] by simp
  moreover have "bytes ?s x = bytes t x" if "\<forall>i<4096. x \<noteq> dest + of_nat i" for x
    using copy_out(2) [OF dest num, of DMA_FLASH_START_FRAME x "enable_interrupts t"] that by simp
  ultimately show ?thesis using q(1,3) by (intro exI [of _ q] exI [of _ t] exI [of _ ?s]) simp
qed

theorem dmaReadFlash_reads_witness:
  "\<exists>tr s'. run (dmaReadFlash 2 5 0x80002000 ((user_process zero_state)\<lparr>mem := (\<lambda>_. 100)\<rparr>))
      (alone 0 (\<lambda>_. 1)) 0 = (tr, Exited (LDST (set_reg r_v0 1 zero_state)) s')
    \<and> map fst tr = [(GETSUPPORTPTR, 0, 0, 0), (WAITIO, 4, 2, 0)]"
proof -
  let ?s = "(user_process zero_state)\<lparr>mem := (\<lambda>_. 100)\<rparr>"
  have "addressed 0 ?s" "sup_exceptState (sups ?s 0) 1 = zero_state"
    by (simp_all add: addressed_def user_process_def zero_sstate_def zero_link_def)
  moreover have "steady (d_data1 (DEV_REG_ADDR FLASHINT 2)) (alone 0 (\<lambda>_. 1))"
    by (simp add: steady_def alone_def)
  ultimately show ?thesis
    using dmaReadFlash_reads [OF alone_cooperative [of 0 "\<lambda>_. 1"], of ?s zero_state 2 5 "0x80002000" 1]
    by (auto simp: alone_def user_block_def)
qed



text \<open>A block number that is not negative names exactly one place of a disk: the code's cylinder,
  head and sector are in range for the head and sector counts, determine the block again, and the
  cylinder is below the cylinder count exactly when the block exists.\<close>

theorem disk_position_roundtrip:
  assumes "0 < sint H" "sint H \<le> 255" and "0 < sint S" "sint S \<le> 255" and "0 \<le> sint b"
  shows "\<exists>cyl head sect. disk_position b H S = Some (cyl, head, sect)
    \<and> 0 \<le> sint cyl \<and> 0 \<le> sint head \<and> sint head < sint H \<and> 0 \<le> sint sect \<and> sint sect < sint S
    \<and> sint b = (sint cyl * sint H + sint head) * sint S + sint sect
    \<and> (\<forall>C :: u32. sint C \<le> sint cyl \<longleftrightarrow> sint C * (sint H * sint S) \<le> sint b)"
proof -
  let ?P = "sint H * sint S"
  note A = block_arith [OF assms(3,1,5)]
  have "sint b < 2 ^ 31" using sint_less [of b] by simp
  then have c: "sint (word_of_int (sint b div ?P) :: u32) = sint b div ?P"
    using A(1,2) by (intro sint_word_of_int_small) simp_all
  have h: "sint (word_of_int (sint b mod ?P div sint S) :: u32) = sint b mod ?P div sint S"
    using A(3,4) assms(2) by (intro sint_word_of_int_small) simp_all
  have s: "sint (word_of_int (sint b mod ?P mod sint S) :: u32) = sint b mod ?P mod sint S"
    using A(5,6) assms(4) by (intro sint_word_of_int_small) simp_all
  show ?thesis
    unfolding disk_position_ints [OF assms] using A
    by (intro exI conjI) (rule refl, simp_all only: c h s, simp_all)
qed

theorem disk_position_roundtrip_witness:
  "\<exists>cyl head sect. disk_position 1234 4 25 = Some (cyl, head, sect)
    \<and> 1234 = (sint cyl * 4 + sint head) * 25 + sint sect"
  using disk_position_roundtrip [of 4 25 1234] by auto


text \<open>A disk with 100 cylinders, 4 heads and 25 sectors; its block 1234.\<close>

lemma example_disk: "on_disk 0x00640419 1234 (12, 1, 9)"
  by (simp add: on_disk_def disk_geometry_def disk_position_def Let_def signed_divide_int_def
      signed_modulo_int_def)


text \<open>
  System call 15 writes a block to a disk: the run makes a seek and a transfer request, the first with
  the user's 4096 bytes in the DMA frame and the cylinder of the block in the command register, the
  second with its head and sector and the command \<open>WRITEBLK\<close>; when it succeeds the user resumes
  with 1 in \<open>v0\<close>.
\<close>

theorem dmaWriteDisk_writes:
  assumes h: "cooperative k h" and ad: "addressed k s" and st: "sup_exceptState (sups s k) 1 = st"
    and num: "unat num < 8" and geo: "steady (d_data1 (DEV_REG_ADDR DISKINT num)) h"
    and pos: "on_disk (mem s (d_data1 (DEV_REG_ADDR DISKINT num))) block (cyl, head, sect)"
    and src: "user_block src"
    and seek: "\<And>t. fst (h 1 (WAITIO, DISKINT, num, 0) t) = 1"
    and v: "\<And>t. fst (h 2 (WAITIO, DISKINT, num, 0) t) = v" "v AND STATUS_MASK = 1"
  shows "\<exists>q1 q2 s'. run (dmaWriteDisk num block src s) h 0 =
      ([((GETSUPPORTPTR, 0, 0, 0), s), ((WAITIO, DISKINT, num, 0), q1), ((WAITIO, DISKINT, num, 0), q2)],
       Exited (LDST (set_reg r_v0 1 st)) s')
    \<and> seek_request num cyl q1 \<and> disk_request WRITEBLK num head sect q2
    \<and> (\<forall>i<4096. bytes q1 (dma_addr DMA_DISK_START_FRAME num + of_nat i) = bytes s (src + of_nat i))"
proof -
  obtain s1 where s1: "kept k s s1"
    "mem s1 (d_data1 (DEV_REG_ADDR DISKINT num)) = mem s (d_data1 (DEV_REG_ADDR DISKINT num))"
    "\<And>f :: nat \<Rightarrow> sstate \<Rightarrow> unit act. run (abind (get_support s) f) h 0 =
        (case run (f k s1) h (Suc 0) of (tr, res) \<Rightarrow> (((GETSUPPORTPTR, 0, 0, 0), s) # tr, res))"
    using run_get_support_steady [OF h ad geo, of 0] by blast
  let ?s = "copy_block (dma_addr DMA_DISK_START_FRAME num) src s1"
  have m: "mem ?s = mem s1" by (simp add: copy_block_def)
  obtain q1 q2 t where q: "seek_request num cyl q1" "disk_request WRITEBLK num head sect q2"
    "bytes q1 = bytes ?s" "kept k ?s t"
    "run (disk_transfer WRITEBLK num block ?s) h 1 =
        ([((WAITIO, DISKINT, num, 0), q1), ((WAITIO, DISKINT, num, 0), q2)], Returned v t)"
    using run_disk_transfer [OF h, where s = ?s and i = 1 and num = num and block = block and v = v
        and command = WRITEBLK] pos seek v(1) unfolding m s1(2) by (simp add: numeral_2_eq_2) blast
  have "kept k s1 ?s" using kept_copy_in [OF src num] by simp
  then have "kept k s t" using kept_trans [OF s1(1)] kept_trans [OF _ q(4)] by blast
  then have "sup_exceptState (sups t k) 1 = st" using keptD(4) st by simp
  then have "run (dmaWriteDisk num block src s) h 0 =
      ([((GETSUPPORTPTR, 0, 0, 0), s), ((WAITIO, DISKINT, num, 0), q1), ((WAITIO, DISKINT, num, 0), q2)],
       Exited (LDST (set_reg r_v0 1 st)) (set_state_reg (SupState k GENERALEXCEPT) r_v0 1 t))"
    unfolding dmaWriteDisk_def s1(3)
    using device_number [OF num] q(5) run_leave_on_error(1) [OF v(2)]
      run_leave_ready [of k t h "Suc (Suc (Suc 0))"]
    by (simp add: terminate_if_def Let_def run_abind after_cons)
  moreover have "bytes q1 (dma_addr DMA_DISK_START_FRAME num + of_nat i) = bytes s (src + of_nat i)"
    if "i < 4096" for i
    using copy_in(1) [OF src num _ that, of DMA_DISK_START_FRAME s1] q(3)
      keptD(5) [OF s1(1) user_block_addr(1) [OF src that]] by simp
  ultimately show ?thesis using q(1,2) by blast
qed

theorem dmaWriteDisk_writes_witness:
  "\<exists>tr s'. run (dmaWriteDisk 3 1234 0x80002000 ((user_process zero_state)\<lparr>mem := (\<lambda>_. 0x00640419)\<rparr>))
      (alone 0 (\<lambda>_. 1)) 0 = (tr, Exited (LDST (set_reg r_v0 1 zero_state)) s')
    \<and> map fst tr = [(GETSUPPORTPTR, 0, 0, 0), (WAITIO, 3, 3, 0), (WAITIO, 3, 3, 0)]"
proof -
  let ?s = "(user_process zero_state)\<lparr>mem := (\<lambda>_. 0x00640419)\<rparr>"
  have "addressed 0 ?s" "sup_exceptState (sups ?s 0) 1 = zero_state"
    by (simp_all add: addressed_def user_process_def zero_sstate_def zero_link_def)
  moreover have "steady (d_data1 (DEV_REG_ADDR DISKINT 3)) (alone 0 (\<lambda>_. 1))"
    by (simp add: steady_def alone_def)
  moreover have "on_disk (mem ?s (d_data1 (DEV_REG_ADDR DISKINT 3))) 1234 (12, 1, 9)"
    using example_disk by simp
  ultimately show ?thesis
    using dmaWriteDisk_writes [OF alone_cooperative [of 0 "\<lambda>_. 1"], of ?s zero_state 3 1234 12 1 9 "0x80002000" 1]
    by (auto simp: alone_def user_block_def)
qed

text \<open>A negative block number is never refused: on every disk its cylinder, head and sector pass
  the range check, though no such block exists.\<close>

theorem disk_accepts_negative_blocks:
  assumes "0 < sint (C :: u32)" "sint C \<le> 65535" and "0 < sint H" "sint H \<le> 255" and "0 < sint S" "sint S \<le> 255"
    and "sint b < 0" and "- (2 ^ 31) < sint b"
  shows "\<exists>cyl head sect. disk_position b H S = Some (cyl, head, sect)
    \<and> \<not> (sint C \<le> sint cyl \<or> sint H \<le> sint head \<or> sint S \<le> sint sect)"
proof -
  have "sint H * sint S \<le> 255 * 255" using assms by (intro mult_mono) simp_all
  then have P: "0 < sint H * sint S" "sint H * sint S \<le> 65025" using assms by simp_all
  have HS: "sint (H * S) = sint H * sint S"
    using P by (subst sint_word_ariths) (simp add: signed_take_bit_int_eq_self)
  then have "H * S \<noteq> 0" using P(1) by (metis less_irrefl signed_0)
  have neg: "x sdiv y = - ((- x) div y)" "x smod y = - ((- x) mod y)" if "x \<le> 0" "0 < y" for x y :: int
    using that by (cases "x = 0"; simp add: signed_divide_int_def signed_modulo_int_def)+
  define B where "B = - sint b"
  have B: "0 \<le> B" "B < 2 ^ 31" "sint b = - B" using assms(7,8) by (simp_all add: B_def)
  note A = block_arith [OF assms(5,3) B(1)]
  have r: "0 \<le> B mod (sint H * sint S)" "B mod (sint H * sint S) < sint H * sint S"
    using P by simp_all
  have R: "sint (word_of_int (- (B mod (sint H * sint S))) :: u32) = - (B mod (sint H * sint S))"
    using r P(2) by (intro sint_word_of_int_small) simp_all
  have q: "sint b sdiv (sint H * sint S) = - (B div (sint H * sint S))"
    "sint b smod (sint H * sint S) = - (B mod (sint H * sint S))"
    "- (B mod (sint H * sint S)) sdiv sint S = - (B mod (sint H * sint S) div sint S)"
    "- (B mod (sint H * sint S)) smod sint S = - (B mod (sint H * sint S) mod sint S)"
    using neg [of "sint b" "sint H * sint S"] neg [of "- (B mod (sint H * sint S))" "sint S"]
      B P(1) r(1) assms(5) by (simp_all only: minus_minus neg_le_0_iff_le)
  have pos: "disk_position b H S = Some (word_of_int (- (B div (sint H * sint S))),
      word_of_int (- (B mod (sint H * sint S) div sint S)),
      word_of_int (- (B mod (sint H * sint S) mod sint S)))"
    unfolding disk_position_def Let_def HS q R using \<open>H * S \<noteq> 0\<close> by (simp only: if_False)
  have "sint (word_of_int (- (B div (sint H * sint S))) :: u32) \<le> 0"
    using A(1,2) B by (subst sint_word_of_int_small) simp_all
  moreover have "sint (word_of_int (- (B mod (sint H * sint S) div sint S)) :: u32) \<le> 0"
    using A(3,4) assms(4) by (subst sint_word_of_int_small) simp_all
  moreover have "sint (word_of_int (- (B mod (sint H * sint S) mod sint S)) :: u32) \<le> 0"
    using A(5,6) assms(6) by (subst sint_word_of_int_small) simp_all
  ultimately show ?thesis unfolding pos using assms(1,3,5) by (intro exI conjI) (rule refl, linarith)
qed

theorem disk_accepts_negative_blocks_witness:
  "\<exists>cyl head sect. disk_position (- 1) 4 25 = Some (cyl, head, sect)
    \<and> \<not> (100 \<le> sint cyl \<or> 4 \<le> sint head \<or> 25 \<le> sint sect)"
  using disk_accepts_negative_blocks [of 100 4 25 "- 1"] by simp

end
