(* ===== verification/DelaySpec.thy ===== *)
theory DelaySpec
  imports SupportPool
begin

text \<open>
  The active delay list: its invariant, insertion as sorted insertion, the daemon's round, and the
  runs of the delay system call.
\<close>

section \<open>The invariant\<close>

abbreviation (input) dummy :: nat where "dummy \<equiv> 8"

abbreviation (input) adl_next :: "sstate \<Rightarrow> nat \<Rightarrow> ptr" where
  "adl_next s \<equiv> \<lambda>i. d_next (delaydTable s i)"

definition wake :: "sstate \<Rightarrow> nat \<Rightarrow> int" where
  "wake s i = sint (d_wakeTime (delaydTable s i))"

text \<open>
  The nodes \<open>xs\<close> wait, in the order of their wake times, before the dummy; the nodes \<open>fr\<close> are free.
\<close>

definition adl :: "sstate \<Rightarrow> nat list \<Rightarrow> nat list \<Rightarrow> bool" where
  "adl s xs fr \<longleftrightarrow> slist (adl_next s) (delayd_h s) (xs @ [dummy])
     \<and> slist (adl_next s) (delaydFree_h s) fr
     \<and> distinct (xs @ fr) \<and> set (xs @ fr) = {..<dummy}
     \<and> sorted (map (wake s) xs) \<and> (\<forall>i\<in>set xs. d_supStruct (delaydTable s i) \<noteq> NULL)
     \<and> d_supStruct (delaydTable s dummy) = NULL \<and> d_wakeTime (delaydTable s dummy) = MAXINT"

lemma adlD:
  assumes "adl s xs fr"
  shows "slist (adl_next s) (delayd_h s) (xs @ [dummy])" "slist (adl_next s) (delaydFree_h s) fr"
    "distinct (xs @ fr)" "dummy \<notin> set xs" "dummy \<notin> set fr" "sorted (map (wake s) xs)"
    "i \<in> set xs \<Longrightarrow> d_supStruct (delaydTable s i) \<noteq> NULL" "d_supStruct (delaydTable s dummy) = NULL"
    "d_wakeTime (delaydTable s dummy) = MAXINT" "set (xs @ fr) = {..<dummy}"
  using assms unfolding adl_def by (blast, blast, blast, auto)

lemma adl_length: "adl s xs fr \<Longrightarrow> length xs + length fr = dummy"
  using distinct_card [of "xs @ fr"] by (simp add: adl_def)

lemma adl_get_simps [simp]:
  "adl_get NULL s = delayd_h s" "adl_get (Some j) s = d_next (delaydTable s j)"
  by (simp_all add: adl_get_def)

lemma set_d_next_simps [simp]:
  "delaydTable (set_d_next j v s) = (delaydTable s)(j := (delaydTable s j)\<lparr>d_next := v\<rparr>)"
  "delayd_h (set_d_next j v s) = delayd_h s" "delaydFree_h (set_d_next j v s) = delaydFree_h s"
  "link (set_d_next j v s) = link s" "sups (set_d_next j v s) = sups s" "mem (set_d_next j v s) = mem s"
  "pcbTable (set_d_next j v s) = pcbTable s" "currentProcess (set_d_next j v s) = currentProcess s"
  "bytes (set_d_next j v s) = bytes s"
  by (simp_all add: set_d_next_def)

section \<open>Insertion\<close>

lemma find_slot_spec:
  assumes "sint w \<le> wake s dummy"
  shows "slist (adl_next s) (adl_get loc s) (ys @ [dummy]) \<Longrightarrow>
    find_slot w loc s = Some (case rev (takeWhile (\<lambda>i. wake s i < sint w) ys) of
      [] \<Rightarrow> loc | t # _ \<Rightarrow> Some t)"
proof (induction ys arbitrary: loc)
  case Nil
  then show ?case using assms by (simp add: find_slot.simps [of w loc] wake_def)
next
  case (Cons y ys)
  then have "slist (adl_next s) (adl_get (Some y) s) (ys @ [dummy])" by simp
  note IH = Cons.IH [OF this]
  show ?case
  proof (cases "wake s y < sint w")
    case True
    then have "find_slot w loc s = find_slot w (Some y) s"
      using Cons.prems by (simp add: find_slot.simps [of w loc] wake_def)
    then show ?thesis using True IH by (simp split: list.splits)
  next
    case False
    then show ?thesis using Cons.prems by (simp add: find_slot.simps [of w loc] wake_def)
  qed
qed

lemma insort_takeWhile:
  "insort_key f x ys = takeWhile (\<lambda>y. f y < f x) ys @ x # dropWhile (\<lambda>y. f y < f x) ys"
  for f :: "nat \<Rightarrow> int"
  by (induction ys) auto

lemma slist_insert:
  assumes l: "slist (adl_next s) (delayd_h s) (ts @ ds)" and n: "n \<notin> set (ts @ ds)"
    and d: "distinct (ts @ ds)"
    and loc: "loc = (case rev ts of [] \<Rightarrow> NULL | t # _ \<Rightarrow> Some t)"
  defines "s' \<equiv> adl_set loc (Some n) (set_d_next n (adl_get loc s) s)"
  shows "slist (adl_next s') (delayd_h s') (ts @ n # ds)"
proof (cases ts rule: rev_cases)
  case Nil
  have "slist ((adl_next s)(n := delayd_h s)) (delayd_h s) ds" using l n Nil by simp
  moreover have "adl_next s' = (adl_next s)(n := delayd_h s)" "delayd_h s' = Some n"
    by (auto simp: s'_def loc Nil adl_set_def)
  ultimately show ?thesis using Nil by (simp del: fun_upd_apply) simp
next
  case (snoc us t)
  have "n \<noteq> t" using n snoc by auto
  then have "adl_next s' = (adl_next s)(n := adl_next s t, t := Some n)" "delayd_h s' = delayd_h s"
    by (auto simp: s'_def loc snoc adl_set_def fun_eq_iff)
  moreover have "slist ((adl_next s)(n := adl_next s t, t := Some n)) (delayd_h s) (us @ t # n # ds)"
    using l n d snoc by (intro slist_link_in) simp_all
  ultimately show ?thesis using snoc by simp
qed

text \<open>The time a delay of \<open>secCnt\<close> seconds from now ends.\<close>

definition wake_at :: "u32 \<Rightarrow> sstate \<Rightarrow> u32" where
  "wake_at secCnt s = fst (STCK s) + secCnt * SECOND"

lemma STCK_simps [simp]:
  "delaydTable (snd (STCK s)) = delaydTable s" "delayd_h (snd (STCK s)) = delayd_h s"
  "delaydFree_h (snd (STCK s)) = delaydFree_h s" "link (snd (STCK s)) = link s"
  "sups (snd (STCK s)) = sups s" "mem (snd (STCK s)) = mem s" "pcbTable (snd (STCK s)) = pcbTable s"
  "currentProcess (snd (STCK s)) = currentProcess s" "bytes (snd (STCK s)) = bytes s"
  by (simp_all add: STCK_def)

lemma schedule_wakeup_run:
  assumes a: "adl s xs (n # fr)"
  shows "\<exists>s'. schedule_wakeup secCnt k n s = Some s' \<and> adl s' (insort_key (wake s') n xs) fr
    \<and> d_wakeTime (delaydTable s' n) = wake_at secCnt s \<and> d_supStruct (delaydTable s' n) = Some k
    \<and> (\<forall>i. i \<noteq> n \<longrightarrow> wake s' i = wake s i \<and> d_supStruct (delaydTable s' i) = d_supStruct (delaydTable s i))
    \<and> kept k s s' \<and> mem s' = mem s"
proof -
  note A = adlD [OF a]
  define s1 where "s1 = s\<lparr>delaydFree_h := d_next (delaydTable s n)\<rparr>"
  define w where "w = fst (STCK s1) + secCnt * SECOND"
  have w: "w = wake_at secCnt s" by (simp add: w_def wake_at_def s1_def STCK_def)
  define s2 where "s2 = (snd (STCK s1))\<lparr>delaydTable := (delaydTable s1)(n := (delaydTable s1 n)
    \<lparr>d_wakeTime := w, d_supStruct := Some k\<rparr>)\<rparr>"
  have n: "n \<notin> set xs" "n \<notin> set fr" "n \<noteq> dummy" using A(3,5) by auto
  define ts where "ts = takeWhile (\<lambda>i. wake s2 i < sint w) xs"
  define ds where "ds = dropWhile (\<lambda>i. wake s2 i < sint w) xs @ [dummy]"
  have split: "ts @ ds = xs @ [dummy]" by (simp add: ts_def ds_def)
  define loc where "loc = (case rev ts of [] \<Rightarrow> NULL | t # _ \<Rightarrow> Some t)"
  define s' where "s' = adl_set loc (Some n) (set_d_next n (adl_get loc s2) s2)"
  have nx2: "adl_next s2 = adl_next s" "delayd_h s2 = delayd_h s" "delaydFree_h s2 = d_next (delaydTable s n)"
    by (auto simp: s2_def s1_def)
  have w2: "wake s2 i = (if i = n then sint w else wake s i)" for i
    by (simp add: s2_def s1_def wake_def)
  have "wake s2 dummy = 2 ^ 31 - 1" using w2 [of dummy] A(9) n(3) by (simp add: wake_def)
  then have "sint w \<le> wake s2 dummy" using sint_less [of w] by simp
  then have "find_slot w NULL s2 = Some loc"
    using find_slot_spec [of w s2 NULL xs] A(1) by (simp add: nx2 loc_def ts_def)
  then have run: "schedule_wakeup secCnt k n s = Some s'"
    by (simp add: schedule_wakeup_def Let_def s1_def [symmetric] split_beta w_def [symmetric]
        s2_def [symmetric] s'_def)
  have tab: "d_wakeTime (delaydTable s' i) = d_wakeTime (delaydTable s2 i)"
    "d_supStruct (delaydTable s' i) = d_supStruct (delaydTable s2 i)"
    "delaydFree_h s' = delaydFree_h s2" for i
    by (auto simp: s'_def adl_set_def split: option.splits)
  have wake: "wake s' i = wake s2 i" for i by (simp add: wake_def tab)
  have ins: "insort_key (wake s') n xs @ [dummy] = ts @ n # ds"
    using w2 [of n] by (simp add: insort_takeWhile wake ts_def ds_def)
  have "slist (adl_next s') (delayd_h s') (insort_key (wake s') n xs @ [dummy])"
    unfolding ins unfolding s'_def
    by (rule slist_insert) (use A(1,3,4) n split nx2 loc_def in simp_all)
  moreover have "adl_next s' i = adl_next s i" if "i \<in> set fr" for i
  proof -
    have "i \<noteq> n" "i \<notin> set ts" using that n A(3) by (auto simp: ts_def dest: set_takeWhileD)
    then have "loc \<noteq> Some i" by (auto simp: loc_def split: list.splits)
    then show ?thesis using \<open>i \<noteq> n\<close> by (auto simp: s'_def adl_set_def s2_def s1_def split: option.splits)
  qed
  then have "slist (adl_next s') (delaydFree_h s') fr"
    using A(2) slist_cong [of fr "adl_next s'" "adl_next s"] by (simp add: tab nx2)
  moreover have "sorted (map (wake s') (insort_key (wake s') n xs))"
  proof -
    have "map (wake s') xs = map (wake s) xs" using n(1) by (auto simp: wake w2)
    then show ?thesis using A(6) by (simp only: sorted_insort_key)
  qed
  moreover have "d_supStruct (delaydTable s2 i) = (if i = n then Some k else d_supStruct (delaydTable s i))" for i
    by (simp add: s2_def s1_def)
  moreover have "d_wakeTime (delaydTable s2 i) = (if i = n then w else d_wakeTime (delaydTable s i))" for i
    by (simp add: s2_def s1_def)
  ultimately have "adl s' (insort_key (wake s') n xs) fr"
    using A n a by (simp add: adl_def tab set_insort_key distinct_insort)
  moreover have "kept k s s'" "mem s' = mem s"
    by (auto simp: kept_def s'_def adl_set_def s2_def s1_def split: option.splits)
  ultimately show ?thesis
    using run tab wake w2 by (intro exI [of _ s']) (simp add: w s2_def s1_def)
qed

section \<open>The daemon\<close>

lemma recycle_adl:
  assumes a: "adl s (i # xs) fr"
  shows "adl (recycle NULL i s) xs (i # fr)" and "delayd_h (recycle NULL i s) = d_next (delaydTable s i)"
proof -
  note A = adlD [OF a]
  let ?s = "recycle NULL i s"
  have h: "delayd_h ?s = d_next (delaydTable s i)" "delaydFree_h ?s = Some i"
    by (simp_all add: recycle_def Let_def)
  then show "delayd_h ?s = d_next (delaydTable s i)" by simp
  have nx: "adl_next ?s = (adl_next s)(i := delaydFree_h s)"
    by (auto simp: recycle_def Let_def)
  have d: "d_wakeTime (delaydTable ?s j) = d_wakeTime (delaydTable s j)"
    "d_supStruct (delaydTable ?s j) = d_supStruct (delaydTable s j)" for j
    by (simp_all add: recycle_def Let_def)
  have w: "wake ?s = wake s" by (simp add: fun_eq_iff wake_def d)
  have "i \<notin> set (xs @ [dummy])" "i \<notin> set fr" using A(3,4) by auto
  then have "slist (adl_next ?s) (delayd_h ?s) (xs @ [dummy])" "slist (adl_next ?s) (delaydFree_h ?s) (i # fr)"
    using A(1,2) unfolding nx h by (simp_all del: fun_upd_apply set_append) simp_all
  then show "adl ?s xs (i # fr)"
    using a by (auto simp: adl_def d w)
qed

text \<open>While the daemon holds the lock, a \<open>V\<close> on a private semaphore does not change the list.\<close>

definition adl_guard :: "env \<Rightarrow> bool" where
  "adl_guard h \<longleftrightarrow> (\<forall>i a s. case h i (VERHOGEN, a, 0, 0) s of (_, s') \<Rightarrow>
     delaydTable s' = delaydTable s \<and> delayd_h s' = delayd_h s \<and> delaydFree_h s' = delaydFree_h s
     \<and> link s' = link s)"

lemma adl_cong:
  assumes "delaydTable s' = delaydTable s" "delayd_h s' = delayd_h s" "delaydFree_h s' = delaydFree_h s"
  shows "adl s' xs fr = adl s xs fr"
proof -
  have "wake s' = wake s" by (simp add: fun_eq_iff wake_def assms)
  then show ?thesis by (simp add: adl_def assms)
qed

text \<open>The \<open>V\<close> on the private semaphore of the process a node stands for.\<close>

definition wake_request :: "sstate \<Rightarrow> nat \<Rightarrow> sysreq" where
  "wake_request s j = (VERHOGEN, sup_privateSem (link s) (the (d_supStruct (delaydTable s j))), 0, 0)"

lemma wake_expired_run:
  assumes g: "adl_guard h"
  shows "adl s xs fr \<Longrightarrow> length xs < n \<Longrightarrow>
    \<exists>tr s'. run (wake_expired n now NULL (delayd_h s) s) h i = (tr, Returned () s')
    \<and> map fst tr = map (wake_request s) (takeWhile (\<lambda>j. wake s j \<le> sint now) xs)
    \<and> adl s' (dropWhile (\<lambda>j. wake s j \<le> sint now) xs) (rev (takeWhile (\<lambda>j. wake s j \<le> sint now) xs) @ fr)
    \<and> link s' = link s"
proof (induction xs arbitrary: n s fr i)
  case Nil
  then obtain m where n: "n = Suc m" by (cases n) auto
  have "delayd_h s = Some dummy" "d_supStruct (delaydTable s dummy) = NULL"
    using adlD(1,8) [OF Nil(1)] by simp_all
  then show ?case using Nil(1) by (simp add: n)
next
  case (Cons x xs)
  then obtain m where n: "n = Suc m" "length xs < m" by (cases n) auto
  note A = adlD [OF Cons.prems(1)]
  have hd: "delayd_h s = Some x" using A(1) by simp
  obtain k where k: "d_supStruct (delaydTable s x) = Some k" using A(7) [of x] by auto
  show ?case
  proof (cases "wake s x \<le> sint now")
    case True
    obtain v s1 where h1: "h i (wake_request s x) s = (v, s1)" by fastforce
    have e: "delaydTable s1 = delaydTable s" "delayd_h s1 = delayd_h s" "delaydFree_h s1 = delaydFree_h s"
      "link s1 = link s"
      using g h1 unfolding adl_guard_def wake_request_def by (metis (mono_tags, lifting) prod.case)+
    have "adl s1 (x # xs) fr" using Cons.prems(1) adl_cong [OF e(1-3)] by simp
    note R = recycle_adl [OF this]
    let ?s = "recycle NULL x s1"
    have same: "wake ?s = wake s" "link ?s = link s" "wake_request ?s = wake_request s"
      by (auto simp: fun_eq_iff wake_def wake_request_def recycle_def Let_def e)
    obtain tr s' where IH: "run (wake_expired m now NULL (delayd_h ?s) ?s) h (Suc i) = (tr, Returned () s')"
      "map fst tr = map (wake_request s) (takeWhile (\<lambda>j. wake s j \<le> sint now) xs)"
      "adl s' (dropWhile (\<lambda>j. wake s j \<le> sint now) xs)
        (rev (takeWhile (\<lambda>j. wake s j \<le> sint now) xs) @ x # fr)" "link s' = link s"
      using Cons.IH [OF R(1) n(2), of "Suc i"] unfolding same by blast
    have "run (wake_expired n now NULL (delayd_h s) s) h i = ((wake_request s x, s) # tr, Returned () s')"
      using True k hd h1 IH(1) R(2) by (simp add: n wake_def wake_request_def)
    then show ?thesis using True IH(2-4) by simp
  next
    case False
    then show ?thesis using Cons.prems(1) k hd by (simp add: n wake_def)
  qed
qed

section \<open>Initialisation\<close>

lemma init_delayd_adl: "adl (init_delayd s) [] (rev [0..<dummy])"
proof -
  let ?free = "foldl (\<lambda>s i. (set_d_next i (delaydFree_h s) s)\<lparr>delaydFree_h := Some i\<rparr>)"
  have steps: "slist (adl_next (?free s ys)) (delaydFree_h (?free s ys)) (rev ys @ zs)"
    if "slist (adl_next s) (delaydFree_h s) zs" "distinct ys" "set ys \<inter> set zs = {}" for s ys zs
    using that
  proof (induction ys arbitrary: s zs)
    case (Cons y ys)
    let ?s = "(set_d_next y (delaydFree_h s) s)\<lparr>delaydFree_h := Some y\<rparr>"
    have "adl_next ?s = (adl_next s)(y := delaydFree_h s)" by auto
    then have "slist (adl_next ?s) (delaydFree_h ?s) (y # zs)"
      using Cons.prems by (simp del: fun_upd_apply) simp
    then show ?case using Cons.IH [of ?s "y # zs"] Cons.prems by simp
  qed simp
  define s1 where "s1 = ?free (s\<lparr>delayd_h := NULL, delaydFree_h := NULL\<rparr>) [0..<dummy]"
  have "slist (adl_next s1) (delaydFree_h s1) (rev [0..<dummy] @ [])"
    unfolding s1_def by (rule steps) simp_all
  moreover define s2 where "s2 = s1\<lparr>delaydTable := (delaydTable s1)(dummy :=
      \<lparr>d_next = NULL, d_wakeTime = MAXINT, d_supStruct = NULL\<rparr>), delayd_h := Some dummy\<rparr>"
  moreover have "adl_next s2 = (adl_next s1)(dummy := NULL)" by (auto simp: s2_def)
  ultimately have "slist (adl_next s2) (delaydFree_h s2) (rev [0..<dummy])"
    by (simp del: fun_upd_apply upt.simps)
  moreover have "init_delayd s = s2"
    by (simp add: init_delayd_def Let_def s2_def s1_def)
  ultimately show ?thesis by (simp add: adl_def) (auto simp: s2_def)
qed

section \<open>Properties\<close>

text \<open>C36: Inserting into the active delay list is sorted insertion: with a free descriptor, the
  pointer-to-pointer loop ends, the new node stands before the first node that does not wake
  earlier (\<open>insort_key\<close> of the library), the list stays sorted and closed by its dummy, every other
  node keeps its time and process, and the descriptor has left the free list.\<close>

theorem schedule_wakeup_insort:
  assumes "adl s xs (n # fr)"
  shows "\<exists>s'. schedule_wakeup secCnt k n s = Some s' \<and> adl s' (insort_key (wake s') n xs) fr
    \<and> d_wakeTime (delaydTable s' n) = wake_at secCnt s \<and> d_supStruct (delaydTable s' n) = Some k
    \<and> (\<forall>i. i \<noteq> n \<longrightarrow> wake s' i = wake s i \<and> d_supStruct (delaydTable s' i) = d_supStruct (delaydTable s i))"
  using schedule_wakeup_run [OF assms, of secCnt k] by blast

lemma rev_upt_8: "rev [0..<8] = [7, 6, 5, 4, 3, 2, 1, 0 :: nat]"
  by (simp add: upt_rec)

theorem schedule_wakeup_insort_witness:
  "\<exists>s'. schedule_wakeup 2 0 7 (init_delayd zero_sstate) = Some s' \<and> adl s' [7] [6, 5, 4, 3, 2, 1, 0]"
  using schedule_wakeup_insort [of "init_delayd zero_sstate" "[]" 7 "[6, 5, 4, 3, 2, 1, 0]" 2 0]
    init_delayd_adl [of zero_sstate] unfolding rev_upt_8 by auto

text \<open>The time a delay ends: counting in microseconds, it is now plus the seconds as long as that
  fits a signed word; beyond, up to the range of a word, it wraps to a time before now, so that the
  process does not sleep at all.\<close>

theorem wake_time_range:
  assumes "0 \<le> sint secCnt" and "now = sint (fst (STCK s))" and "0 \<le> now"
    and "now + sint secCnt * 1000000 < 2 ^ 32"
  shows "sint (wake_at secCnt s) =
      (if now + sint secCnt * 1000000 < 2 ^ 31 then now + sint secCnt * 1000000
       else now + sint secCnt * 1000000 - 2 ^ 32)
    \<and> (2 ^ 31 \<le> now + sint secCnt * 1000000 \<longrightarrow> sint (wake_at secCnt s) < now)"
proof -
  let ?z = "now + sint secCnt * 1000000"
  have "wake_at secCnt s = word_of_int ?z"
    unfolding wake_at_def assms(2) by simp
  then have "sint (wake_at secCnt s) = (?z + 2 ^ 31) mod 2 ^ 32 - 2 ^ 31"
    by (simp only: int_word_sint) simp
  moreover have "(?z + 2 ^ 31) mod 2 ^ 32 = ?z + 2 ^ 31" if "?z < 2 ^ 31"
    using that assms(1,3) by (intro mod_pos_pos_trivial) simp_all
  moreover have "(?z + 2 ^ 31) mod 2 ^ 32 = ?z - 2 ^ 31" if "\<not> ?z < 2 ^ 31"
  proof -
    have "?z + 2 ^ 31 = ?z - 2 ^ 31 + 2 ^ 32" by simp
    then have "(?z + 2 ^ 31) mod 2 ^ 32 = (?z - 2 ^ 31 + 2 ^ 32) mod 2 ^ 32" by (simp only:)
    also have "\<dots> = (?z - 2 ^ 31) mod 2 ^ 32" by (rule mod_add_self2)
    also have "\<dots> = ?z - 2 ^ 31" using that assms(4) by (intro mod_pos_pos_trivial) simp_all
    finally show ?thesis .
  qed
  ultimately show ?thesis using assms(3,4) by auto
qed

lemma sorted_takeWhile_filter:
  fixes f :: "nat \<Rightarrow> int"
  assumes "sorted (map f xs)"
  shows "takeWhile (\<lambda>j. f j \<le> c) xs = filter (\<lambda>j. f j \<le> c) xs
    \<and> dropWhile (\<lambda>j. f j \<le> c) xs = filter (\<lambda>j. \<not> f j \<le> c) xs"
  using assms
proof (induction xs)
  case (Cons x xs)
  have "\<forall>y\<in>set xs. \<not> f y \<le> c" if "\<not> f x \<le> c" using Cons.prems that by fastforce
  then show ?case using Cons by (auto simp: filter_empty_conv filter_id_conv)
qed simp

text \<open>C16: A round of the daemon wakes exactly the processes whose time has come: after the clock tick
  and with the lock, it performs one \<open>V\<close> on the private semaphore of each node whose wake time is
  not after now, in the order of the list, moves these nodes to the free list and no other, releases
  the lock and ends the round.\<close>

theorem delay_round_wakes:
  assumes g: "adl_guard h" and s1: "s1 = snd (h i (WAITCLOCK, 0, 0, 0) s)"
    and t: "t = snd (h (Suc i) (PASSEREN, ADLsem (link s1), 0, 0) s1)"
    and a: "adl t xs fr" and now: "now = sint (fst (STCK t))"
  shows "\<exists>tr q s'. run (delay_round s) h i =
      (((WAITCLOCK, 0, 0, 0), s) # ((PASSEREN, ADLsem (link s1), 0, 0), s1) # tr
         @ [((VERHOGEN, ADLsem (link t), 0, 0), q)], Returned () s')
    \<and> map fst tr = map (wake_request t) (filter (\<lambda>j. wake t j \<le> now) xs)
    \<and> adl q (filter (\<lambda>j. \<not> wake t j \<le> now) xs) (rev (filter (\<lambda>j. wake t j \<le> now) xs) @ fr)"
proof -
  let ?t = "snd (STCK t)"
  have a': "adl ?t xs fr" using a adl_cong [of ?t t xs fr] by simp
  have w: "wake ?t = wake t" "wake_request ?t = wake_request t"
    by (auto simp: fun_eq_iff wake_def wake_request_def)
  have "length xs < adl_fuel" using adl_length [OF a] by simp
  then obtain tr q where r: "run (wake_expired adl_fuel (fst (STCK t)) NULL (delayd_h ?t) ?t) h (Suc (Suc i)) =
      (tr, Returned () q)" "map fst tr = map (wake_request t) (takeWhile (\<lambda>j. wake t j \<le> now) xs)"
    "adl q (dropWhile (\<lambda>j. wake t j \<le> now) xs) (rev (takeWhile (\<lambda>j. wake t j \<le> now) xs) @ fr)"
    "link q = link ?t"
    using wake_expired_run [OF g a', of adl_fuel "fst (STCK t)" "Suc (Suc i)"] unfolding w now by blast
  obtain v where h1: "h i (WAITCLOCK, 0, 0, 0) s = (v, s1)" using s1 by (metis prod.collapse)
  obtain u where h2: "h (Suc i) (PASSEREN, ADLsem (link s1), 0, 0) s1 = (u, t)"
    using t by (metis prod.collapse)
  obtain x s' where h3: "h (Suc (Suc i) + length tr) (VERHOGEN, ADLsem (link q), 0, 0) q = (x, s')"
    by fastforce
  have "run (delay_round s) h i =
      (((WAITCLOCK, 0, 0, 0), s) # ((PASSEREN, ADLsem (link s1), 0, 0), s1) # tr
         @ [((VERHOGEN, ADLsem (link q), 0, 0), q)], Returned () s')"
    using h1 h2 h3 r(1) by (simp add: delay_round_def split_beta run_abind after_cons del: wake_expired.simps)
  then show ?thesis using r(2-4) sorted_takeWhile_filter [OF adlD(6) [OF a], of now] by auto
qed

text \<open>The free descriptors of a machine whose delay lists are just initialised.\<close>

definition delay_process :: "state_t \<Rightarrow> sstate" where
  "delay_process st = init_delayd (user_process st)"

lemma delay_process_adl: "adl (delay_process st) [] [7, 6, 5, 4, 3, 2, 1, 0]"
  using init_delayd_adl [of "user_process st"] unfolding rev_upt_8 delay_process_def .

lemma init_delayd_simps [simp]:
  "link (init_delayd s) = link s" "sups (init_delayd s) = sups s" "tod (init_delayd s) = tod s"
  "tod_n (init_delayd s) = tod_n s" "mem (init_delayd s) = mem s"
  "currentProcess (init_delayd s) = currentProcess s" "pcbTable (init_delayd s) = pcbTable s"
proof -
  let ?free = "foldl (\<lambda>s i. (set_d_next i (delaydFree_h s) s)\<lparr>delaydFree_h := Some i\<rparr>)"
  have "link (?free s ys) = link s \<and> sups (?free s ys) = sups s \<and> tod (?free s ys) = tod s
    \<and> tod_n (?free s ys) = tod_n s \<and> mem (?free s ys) = mem s
    \<and> currentProcess (?free s ys) = currentProcess s \<and> pcbTable (?free s ys) = pcbTable s" for ys s
    by (induction ys arbitrary: s) (simp_all add: set_d_next_def)
  then show "link (init_delayd s) = link s" "sups (init_delayd s) = sups s" "tod (init_delayd s) = tod s"
    "tod_n (init_delayd s) = tod_n s" "mem (init_delayd s) = mem s"
    "currentProcess (init_delayd s) = currentProcess s" "pcbTable (init_delayd s) = pcbTable s"
    by (simp_all add: init_delayd_def Let_def)
qed

lemma alone_guard: "adl_guard (alone k dev)"
  by (auto simp: adl_guard_def alone_def)

theorem delay_round_wakes_witness:
  "\<exists>tr s'. run (delay_round (delay_process zero_state)) (alone 0 (\<lambda>_. 1)) 0 = (tr, Returned () s')
    \<and> map fst tr = [(WAITCLOCK, 0, 0, 0), (PASSEREN, 0x20009008, 0, 0), (VERHOGEN, 0x20009008, 0, 0)]"
proof -
  let ?s = "delay_process zero_state" and ?h = "alone 0 (\<lambda>_. 1)"
  let ?t = "store_word 0x20009008 (mem ?s 0x20009008 - 1) ?s"
  have l: "ADLsem (link ?s) = 0x20009008" "ADLsem (link ?t) = 0x20009008"
    by (simp_all add: delay_process_def zero_link_def)
  have "?s = snd (?h 0 (WAITCLOCK, 0, 0, 0) ?s)"
    "?t = snd (?h (Suc 0) (PASSEREN, ADLsem (link ?s), 0, 0) ?s)"
    unfolding l by (simp_all add: alone_def)
  moreover have "adl ?t [] [7, 6, 5, 4, 3, 2, 1, 0]" using delay_process_adl adl_cong [of ?t ?s] by simp
  ultimately obtain tr q s' where "run (delay_round ?s) ?h 0 =
      (((WAITCLOCK, 0, 0, 0), ?s) # ((PASSEREN, ADLsem (link ?s), 0, 0), ?s) # tr
         @ [((VERHOGEN, ADLsem (link ?t), 0, 0), q)], Returned () s')"
    "map fst tr = map (wake_request ?t) (filter (\<lambda>j. wake ?t j \<le> sint (fst (STCK ?t))) [])"
    using delay_round_wakes [OF alone_guard _ _ _ refl, where s = ?s and i = 0] by blast
  then show ?thesis unfolding l by simp
qed

theorem wake_time_range_witness:
  "sint (wake_at 3 (user_process zero_state)) = 3000000 + sint (fst (STCK (user_process zero_state)))"
  using wake_time_range [of 3 _ "user_process zero_state", OF _ refl]
  by (simp add: user_process_def zero_sstate_def STCK_def)

text \<open>System call 18 once it has the lock on the delay list.\<close>

lemma supDelay_start:
  assumes h: "cooperative k h" and ad: "addressed k s" and sec: "0 \<le> sint secCnt"
    and s1: "s1 = snd (h 0 (GETSUPPORTPTR, 0, 0, 0) s)"
    and t: "t = snd (h 1 (PASSEREN, ADLsem (link s), 0, 0) s1)"
  shows "kept k s t \<and> run (supDelay secCnt s) h 0 = (case run (
      let node = delaydFree_h t
       in abind
         (if node = NULL then
            abind (SYSCALL VERHOGEN (ADLsem (link t)) 0 0 t) (\<lambda>_ s. supTerminate s)
          else Done () t) (\<lambda>_ s.
         when_some node (\<lambda>n.
         when_some (schedule_wakeup secCnt k n s) (\<lambda>s.
         abind (SYSCALL VERHOGEN (ADLsem (link s)) 0 0 s) (\<lambda>_ s.
         abind (SYSCALL PASSEREN (sup_privateSem (link s) k) 0 0 s) (\<lambda>_ s.
           load_and_leave (SupState k GENERALEXCEPT) s)))))) h (Suc (Suc 0)) of (tr, res) \<Rightarrow>
      (((GETSUPPORTPTR, 0, 0, 0), s) # ((PASSEREN, ADLsem (link s), 0, 0), s1) # tr, res))"
proof -
  obtain v where h0: "h 0 (GETSUPPORTPTR, 0, 0, 0) s = (v, s1)" using s1 by (metis prod.collapse)
  note K1 = cooperativeD [OF h h0]
  have v: "support_at (link s1) v = Some k"
    using K1(2) keptD(1) [OF K1(1)] ad by (simp add: addressed_def)
  obtain u where h1: "h 1 (PASSEREN, ADLsem (link s), 0, 0) s1 = (u, t)" using t by (metis prod.collapse)
  show ?thesis
    using kept_trans [OF K1(1) cooperativeD(1) [OF h h1]] h0 h1 v sec keptD(1) [OF K1(1)]
    by (simp add: supDelay_def get_support_def not_less split: prod.splits)
qed

text \<open>C15: System call 18 puts its caller to sleep: with a free descriptor and a delay that is not
  negative, the run takes the lock, releases it with the caller's node in the list (sorted, with its
  wake time and support structure), blocks on the caller's private semaphore and, when woken, resumes
  the user at the saved state.  Without a free descriptor the lock is released and the process ends.\<close>

theorem supDelay_sleeps:
  assumes h: "cooperative k h" and ad: "addressed k s" and st: "sup_exceptState (sups s k) 1 = st"
    and c: "current_support s = Some k" and sec: "0 \<le> sint secCnt"
    and s1: "s1 = snd (h 0 (GETSUPPORTPTR, 0, 0, 0) s)"
    and t: "t = snd (h 1 (PASSEREN, ADLsem (link s), 0, 0) s1)" and a: "adl t xs fr"
  shows "\<exists>q tr s'. (case fr of
      n # fr' \<Rightarrow> run (supDelay secCnt s) h 0 =
          ([((GETSUPPORTPTR, 0, 0, 0), s), ((PASSEREN, ADLsem (link s), 0, 0), s1),
            ((VERHOGEN, ADLsem (link s), 0, 0), q),
            ((PASSEREN, sup_privateSem (link s) k, 0, 0), s')], Exited (LDST st) tr)
        \<and> adl q (insort_key (wake q) n xs) fr' \<and> d_wakeTime (delaydTable q n) = wake_at secCnt t
        \<and> d_supStruct (delaydTable q n) = Some k
    | [] \<Rightarrow> map fst (fst (run (supDelay secCnt s) h 0)) =
          [(GETSUPPORTPTR, 0, 0, 0), (PASSEREN, ADLsem (link s), 0, 0), (VERHOGEN, ADLsem (link s), 0, 0),
           (VERHOGEN, masterSemaphore (link s), 0, 0), (TERMINATEPROCESS, 0, 0, 0)]
        \<and> snd (run (supDelay secCnt s) h 0) = Terminated s')"
proof -
  note S = supDelay_start [OF h ad sec s1 t]
  note kt = S [THEN conjunct1] and start = S [THEN conjunct2]
  show ?thesis
  proof (cases fr)
    case Nil
    then have free: "delaydFree_h t = NULL" using adlD(2) [OF a] by simp
    obtain w t1 where h2: "h (Suc (Suc 0)) (VERHOGEN, ADLsem (link t), 0, 0) t = (w, t1)" by fastforce
    have k1: "kept k s t1" by (rule kept_trans [OF kt cooperativeD(1) [OF h h2]])
    then obtain x y where "run (supTerminate t1) h (Suc (Suc (Suc 0))) =
        ([((VERHOGEN, masterSemaphore (link t1), 0, 0), x), ((TERMINATEPROCESS, 0, 0, 0), y)], Terminated y)"
      using run_supTerminate [OF h, of t1 "Suc (Suc (Suc 0))"] kept_current_support [OF k1] c by auto
    then show ?thesis
      unfolding start using Nil free h2 keptD(1) [OF kt] keptD(1) [OF k1]
      by (simp add: run_abind Let_def)
  next
    case (Cons n fr')
    then have free: "delaydFree_h t = Some n" using adlD(2) [OF a] by simp
    obtain q where q: "schedule_wakeup secCnt k n t = Some q" "adl q (insort_key (wake q) n xs) fr'"
      "d_wakeTime (delaydTable q n) = wake_at secCnt t" "d_supStruct (delaydTable q n) = Some k" "kept k t q"
      using schedule_wakeup_run [of t xs n fr' secCnt k] a Cons by blast
    have kq: "kept k s q" by (rule kept_trans [OF kt q(5)])
    obtain w t1 where h2: "h (Suc (Suc 0)) (VERHOGEN, ADLsem (link q), 0, 0) q = (w, t1)" by fastforce
    have k1: "kept k s t1" by (rule kept_trans [OF kq cooperativeD(1) [OF h h2]])
    obtain x t2 where h3: "h (Suc (Suc (Suc 0))) (PASSEREN, sup_privateSem (link t1) k, 0, 0) t1 = (x, t2)" by fastforce
    have k2: "kept k s t2" by (rule kept_trans [OF k1 cooperativeD(1) [OF h h3]])
    have "sup_exceptState (sups t2 k) 1 = st" using keptD(4) [OF k2] st by simp
    then have "run (supDelay secCnt s) h 0 =
          ([((GETSUPPORTPTR, 0, 0, 0), s), ((PASSEREN, ADLsem (link s), 0, 0), s1),
            ((VERHOGEN, ADLsem (link s), 0, 0), q),
            ((PASSEREN, sup_privateSem (link s) k, 0, 0), t1)], Exited (LDST st) t2)"
      unfolding start using free q(1) h2 h3 keptD(1) [OF kq] keptD(1) [OF k1]
      by (simp add: Let_def load_and_leave_def)
    then show ?thesis using Cons q(2-4) by auto
  qed
qed

theorem supDelay_sleeps_witness:
  "\<exists>q s' e. run (supDelay 2 (delay_process zero_state)) (alone 0 (\<lambda>_. 1)) 0 =
    ([((GETSUPPORTPTR, 0, 0, 0), delay_process zero_state),
      ((PASSEREN, 0x20009008, 0, 0), delay_process zero_state), ((VERHOGEN, 0x20009008, 0, 0), q),
      ((PASSEREN, 0x20009100, 0, 0), s')], Exited (LDST zero_state) e)
    \<and> adl q [7] [6, 5, 4, 3, 2, 1, 0]"
proof -
  let ?s = "delay_process zero_state" and ?h = "alone 0 (\<lambda>_. 1)"
  let ?t = "store_word 0x20009008 (mem ?s 0x20009008 - 1) ?s"
  have l: "ADLsem (link ?s) = 0x20009008" "sup_privateSem (link ?s) 0 = 0x20009100"
    by (simp_all add: delay_process_def zero_link_def)
  have p: "addressed 0 ?s" "sup_exceptState (sups ?s 0) 1 = zero_state" "current_support ?s = Some 0"
    by (simp_all add: delay_process_def addressed_def current_support_def user_process_def
        zero_sstate_def zero_link_def)
  have "?s = snd (?h 0 (GETSUPPORTPTR, 0, 0, 0) ?s)"
    "?t = snd (?h 1 (PASSEREN, ADLsem (link ?s), 0, 0) ?s)"
    unfolding l by (simp_all add: alone_def)
  moreover have "adl ?t [] [7, 6, 5, 4, 3, 2, 1, 0]" using delay_process_adl adl_cong [of ?t ?s] by simp
  ultimately show ?thesis
    using supDelay_sleeps [OF alone_cooperative p, of 2 ?s "\<lambda>_. 1" ?t "[]"
        "[7, 6, 5, 4, 3, 2, 1, 0]"] unfolding l by auto
qed

end
