(* ===== verification/VmSpec.thy ===== *)
theory VmSpec
  imports SupportPool
begin

text \<open>
  Virtual memory: page tables, the swap pool, and the pager, with the TLB refill handler that loads
  what the pager installed.
\<close>

section \<open>Page numbers\<close>

lemma vpn_shift: "push_bit 12 (drop_bit 12 (e AND 0xFFFFF000)) = e AND (0xFFFFF000 :: u32)"
proof -
  have "push_bit 12 (drop_bit 12 x) = x AND NOT (mask 12)" for x :: u32
    by (rule bit_eqI) (auto simp: bit_simps)
  moreover have "NOT (mask 12) = (0xFFFFF000 :: u32)" by (simp add: mask_numeral)
  ultimately show ?thesis by (simp add: and.assoc)
qed

lemma vpn_stack: "drop_bit 12 (e AND 0xFFFFF000) = (0xBFFFF :: u32) \<longleftrightarrow> e AND 0xFFFFF000 = 0xBFFFF000"
proof
  assume "drop_bit 12 (e AND 0xFFFFF000) = (0xBFFFF :: u32)"
  then have "push_bit 12 (drop_bit 12 (e AND 0xFFFFF000)) = (push_bit 12 0xBFFFF :: u32)" by simp
  then show "e AND 0xFFFFF000 = 0xBFFFF000" unfolding vpn_shift by simp
qed simp

text \<open>The pager, the flash routines and the refill handler compute the same index.\<close>

lemma pte_index_page_index: "pte_index (drop_bit VPNSHIFT (e AND VPN_MASK)) = page_index e"
  by (simp add: pte_index_def page_index_def Let_def)

lemma flash_block_page_index: "flash_block (drop_bit VPNSHIFT (e AND VPN_MASK)) = page_index e"
proof -
  have "drop_bit 12 (0xBFFFF000 :: u32) = 0xBFFFF" by simp
  then show ?thesis unfolding flash_block_def page_index_def Let_def vpn_shift
    by (simp only: vpn_stack)
qed

section \<open>Page tables\<close>

lemma initPageTable_entries:
  "sup_pageTable (sups (initPageTable k s) k) i =
     (if i < PAGE_TABLE_SIZE then init_entry (sup_asid (sups s k)) i else sup_pageTable (sups s k) i)"
proof -
  let ?step = "\<lambda>asid (s :: sstate) i. s\<lparr>sups := (sups s)(k := (sups s k)
           \<lparr>sup_pageTable := (sup_pageTable (sups s k))(i := init_entry asid i)\<rparr>)\<rparr>"
  have "sup_pageTable (sups (foldl (?step asid) s xs) k) i =
      (if i \<in> set xs then init_entry asid i else sup_pageTable (sups s k) i)" for asid s xs
    by (induction xs arbitrary: s) auto
  then show ?thesis by (simp add: initPageTable_def Let_def del: upt.simps)
qed

lemma asid_bits: "unat asid < 64 \<Longrightarrow> bit asid n \<Longrightarrow> n < 6" for asid :: u32
proof -
  assume "unat asid < 64" "bit asid n"
  have "unat (take_bit 6 asid) = unat asid"
    using \<open>unat asid < 64\<close> by (simp add: unsigned_take_bit_eq take_bit_nat_eq_self)
  then have "take_bit 6 asid = asid" by (rule word_unat_eq_iff [THEN iffD2])
  then show "n < 6" using \<open>bit asid n\<close> by (metis bit_take_bit_iff)
qed

lemma asid_low:
  assumes "unat asid < 64"
  shows "push_bit 6 asid AND 0xFFFFF000 = (0 :: u32)"
proof -
  have "push_bit 6 asid AND NOT (mask 12) = (0 :: u32)"
    using asid_bits [OF assms] by (intro bit_eqI) (fastforce simp: bit_simps)
  moreover have "NOT (mask 12) = (0xFFFFF000 :: u32)" by (simp add: mask_numeral)
  ultimately show ?thesis by simp
qed

lemma asid_field:
  assumes "unat asid < 64" and "v AND 0xFFF = 0"
  shows "drop_bit 6 (v OR push_bit 6 asid) AND 0x3F = (asid :: u32)"
proof -
  have v: "\<not> bit v n" if "n < 12" for n
  proof -
    have "v AND mask 12 = 0" using assms(2) by (simp add: mask_numeral)
    then have "\<not> bit (v AND mask 12) n" by simp
    then show ?thesis using that by (simp add: bit_simps)
  qed
  have "drop_bit 6 (v OR push_bit 6 asid) AND mask 6 = asid"
    using asid_bits [OF assms(1)] v by (intro bit_eqI) (fastforce simp: bit_simps)
  then show ?thesis by (simp add: mask_numeral)
qed

lemma page_address:
  assumes "i < 32"
  shows "unat (0x80000000 + of_nat i * 4096 :: u32) = 2 ^ 31 + i * 4096"
proof -
  have "0x80000000 + of_nat i * 4096 = (of_nat (2 ^ 31 + i * 4096) :: u32)" by simp
  then show ?thesis using assms by (simp only:) (rule unat_of_nat_small, simp)
qed

text \<open>The address of the page an entry is for.\<close>

definition page_base :: "nat \<Rightarrow> u32" where
  "page_base i = (if i = unat STACK_PAGE_INDEX then STACK_PAGE_VPN else VPN_BASE + of_nat i * PAGESIZE)"

lemma page_base_shift: "page_base i = push_bit 12 (if i = 31 then 0xBFFFF else 0x80000 + of_nat i)"
  by (simp add: page_base_def push_bit_eq_mult distrib_right)

lemma page_base_mask: "page_base i AND 0xFFFFF000 = page_base i" "page_base i AND 0xFFF = 0"
proof -
  have *: "push_bit 12 x AND NOT (mask 12) = push_bit 12 x" for x :: u32
    by (rule bit_eqI) (auto simp: bit_simps)
  have m: "NOT (mask 12) = (0xFFFFF000 :: u32)" by (simp add: mask_numeral)
  show "page_base i AND 0xFFFFF000 = page_base i" unfolding page_base_shift using * m by metis
  have "push_bit 12 x AND mask 12 = (0 :: u32)" for x
    by (rule bit_eqI) (auto simp: bit_simps)
  then show "page_base i AND 0xFFF = 0" unfolding page_base_shift by (simp add: mask_numeral)
qed

lemma entryHi_page_base:
  "entryHi (init_entry asid i) = page_base i OR push_bit 6 asid"
  using page_base_mask(1) by (simp add: init_entry_def Let_def page_base_def)

lemma entryHi_vpn:
  assumes "unat asid < 64"
  shows "entryHi (init_entry asid i) AND 0xFFFFF000 = page_base i"
  unfolding entryHi_page_base
  by (simp only: bit.conj_disj_distrib2 asid_low [OF assms] page_base_mask(1) or.right_neutral)

lemma page_index_entry:
  assumes "i < 32" and "unat asid < 64"
  shows "page_index (entryHi (init_entry asid i)) = of_nat i"
    and "drop_bit 6 (entryHi (init_entry asid i)) AND 0x3F = asid"
proof -
  note hv = entryHi_vpn [OF assms(2), of i]
  show "page_index (entryHi (init_entry asid i)) = of_nat i"
  proof (cases "i = 31")
    case True
    then show ?thesis unfolding page_index_def Let_def vpn_shift hv by (simp add: page_base_def)
  next
    case False
    then have u: "unat (page_base i) = 2 ^ 31 + i * 4096"
      using page_address [OF assms(1)] by (simp add: page_base_def)
    have "page_base i \<noteq> 0xBFFFF000"
    proof
      assume "page_base i = 0xBFFFF000"
      then have "unat (page_base i) = 0xBFFFF000" by simp
      then show False using u assms(1) by simp
    qed
    moreover have "drop_bit 12 (page_base i) = 0x80000 + of_nat i"
    proof -
      have "unat (drop_bit 12 (page_base i)) = drop_bit 12 (2 ^ 31 + i * 4096)"
        by (simp only: unat_drop_bit_eq u)
      also have "\<dots> = 0x80000 + i" by (simp add: drop_bit_eq_div)
      finally have "unat (drop_bit 12 (page_base i)) = 0x80000 + i" .
      moreover have "unat (0x80000 + of_nat i :: u32) = 0x80000 + i"
      proof -
        have "0x80000 + of_nat i = (of_nat (0x80000 + i) :: u32)" by simp
        then show ?thesis using assms(1) by (simp only:) (rule unat_of_nat_small, simp)
      qed
      ultimately show ?thesis by (metis word_unat_eq_iff)
    qed
    moreover have "push_bit 12 (drop_bit 12 (page_base i)) = page_base i"
      using vpn_shift [of "entryHi (init_entry asid i)"] unfolding hv .
    ultimately show ?thesis unfolding page_index_def Let_def hv by simp
  qed
  show "drop_bit 6 (entryHi (init_entry asid i)) AND 0x3F = asid"
    unfolding entryHi_page_base by (rule asid_field [OF assms(2) page_base_mask(2)])
qed

text \<open>The entry for the page of an address is for that page, unless the address is in page 31 of
  the low pages, which the stack's entry stands in for.\<close>

lemma page_base_index:
  assumes "unat (page_index e) < 32"
  shows "page_base (unat (page_index e)) = e AND 0xFFFFF000 \<longleftrightarrow> e AND 0xFFFFF000 \<noteq> 0x8001F000"
proof (cases "e AND 0xFFFFF000 = 0xBFFFF000")
  case True
  then have "page_index e = 31" by (simp add: page_index_def Let_def vpn_shift)
  then show ?thesis unfolding True by (simp add: page_base_def)
next
  case False
  define p where "p = page_index e"
  have "p = drop_bit 12 (e AND 0xFFFFF000) - 0x80000"
    using False by (simp add: p_def page_index_def Let_def vpn_shift del: drop_bit_and)
  then have d: "drop_bit 12 (e AND 0xFFFFF000) = p + 0x80000" by simp
  have e: "e AND 0xFFFFF000 = push_bit 12 (p + 0x80000)" using vpn_shift [of e] unfolding d by simp
  have b: "page_base (unat p) = push_bit 12 (if unat p = 31 then 0xBFFFF else 0x80000 + p)"
    by (simp add: page_base_shift)
  show ?thesis
  proof (cases "unat p = 31")
    case True
    then have p: "p = 31" by (intro word_unat_eq_iff [THEN iffD2]) simp
    show ?thesis using b e unfolding p_def [symmetric] p by simp
  next
    case False
    have "e AND 0xFFFFF000 \<noteq> 0x8001F000"
    proof
      assume "e AND 0xFFFFF000 = 0x8001F000"
      then have "p + 0x80000 = 0x8001F" using d by simp
      then have "p = 0x8001F - 0x80000" by (simp add: eq_diff_eq)
      then show False using False by simp
    qed
    then show ?thesis using b e False by (simp add: p_def [symmetric] add.commute)
  qed
qed

section \<open>The swap pool\<close>

lemma first_free_spec:
  assumes "\<forall>i\<in>set is. i < 16"
  shows "first_free pool is = (case filter (\<lambda>i. sw_occupied (pool i) = 0) is of
    [] \<Rightarrow> - 1 | i # _ \<Rightarrow> of_nat i)"
  using assms by (induction "is") auto

lemma getFreeFrame_cases:
  shows "(\<forall>i<16. sw_occupied (swapPool s i) \<noteq> 0) \<Longrightarrow> getFreeFrame s = - 1"
    and "i < 16 \<Longrightarrow> sw_occupied (swapPool s i) = 0 \<Longrightarrow> (\<And>j. j < i \<Longrightarrow> sw_occupied (swapPool s j) \<noteq> 0)
      \<Longrightarrow> getFreeFrame s = of_nat i"
proof -
  have f: "getFreeFrame s = (case filter (\<lambda>i. sw_occupied (swapPool s i) = 0) [0..<16] of
      [] \<Rightarrow> - 1 | i # _ \<Rightarrow> of_nat i)"
    unfolding getFreeFrame_def by (rule first_free_spec) simp
  show "getFreeFrame s = - 1" if "\<forall>i<16. sw_occupied (swapPool s i) \<noteq> 0"
  proof -
    have "filter (\<lambda>i. sw_occupied (swapPool s i) = 0) [0..<16] = []"
      using that by (simp add: filter_empty_conv del: upt.simps)
    then show ?thesis using f by simp
  qed
  show "getFreeFrame s = of_nat i" if i: "i < 16" "sw_occupied (swapPool s i) = 0"
    "\<And>j. j < i \<Longrightarrow> sw_occupied (swapPool s j) \<noteq> 0"
  proof -
    have "[0..<16] = [0..<i] @ i # [Suc i..<16]"
      using i(1) by (metis le0 less_imp_le_nat upt_add_eq_append upt_conv_Cons add_0 le_add_diff_inverse)
    moreover have "filter (\<lambda>i. sw_occupied (swapPool s i) = 0) [0..<i] = []"
      using i(3) by (simp add: filter_empty_conv)
    ultimately show ?thesis using f i(2) by simp
  qed
qed

lemma getFreeFrame_result:
  obtains (full) "getFreeFrame s = - 1" "\<forall>i<16. sw_occupied (swapPool s i) \<noteq> 0"
  | (free) i where "i < 16" "getFreeFrame s = of_nat i" "sw_occupied (swapPool s i) = 0"
proof (cases "\<exists>i<16. sw_occupied (swapPool s i) = 0")
  case True
  then obtain i where "i < 16 \<and> sw_occupied (swapPool s i) = 0"
    "\<And>j. j < i \<Longrightarrow> \<not> (j < 16 \<and> sw_occupied (swapPool s j) = 0)"
    using exists_least_iff [of "\<lambda>i. i < 16 \<and> sw_occupied (swapPool s i) = 0"] by blast
  then show ?thesis using free [of i] getFreeFrame_cases(2) [of i s] by fastforce
qed (use getFreeFrame_cases(1) full in blast)

lemma pickVictimFrame_step:
  assumes "unat (swapIndex s) < 16"
  shows "unat (swapIndex (snd (pickVictimFrame s))) = (unat (swapIndex s) + 1) mod 16"
proof -
  let ?i = "swapIndex s"
  have i: "sint ?i = int (unat ?i)" using assms by (intro sint_small) simp
  have "int (unat ?i) < 16" using assms by linarith
  then have "int (unat ?i) < int_max" by (rule less_trans) simp
  then have s: "sint (?i + 1) = int (unat ?i) + 1" unfolding i [symmetric] by (rule sint_inc)
  have "(int (unat ?i) + 1) smod 16 = (int (unat ?i) + 1) mod 16"
    using mod_pos_pos_trivial by (simp add: signed_modulo_int_def sgn_if)
  then have "swapIndex (snd (pickVictimFrame s)) = word_of_int ((int (unat ?i) + 1) mod 16)"
    unfolding pickVictimFrame_def Let_def by (simp add: s)
  also have "\<dots> = of_nat ((unat ?i + 1) mod 16)"
    by (metis of_int_of_nat_eq of_nat_Suc of_nat_numeral Suc_eq_plus1 add.commute zmod_int)
  finally show ?thesis by (simp add: unat_of_nat_small)
qed

primrec victims :: "nat \<Rightarrow> sstate \<Rightarrow> u32 list" where
  "victims 0 s = []"
| "victims (Suc n) s = fst (pickVictimFrame s) # victims n (snd (pickVictimFrame s))"

lemma length_victims [simp]: "length (victims n s) = n"
  by (induction n arbitrary: s) simp_all

lemma victims_nth:
  "unat (swapIndex s) < 16 \<Longrightarrow> j < n \<Longrightarrow> unat (victims n s ! j) = (unat (swapIndex s) + j) mod 16"
proof (induction n arbitrary: s j)
  case (Suc n)
  let ?t = "snd (pickVictimFrame s)"
  note step = pickVictimFrame_step [OF Suc.prems(1)]
  have "unat (swapIndex ?t) < 16" unfolding step by simp
  show ?case
  proof (cases j)
    case (Suc i)
    then have "unat (victims n ?t ! i) = (unat (swapIndex ?t) + i) mod 16"
      using Suc.IH [OF \<open>unat (swapIndex ?t) < 16\<close>] Suc.prems(2) by simp
    then show ?thesis unfolding step by (simp add: Suc mod_simps)
  qed (use Suc.prems(1) in simp)
qed simp

section \<open>Flash transfers\<close>

text \<open>The request for a page transfer, as the flash device of \<open>asid\<close> sees it.\<close>

definition page_request :: "u32 \<Rightarrow> u32 \<Rightarrow> u32 \<Rightarrow> u32 \<Rightarrow> sstate \<Rightarrow> bool" where
  "page_request command asid vpn frame q \<longleftrightarrow>
     mem q (d_data0 (flash_dev asid)) = frame_addr frame
   \<and> mem q (d_command (flash_dev asid)) = push_bit 8 (flash_block vpn) OR command
   \<and> status_reg (cpu q) AND IECON = 0"

text \<open>The device of \<open>asid\<close> is ready when the \<open>i\<close>-th request, a wait for it, is answered.\<close>

definition flash_ready :: "env \<Rightarrow> nat \<Rightarrow> u32 \<Rightarrow> bool" where
  "flash_ready h i asid \<longleftrightarrow> (\<forall>t. mem (snd (h i (WAITIO, FLASHINT, asid - 1, 0) t)) (flash_dev asid) = 1)"

lemma run_flash_transfer:
  assumes h: "cooperative k h" and r: "flash_ready h i asid"
  shows "\<exists>q t. page_request command asid vpn frame q \<and> kept k s q \<and> kept k s t
    \<and> sups q = sups s \<and> swapPool q = swapPool s \<and> tlb_ops q = tlb_ops s
    \<and> run (flash_transfer command asid vpn frame s) h i =
        ([((WAITIO, FLASHINT, asid - 1, 0), q)], Returned () t)"
proof -
  define q where "q = store_word (d_command (flash_dev asid))
      (push_bit COMMAND_SHIFT (flash_block vpn) OR command)
    (setENTRYHI ((entryHi_reg (cpu (disable_interrupts (store_word (d_data0 (flash_dev asid)) (frame_addr frame) s)))
        AND VPN_MASK) OR push_bit ASID_SHIFT asid)
      (disable_interrupts (store_word (d_data0 (flash_dev asid)) (frame_addr frame) s)))"
  obtain w t where h1: "h i (WAITIO, FLASHINT, asid - 1, 0) q = (w, t)" by fastforce
  then have m: "mem t (flash_dev asid) = 1" using r unfolding flash_ready_def by (metis snd_conv)
  have kq: "kept k s q" by (simp add: q_def kept_def)
  have "page_request command asid vpn frame q"
    by (simp add: q_def page_request_def setENTRYHI_def disable_interrupts_def word_bw_assocs)
  moreover have "kept k s (enable_interrupts t)"
    using kept_trans [OF kq cooperativeD(1) [OF h h1]] by (simp add: kept_def)
  moreover have "sups q = sups s" "swapPool q = swapPool s" "tlb_ops q = tlb_ops s" by (simp_all add: q_def)
  moreover have "run (flash_transfer command asid vpn frame s) h i =
        ([((WAITIO, FLASHINT, asid - 1, 0), q)], Returned () (enable_interrupts t))"
    unfolding flash_transfer_def Let_def q_def [symmetric] using h1 m by simp
  ultimately show ?thesis using kq by blast
qed

section \<open>The pager\<close>

lemma sups_set_entryLo [simp]:
  "sups (set_entryLo k j v s) = (sups s)(k := (sups s k)\<lparr>sup_pageTable :=
     (sup_pageTable (sups s k))(j := (sup_pageTable (sups s k) j)\<lparr>entryLo := v\<rparr>)\<rparr>)"
  "link (set_entryLo k j v s) = link s" "mem (set_entryLo k j v s) = mem s"
  "pcbTable (set_entryLo k j v s) = pcbTable s" "currentProcess (set_entryLo k j v s) = currentProcess s"
  "bytes (set_entryLo k j v s) = bytes s" "swapPool (set_entryLo k j v s) = swapPool s"
  "swapIndex (set_entryLo k j v s) = swapIndex s" "tlb_ops (set_entryLo k j v s) = tlb_ops s"
  "cpu (set_entryLo k j v s) = cpu s" "index_reg (set_entryLo k j v s) = index_reg s"
  "tlbp_result (set_entryLo k j v s) = tlbp_result s"
  by (simp_all add: set_entryLo_def)

text \<open>
  The page \<open>j\<close> of process \<open>k\<close> is in frame \<open>f\<close>: the swap pool and the page table agree, and the
  TLB holds nothing older.
\<close>

definition mapped :: "nat \<Rightarrow> u32 \<Rightarrow> u32 \<Rightarrow> u32 \<Rightarrow> u32 \<Rightarrow> sstate \<Rightarrow> bool" where
  "mapped k asid vpn j f q \<longleftrightarrow>
     swapPool q (unat f) = \<lparr>sw_asid = asid, sw_vpn = vpn, sw_occupied = 1\<rparr>
   \<and> entryLo (sup_pageTable (sups q k) (unat j)) = frame_addr f OR ENTRYLO_VALID OR ENTRYLO_DIRTY
   \<and> (\<exists>ops. tlb_ops q = ops @ [TLBCLR])"

lemma install_page_run:
  assumes "unat j < 32"
  shows "\<exists>s'. install_page k asid vpn j f s = Some s' \<and> mapped k asid vpn j f s' \<and> kept k s s'
    \<and> (\<forall>i. i \<noteq> unat j \<longrightarrow> sup_pageTable (sups s' k) i = sup_pageTable (sups s k) i)"
proof -
  have "0x20000000 + (32 + f) * 4096 = (0x20000000 + 32 * 4096 + f * 4096 :: u32)"
    by (simp add: distrib_right)
  then show ?thesis using assms
    by (simp add: install_page_def Let_def mapped_def kept_def frame_addr_def do_TLBCLR_def)
qed

lemma run_get_support_struct [simp]:
  "getSupportStruct a (disable_interrupts s) = getSupportStruct a s"
  by (simp add: getSupportStruct_def rd_def)

text \<open>What a probe for a victim's entry, with its new low word, does to the TLB.\<close>

definition tlb_probe :: "sstate \<Rightarrow> u32 \<Rightarrow> u32 \<Rightarrow> tlb_op list" where
  "tlb_probe s hi lo = TLBP hi #
     (if tlbp_result s hi AND INDEX_P_BIT = 0 then [TLBWI (tlbp_result s hi AND INDEX_MASK) hi lo] else [])"

lemma invalidate_run:
  assumes k: "getSupportStruct asid s = Some (Some kv)" and j: "j = unat (pte_index vpn)" "j < 32"
    and e: "e = sup_pageTable (sups s kv) j"
  shows "\<exists>s'. invalidate asid vpn s = Some s' \<and> kept k s s' \<and> swapPool s' = swapPool s
    \<and> entryLo (sup_pageTable (sups s' kv) j) = entryLo e AND NOT ENTRYLO_VALID
    \<and> tlb_ops s' = tlb_ops s @ tlb_probe s (entryHi e) (entryLo e AND NOT ENTRYLO_VALID)"
proof -
  define s1 where "s1 = set_entryLo kv j (entryLo e AND NOT ENTRYLO_VALID) (disable_interrupts s)"
  define s2 where "s2 = do_TLBP (setENTRYHI (entryHi e) s1)"
  define s3 where "s3 = (if index_reg s2 AND INDEX_P_BIT = 0
    then do_TLBWI (setENTRYLO (entryLo e AND NOT ENTRYLO_VALID) (s2\<lparr>index_reg := index_reg s2 AND INDEX_MASK\<rparr>))
    else s2)"
  have t: "sup_pageTable (sups s1 kv) j = e\<lparr>entryLo := entryLo e AND NOT ENTRYLO_VALID\<rparr>"
    by (simp add: s1_def e)
  have "invalidate asid vpn s = Some (enable_interrupts s3)"
    using k j(2) by (simp add: invalidate_def Let_def j(1) [symmetric] s3_def s2_def s1_def e)
  moreover have "index_reg s2 = tlbp_result s (entryHi e)" by (simp add: s2_def do_TLBP_def s1_def)
  moreover have "sups s3 = sups s1" "swapPool s3 = swapPool s" "kept k s1 s3"
    by (auto simp: s3_def s2_def s1_def kept_def)
  moreover have "kept k s s1" by (simp add: s1_def kept_def)
  ultimately show ?thesis using t kept_trans [OF \<open>kept k s s1\<close> \<open>kept k s1 s3\<close>]
    by (intro exI [of _ "enable_interrupts s3"])
       (auto simp: kept_def tlb_probe_def s3_def do_TLBWI_def s2_def do_TLBP_def s1_def)
qed

text \<open>The pager from the frame on: load, install, unlock, resume.\<close>

definition finish_fault :: "nat \<Rightarrow> u32 \<Rightarrow> u32 \<Rightarrow> u32 \<Rightarrow> u32 \<Rightarrow> sstate \<Rightarrow> unit act" where
  "finish_fault k asid vpn j f s =
     abind (loadPageFromBackingStore asid vpn f s) (\<lambda>_ s.
       when_some (install_page k asid vpn j f s) (\<lambda>s.
         abind (SYSCALL VERHOGEN (swapPoolSem (link s)) 0 0 s) (\<lambda>_ s.
           load_and_leave (SupState k PGFAULTEXCEPT) s)))"

lemma run_finish_fault:
  assumes h: "cooperative k h" and r: "flash_ready h i asid" and j: "unat j < 32"
    and st: "sup_exceptState (sups s k) 0 = st"
  shows "\<exists>q1 q2 e. page_request READBLK asid vpn f q1 \<and> mapped k asid vpn j f q2
    \<and> run (finish_fault k asid vpn j f s) h i =
      ([((WAITIO, FLASHINT, asid - 1, 0), q1), ((VERHOGEN, swapPoolSem (link s), 0, 0), q2)],
       Exited (LDST st) e)"
proof -
  obtain q1 t where q1: "page_request READBLK asid vpn f q1" "kept k s t"
    "run (flash_transfer READBLK asid vpn f s) h i =
        ([((WAITIO, FLASHINT, asid - 1, 0), q1)], Returned () t)"
    using run_flash_transfer [OF h r] by blast
  obtain q2 where q2: "install_page k asid vpn j f t = Some q2" "mapped k asid vpn j f q2" "kept k t q2"
    using install_page_run [OF j] by blast
  obtain v e where h1: "h (Suc i) (VERHOGEN, swapPoolSem (link q2), 0, 0) q2 = (v, e)" by fastforce
  have k2: "kept k s q2" by (rule kept_trans [OF q1(2) q2(3)])
  have "kept k s e" by (rule kept_trans [OF k2 cooperativeD(1) [OF h h1]])
  then have "sup_exceptState (sups e k) 0 = st" using keptD(4) st by simp
  then have "run (finish_fault k asid vpn j f s) h i =
      ([((WAITIO, FLASHINT, asid - 1, 0), q1), ((VERHOGEN, swapPoolSem (link s), 0, 0), q2)],
       Exited (LDST st) e)"
    using q1(3) q2(1) h1 keptD(1) [OF k2]
    by (simp add: finish_fault_def loadPageFromBackingStore_def run_abind after_cons load_and_leave_def)
  then show ?thesis using q1(1) q2(2) by blast
qed

text \<open>The running process faults: its support structure is \<open>k\<close>, the saved state \<open>st\<close>.\<close>

definition faults :: "nat \<Rightarrow> state_t \<Rightarrow> sstate \<Rightarrow> bool" where
  "faults k st s \<longleftrightarrow> current_support s = Some k \<and> sup_exceptState (sups s k) 0 = st
     \<and> s_cause st AND 0xFF \<noteq> 1 \<and> unat (page_index (s_entryHI st)) < PAGE_TABLE_SIZE"

abbreviation (input) vpn_of :: "state_t \<Rightarrow> u32" where
  "vpn_of st \<equiv> drop_bit VPNSHIFT (s_entryHI st AND VPN_MASK)"

lemma run_pagerHandler:
  assumes h: "cooperative k h" and f: "faults k st s"
    and t: "t = snd (h 0 (PASSEREN, swapPoolSem (link s), 0, 0) s)"
  shows "kept k s t \<and> run (pagerHandler s) h 0 = (case run (abind (obtain_frame t) (\<lambda>f u.
      finish_fault k (sup_asid (sups s k)) (vpn_of st) (page_index (s_entryHI st)) f u)) h 1 of
    (tr, res) \<Rightarrow> (((PASSEREN, swapPoolSem (link s), 0, 0), s) # tr, res))"
proof -
  obtain c where c: "currentProcess s = Some c" "p_supportStruct (pcbTable s c) = Some k"
    using f by (cases "currentProcess s") (auto simp: faults_def current_support_def)
  obtain v where h1: "h 0 (PASSEREN, swapPoolSem (link s), 0, 0) s = (v, t)"
    using t by (metis prod.collapse)
  have k: "kept k s t" by (rule cooperativeD(1) [OF h h1])
  have st: "sup_exceptState (sups s k) 0 = st" "sup_exceptState (sups t k) 0 = st"
    using f keptD(4) [OF k] by (simp_all add: faults_def)
  have "s_cause st AND 0xFF \<noteq> 1" using f by (simp add: faults_def)
  moreover have num_eq: "(3 :: u32) = 2 \<longleftrightarrow> False" by simp
  ultimately have "run (pagerHandler s) h 0 = (case run (abind (obtain_frame t) (\<lambda>f u.
      finish_fault k (sup_asid (sups s k)) (vpn_of st) (page_index (s_entryHI st)) f u)) h 1 of
    (tr, res) \<Rightarrow> (((PASSEREN, swapPoolSem (link s), 0, 0), s) # tr, res))"
    by (simp only: pagerHandler_def c when_some_simps Let_def load_state_simps st if_False abind.simps
        abind_SYSCALL run.simps fst_conv h1 prod.case finish_fault_def pte_index_page_index One_nat_def
        num_eq)
  then show ?thesis using k by blast
qed

lemma run_obtain_free:
  "getFreeFrame t \<noteq> - 1 \<Longrightarrow> obtain_frame t = Done (getFreeFrame t) t"
  by (simp add: obtain_frame_def Let_def)

lemma run_obtain_victim:
  assumes h: "cooperative k h" and full: "getFreeFrame t = - 1"
    and v: "v = swapIndex t" "unat v < 16" and e: "e = swapPool t (unat v)"
    and kv: "getSupportStruct (sw_asid e) t = Some (Some kv)"
    and j: "j = unat (pte_index (sw_vpn e))" "j < 32" and lo: "pte = sup_pageTable (sups t kv) j"
    and r: "flash_ready h i (sw_asid e)"
  shows "\<exists>q s'. page_request WRITEBLK (sw_asid e) (sw_vpn e) v q
    \<and> entryLo (sup_pageTable (sups q kv) j) = entryLo pte AND NOT ENTRYLO_VALID
    \<and> tlb_ops q = tlb_ops t @ tlb_probe t (entryHi pte) (entryLo pte AND NOT ENTRYLO_VALID)
    \<and> kept k t s' \<and> run (obtain_frame t) h i =
        ([((WAITIO, FLASHINT, sw_asid e - 1, 0), q)], Returned v s')"
proof -
  define t1 where "t1 = snd (pickVictimFrame t)"
  have t1: "swapPool t1 = swapPool t" "sups t1 = sups t" "tlb_ops t1 = tlb_ops t" "kept k t t1"
    "tlbp_result t1 = tlbp_result t" "getSupportStruct a t1 = getSupportStruct a t" for a
    by (simp_all add: t1_def pickVictimFrame_def Let_def kept_def getSupportStruct_def rd_def)
  have "getSupportStruct (sw_asid e) t1 = Some (Some kv)" using kv t1(6) by simp
  then obtain t2 where t2: "invalidate (sw_asid e) (sw_vpn e) t1 = Some t2" "kept k t1 t2"
    "entryLo (sup_pageTable (sups t2 kv) j) = entryLo pte AND NOT ENTRYLO_VALID"
    "tlb_ops t2 = tlb_ops t1 @ tlb_probe t1 (entryHi pte) (entryLo pte AND NOT ENTRYLO_VALID)"
    using invalidate_run [OF _ j, of "sw_asid e" t1 kv pte k] lo t1(2) by auto
  obtain q t3 where q: "page_request WRITEBLK (sw_asid e) (sw_vpn e) v q" "kept k t2 t3"
    "sups q = sups t2" "tlb_ops q = tlb_ops t2"
    "run (flash_transfer WRITEBLK (sw_asid e) (sw_vpn e) v t2) h i =
        ([((WAITIO, FLASHINT, sw_asid e - 1, 0), q)], Returned () t3)"
    using run_flash_transfer [OF h r] by blast
  have "pickVictimFrame t = (v, t1)" by (simp add: t1_def v(1) prod_eq_iff)
  then have "run (obtain_frame t) h i =
        ([((WAITIO, FLASHINT, sw_asid e - 1, 0), q)], Returned v t3)"
    using full v(2) t1(1) t2(1) e q(5)
    by (simp add: obtain_frame_def Let_def run_abind after_cons writePageToBackingStore_def)
  moreover have "kept k t t3" by (rule kept_trans [OF kept_trans [OF t1(4) t2(2)] q(2)])
  moreover have "tlb_probe t1 = tlb_probe t" by (simp add: fun_eq_iff tlb_probe_def t1(5))
  ultimately show ?thesis using q(1,3,4) t2(3,4) t1(3) by auto
qed

lemma run_page_fault_free:
  assumes h: "cooperative k h" and f: "faults k st s"
    and t: "t = snd (h 0 (PASSEREN, swapPoolSem (link s), 0, 0) s)"
    and free: "f = getFreeFrame t" "f \<noteq> - 1" and asid: "asid = sup_asid (sups s k)"
    and r: "flash_ready h 1 asid"
  shows "\<exists>q1 q2 e. run (pagerHandler s) h 0 =
      ([((PASSEREN, swapPoolSem (link s), 0, 0), s), ((WAITIO, FLASHINT, asid - 1, 0), q1),
        ((VERHOGEN, swapPoolSem (link s), 0, 0), q2)], Exited (LDST st) e)
    \<and> page_request READBLK asid (vpn_of st) f q1
    \<and> mapped k asid (vpn_of st) (page_index (s_entryHI st)) f q2
    \<and> sw_occupied (swapPool t (unat f)) = 0"
proof -
  note P = run_pagerHandler [OF h f t]
  have j: "unat (page_index (s_entryHI st)) < 32" and "sup_exceptState (sups s k) 0 = st"
    using f by (simp_all add: faults_def)
  then have "sup_exceptState (sups t k) 0 = st" using keptD(4) [of k s t] P by simp
  then obtain q1 q2 e where q: "page_request READBLK asid (vpn_of st) f q1"
    "mapped k asid (vpn_of st) (page_index (s_entryHI st)) f q2"
    "run (finish_fault k asid (vpn_of st) (page_index (s_entryHI st)) f t) h 1 =
      ([((WAITIO, FLASHINT, asid - 1, 0), q1), ((VERHOGEN, swapPoolSem (link t), 0, 0), q2)],
       Exited (LDST st) e)"
    using run_finish_fault [OF h r j] by blast
  have "run (pagerHandler s) h 0 =
      ([((PASSEREN, swapPoolSem (link s), 0, 0), s), ((WAITIO, FLASHINT, asid - 1, 0), q1),
        ((VERHOGEN, swapPoolSem (link s), 0, 0), q2)], Exited (LDST st) e)"
    using P q(3) keptD(1) [of k s t] free(2)
    unfolding run_obtain_free [OF free(2) [unfolded free(1)]] asid [symmetric] free(1) [symmetric]
    by (simp only: abind.simps prod.case)
  moreover have "sw_occupied (swapPool t (unat f)) = 0"
    by (rule getFreeFrame_result [of t]) (use free in \<open>auto simp: unat_of_nat_small\<close>)
  ultimately show ?thesis using q(1,2) by blast
qed

section \<open>Properties\<close>

text \<open>The page table of a process is found again through its entries: the entry at an index has
  the page number that the pager and the TLB refill handler map to that index, the process's address
  space identifier in its field, and is writable; only the entry of page 1 is marked valid, and it
  names frame 0 until the page is loaded.\<close>

theorem initPageTable_lookup:
  assumes "i < PAGE_TABLE_SIZE" and "asid = sup_asid (sups s k)" and "unat asid < 64"
    and "e = sup_pageTable (sups (initPageTable k s) k) i"
  shows "page_index (entryHi e) = of_nat i \<and> drop_bit ASID_SHIFT (entryHi e) AND 0x3F = asid
    \<and> entryLo e AND ENTRYLO_DIRTY \<noteq> 0 \<and> (entryLo e AND ENTRYLO_VALID \<noteq> 0 \<longleftrightarrow> i = 1)
    \<and> entryLo e AND VPN_MASK = 0"
proof -
  have e: "e = init_entry asid i" using assms(1,2,4) by (simp add: initPageTable_entries)
  show ?thesis
    using page_index_entry [OF assms(1,3)] unfolding e by (simp add: init_entry_def Let_def)
qed

theorem initPageTable_lookup_witness:
  "page_index (entryHi (sup_pageTable (sups (initPageTable 0 (user_process zero_state)) 0) 5)) = 5"
  using initPageTable_lookup [of 5 1 "user_process zero_state" 0] by simp

text \<open>The replacement of pages is a round robin: whatever frame is next, the \<open>j\<close>-th of the next
  victims is \<open>j\<close> frames further, modulo the size of the pool, so that in 16 replacements every frame
  is chosen exactly once.\<close>

theorem pickVictimFrame_round_robin:
  assumes "unat (swapIndex s) < SWAP_POOL_SIZE"
  shows "(\<forall>j<n. unat (victims n s ! j) = (unat (swapIndex s) + j) mod SWAP_POOL_SIZE)
    \<and> unat ` set (victims SWAP_POOL_SIZE s) = {..<SWAP_POOL_SIZE}"
proof -
  let ?b = "unat (swapIndex s)"
  have nth: "unat (victims 16 s ! j) = (?b + j) mod 16" if "j < 16" for j
    using victims_nth [OF assms that] .
  have "unat ` set (victims 16 s) = (\<lambda>j. unat (victims 16 s ! j)) ` {..<16}"
    by (auto simp: set_conv_nth image_def)
  also have "\<dots> = (\<lambda>j. (?b + j) mod 16) ` {..<16}" using nth by (intro image_cong) simp_all
  also have "\<dots> = {..<16}"
  proof (intro equalityI subsetI)
    fix x :: nat assume x: "x \<in> {..<16}"
    have "(?b + (x + 16 - ?b) mod 16) mod 16 = (?b + (x + 16 - ?b)) mod 16" by (simp add: mod_simps)
    also have "?b + (x + 16 - ?b) = x + 16" using assms by simp
    finally have "x = (?b + (x + 16 - ?b) mod 16) mod 16" using x by simp
    then show "x \<in> (\<lambda>j. (?b + j) mod 16) ` {..<16}" by (rule image_eqI) simp
  qed auto
  finally show ?thesis using victims_nth [OF assms] by blast
qed

theorem pickVictimFrame_round_robin_witness:
  "unat ` set (victims 16 (user_process zero_state)) = {..<16}"
  using pickVictimFrame_round_robin [of "user_process zero_state"] by (simp add: user_process_def zero_sstate_def)

text \<open>C7: A page fault with a free frame: under every environment in which the flash device reads, the
  pager takes the swap pool's lock, requests the missing page from the flash device of the process
  into that frame with interrupts off, and releases the lock with the page mapped: the frame is
  entered in the swap pool, the page table entry names the frame and is valid, and the TLB is
  flushed.  Then the process resumes at the faulting instruction.\<close>

theorem page_fault_free_frame:
  assumes h: "cooperative k h" and f: "faults k st s"
    and t: "t = snd (h 0 (PASSEREN, swapPoolSem (link s), 0, 0) s)"
    and free: "f = getFreeFrame t" "f \<noteq> - 1" and asid: "asid = sup_asid (sups s k)"
    and r: "flash_ready h 1 asid"
  shows "\<exists>q1 q2 e. run (pagerHandler s) h 0 =
      ([((PASSEREN, swapPoolSem (link s), 0, 0), s), ((WAITIO, FLASHINT, asid - 1, 0), q1),
        ((VERHOGEN, swapPoolSem (link s), 0, 0), q2)], Exited (LDST st) e)
    \<and> page_request READBLK asid (vpn_of st) f q1
    \<and> mapped k asid (vpn_of st) (page_index (s_entryHI st)) f q2
    \<and> sw_occupied (swapPool t (unat f)) = 0"
  by (rule run_page_fault_free [OF assms])

theorem page_fault_free_frame_witness:
  "\<exists>q1 q2 e. run (pagerHandler (user_process (zero_state\<lparr>s_entryHI := 0x80003040\<rparr>)))
      (alone 0 (\<lambda>_. 1)) 0 =
      ([((3, 0x20009004, 0, 0), user_process (zero_state\<lparr>s_entryHI := 0x80003040\<rparr>)),
        ((5, 4, 0, 0), q1), ((4, 0x20009004, 0, 0), q2)],
       Exited (LDST (zero_state\<lparr>s_entryHI := 0x80003040\<rparr>)) e)
    \<and> page_request 2 1 0x80003 0 q1"
proof -
  let ?st = "zero_state\<lparr>s_entryHI := 0x80003040\<rparr>"
  let ?s = "user_process ?st"
  let ?t = "snd (alone 0 (\<lambda>_. 1) 0 (3, swapPoolSem (link ?s), 0, 0) ?s)"
  have "swapPool ?t 0 = empty_frame" by (simp add: alone_def user_process_def zero_sstate_def)
  then have "getFreeFrame ?t = of_nat 0"
    by (intro getFreeFrame_cases(2)) (simp_all add: empty_frame_def)
  moreover have "faults 0 ?st ?s"
    by (simp add: faults_def page_index_def Let_def zero_state_def)
  moreover have "flash_ready (alone 0 (\<lambda>_. 1)) 1 1"
    by (simp add: flash_ready_def alone_def flash_dev_def DEV_REG_ADDR_def)
  ultimately show ?thesis
    using page_fault_free_frame [OF alone_cooperative [of 0 "\<lambda>_. 1"], of ?st ?s ?t 0 1]
    by (simp add: zero_link_def) blast
qed

text \<open>C6: A page fault with a full swap pool: the victim is the frame at the round-robin index; before
  its page is requested to be written to its owner's flash device, its page table entry has lost the
  valid bit and the TLB has been probed for it and, if it was there, updated.  The missing page is
  read into that frame only after this, and ends up mapped as in the other case.\<close>

theorem page_fault_evict:
  assumes h: "cooperative k h" and f: "faults k st s"
    and t: "t = snd (h 0 (PASSEREN, swapPoolSem (link s), 0, 0) s)"
    and full: "\<forall>i<SWAP_POOL_SIZE. sw_occupied (swapPool t i) \<noteq> 0"
    and v: "v = swapIndex t" "unat v < SWAP_POOL_SIZE" and e: "e = swapPool t (unat v)"
    and kv: "getSupportStruct (sw_asid e) t = Some (Some kv)"
    and j: "j = unat (pte_index (sw_vpn e))" "j < PAGE_TABLE_SIZE"
    and pte: "pte = sup_pageTable (sups t kv) j" and asid: "asid = sup_asid (sups s k)"
    and r: "flash_ready h 1 (sw_asid e)" "flash_ready h 2 asid"
  shows "\<exists>q q1 q2 u. run (pagerHandler s) h 0 =
      ([((PASSEREN, swapPoolSem (link s), 0, 0), s), ((WAITIO, FLASHINT, sw_asid e - 1, 0), q),
        ((WAITIO, FLASHINT, asid - 1, 0), q1), ((VERHOGEN, swapPoolSem (link s), 0, 0), q2)],
       Exited (LDST st) u)
    \<and> page_request WRITEBLK (sw_asid e) (sw_vpn e) v q
    \<and> entryLo (sup_pageTable (sups q kv) j) = entryLo pte AND NOT ENTRYLO_VALID
    \<and> tlb_ops q = tlb_ops t @ tlb_probe t (entryHi pte) (entryLo pte AND NOT ENTRYLO_VALID)
    \<and> page_request READBLK asid (vpn_of st) v q1
    \<and> mapped k asid (vpn_of st) (page_index (s_entryHI st)) v q2"
proof -
  note P = run_pagerHandler [OF h f t]
  have ji: "unat (page_index (s_entryHI st)) < 32" and "sup_exceptState (sups s k) 0 = st"
    using f by (simp_all add: faults_def)
  obtain q u where q: "page_request WRITEBLK (sw_asid e) (sw_vpn e) v q"
    "entryLo (sup_pageTable (sups q kv) j) = entryLo pte AND NOT ENTRYLO_VALID"
    "tlb_ops q = tlb_ops t @ tlb_probe t (entryHi pte) (entryLo pte AND NOT ENTRYLO_VALID)"
    "kept k t u" "run (obtain_frame t) h 1 = ([((WAITIO, FLASHINT, sw_asid e - 1, 0), q)], Returned v u)"
    using run_obtain_victim [OF h getFreeFrame_cases(1) [OF full] v e kv j pte r(1)] by blast
  have "kept k s u" using P q(4) kept_trans by blast
  then have "sup_exceptState (sups u k) 0 = st" "link u = link s"
    using keptD(1,4) [OF \<open>kept k s u\<close>] \<open>sup_exceptState (sups s k) 0 = st\<close> by simp_all
  then obtain q1 q2 w where w: "page_request READBLK asid (vpn_of st) v q1"
    "mapped k asid (vpn_of st) (page_index (s_entryHI st)) v q2"
    "run (finish_fault k asid (vpn_of st) (page_index (s_entryHI st)) v u) h 2 =
      ([((WAITIO, FLASHINT, asid - 1, 0), q1), ((VERHOGEN, swapPoolSem (link s), 0, 0), q2)],
       Exited (LDST st) w)"
    using run_finish_fault [OF h r(2) ji] by metis
  have "run (abind (obtain_frame t) (\<lambda>f u. finish_fault k asid (vpn_of st)
      (page_index (s_entryHI st)) f u)) h 1 =
    ([((WAITIO, FLASHINT, sw_asid e - 1, 0), q)] @
     [((WAITIO, FLASHINT, asid - 1, 0), q1), ((VERHOGEN, swapPoolSem (link s), 0, 0), q2)],
     Exited (LDST st) w)"
    using w(3) by (intro run_abindI [OF q(5)]) (simp add: numeral_2_eq_2 [symmetric])
  then have "run (pagerHandler s) h 0 =
      ([((PASSEREN, swapPoolSem (link s), 0, 0), s), ((WAITIO, FLASHINT, sw_asid e - 1, 0), q),
        ((WAITIO, FLASHINT, asid - 1, 0), q1), ((VERHOGEN, swapPoolSem (link s), 0, 0), q2)],
       Exited (LDST st) w)"
    using P by (simp add: asid)
  then show ?thesis using q(1-3) w(1,2) by blast
qed

theorem page_fault_evict_witness:
  "\<exists>tr u. run (pagerHandler ((user_process (zero_state\<lparr>s_entryHI := 0x80003040\<rparr>))
        \<lparr>swapPool := (\<lambda>_. \<lparr>sw_asid = 1, sw_vpn = 0x80005, sw_occupied = 1\<rparr>), swapIndex := 3,
         asidProcessTable := (\<lambda>_. Some 0)\<rparr>)) (alone 0 (\<lambda>_. 1)) 0 =
      (tr, Exited (LDST (zero_state\<lparr>s_entryHI := 0x80003040\<rparr>)) u)
    \<and> map fst tr = [(3, 0x20009004, 0, 0), (5, 4, 0, 0), (5, 4, 0, 0), (4, 0x20009004, 0, 0)]"
proof -
  let ?st = "zero_state\<lparr>s_entryHI := 0x80003040\<rparr>"
  let ?e = "\<lparr>sw_asid = 1, sw_vpn = 0x80005, sw_occupied = 1\<rparr>"
  let ?s = "(user_process ?st)\<lparr>swapPool := (\<lambda>_. ?e), swapIndex := 3, asidProcessTable := (\<lambda>_. Some 0)\<rparr>"
  let ?t = "snd (alone 0 (\<lambda>_. 1) 0 (3, swapPoolSem (link ?s), 0, 0) ?s)"
  have t: "swapPool ?t = (\<lambda>_. ?e)" "swapIndex ?t = 3" "getSupportStruct 1 ?t = Some (Some 0)"
    by (simp_all add: alone_def getSupportStruct_def rd_def user_process_def)
  have j: "unat (pte_index 0x80005) = 5" by (simp add: pte_index_def)
  have "faults 0 ?st ?s"
    by (simp add: faults_def page_index_def Let_def zero_state_def current_support_def user_process_def rd_def)
  moreover have "flash_ready (alone 0 (\<lambda>_. 1)) i 1" for i
    by (simp add: flash_ready_def alone_def flash_dev_def DEV_REG_ADDR_def)
  ultimately obtain q q1 q2 u where "run (pagerHandler ?s) (alone 0 (\<lambda>_. 1)) 0 =
      ([((3, 0x20009004, 0, 0), ?s), ((5, 4, 0, 0), q), ((5, 4, 0, 0), q1), ((4, 0x20009004, 0, 0), q2)],
       Exited (LDST ?st) u)"
    using page_fault_evict [OF alone_cooperative [of 0 "\<lambda>_. 1"], of ?st ?s ?t 3 ?e 0 5 _ 1] t j
    by (auto simp: zero_link_def)
  then show ?thesis by simp
qed

end
