(* ===== verification/TlbSpec.thy ===== *)
theory TlbSpec
  imports VmSpec
begin

text \<open>
  The TLB refill handler on the page tables \<open>initPageTable\<close> builds, and the two ways in which the
  pager does not end with a mapped page.
\<close>

lemma refill_index:
  "sint (p :: u32) < 0 \<or> 32 \<le> sint p \<longleftrightarrow> 32 \<le> unat p"
proof (cases "unat p < 2 ^ 31")
  case True
  then show ?thesis using sint_small [of p] by linarith
next
  case False
  have "\<not> 0 \<le> sint p"
  proof
    assume "0 \<le> sint p"
    then have "int (unat p) < 2 ^ 31" using sint_nonneg [of p] sint_less [of p] by simp
    then have "int (unat p) < int (2 ^ 31)" by (simp only: of_nat_power of_nat_numeral)
    then show False using False unfolding of_nat_less_iff by simp
  qed
  then show ?thesis using False by simp
qed

text \<open>C37: The TLB refill handler, for the running process: an address whose page has an entry makes it
  write exactly that entry into the TLB and resume the process, and the entry is for the page of the
  address, unless that page is \<open>0x8001F000\<close>, for which it is the entry of the stack page, so that
  the access misses again; any other address halts the whole machine by \<open>PANIC\<close>.\<close>

theorem tlb_refill:
  assumes cur: "currentProcess s = Some c" "p_supportStruct (pcbTable s c) = Some k"
    and table: "\<forall>i<PAGE_TABLE_SIZE. entryHi (sup_pageTable (sups s k) i) = entryHi (init_entry asid i)"
    and asid: "unat asid < 64"
    and e: "ehi = s_entryHI (bios s)" "p = unat (page_index ehi)" "pte = sup_pageTable (sups s k) p"
  shows "if p < PAGE_TABLE_SIZE
    then \<exists>s'. uTLB_RefillHandler s = Exit (LDST (bios s)) s'
      \<and> tlb_log s' = tlb_log s @ [(entryHi pte, entryLo pte)]
      \<and> (entryHi pte AND VPN_MASK = ehi AND VPN_MASK \<longleftrightarrow> ehi AND VPN_MASK \<noteq> 0x8001F000)
    else uTLB_RefillHandler s = Exit PANIC s"
proof (cases "p < PAGE_TABLE_SIZE")
  case True
  have "\<not> (sint (page_index ehi) < 0 \<or> 32 \<le> sint (page_index ehi))"
    unfolding refill_index using True e(2) by simp
  then have "\<exists>s'. uTLB_RefillHandler s = Exit (LDST (bios s)) s'
      \<and> tlb_log s' = tlb_log s @ [(entryHi pte, entryLo pte)]"
    using cur e by (simp add: uTLB_RefillHandler_def rd_def Let_def)
  moreover have "entryHi pte AND 0xFFFFF000 = page_base p"
    using table True e(3) entryHi_vpn [OF asid, of p] by simp
  ultimately show ?thesis using True page_base_index [of ehi] e(2) by simp
next
  case False
  then have "sint (page_index ehi) < 0 \<or> 32 \<le> sint (page_index ehi)"
    unfolding refill_index using e(2) by simp
  then show ?thesis using False cur e(1) by (simp add: uTLB_RefillHandler_def rd_def Let_def)
qed

theorem tlb_refill_witness:
  "uTLB_RefillHandler ((initPageTable 0 (user_process zero_state))\<lparr>bios := zero_state\<lparr>s_entryHI := 0x90000040\<rparr>\<rparr>) =
    Exit PANIC ((initPageTable 0 (user_process zero_state))\<lparr>bios := zero_state\<lparr>s_entryHI := 0x90000040\<rparr>\<rparr>)
   \<and> (\<exists>s'. uTLB_RefillHandler ((initPageTable 0 (user_process zero_state))\<lparr>bios := zero_state\<lparr>s_entryHI := 0x80002040\<rparr>\<rparr>) =
    Exit (LDST (zero_state\<lparr>s_entryHI := 0x80002040\<rparr>)) s')"
proof -
  let ?s = "\<lambda>e. (initPageTable 0 (user_process zero_state))\<lparr>bios := zero_state\<lparr>s_entryHI := e\<rparr>\<rparr>"
  have frame: "currentProcess (initPageTable k s) = currentProcess s \<and> pcbTable (initPageTable k s) = pcbTable s"
    for k s
  proof -
    have "currentProcess (foldl (\<lambda>s i. s\<lparr>sups := f s i\<rparr>) s xs) = currentProcess s
        \<and> pcbTable (foldl (\<lambda>s i. s\<lparr>sups := f s i\<rparr>) s xs) = pcbTable s" for f :: "sstate \<Rightarrow> nat \<Rightarrow> _" and xs
      by (induction xs arbitrary: s) simp_all
    then show ?thesis by (simp add: initPageTable_def Let_def del: upt.simps)
  qed
  have cur: "currentProcess (?s e) = Some 0" "p_supportStruct (pcbTable (?s e) 0) = Some 0" for e
    using frame [of 0 "user_process zero_state"] by (simp_all add: user_process_def)
  have t: "\<forall>i<32. entryHi (sup_pageTable (sups (?s e) 0) i) = entryHi (init_entry 1 i)" for e
    by (simp add: initPageTable_entries)
  have p: "unat (page_index 0x90000040) = 0x10000" "unat (page_index 0x80002040) = 2"
    by (simp_all add: page_index_def Let_def)
  show ?thesis
    using tlb_refill [OF cur t _ refl refl refl, of "0x90000040"] tlb_refill [OF cur t _ refl refl refl, of "0x80002040"]
    by (auto simp: p)
qed

text \<open>C38: The pager takes a TLB modification exception for a page fault: it compares the unshifted
  exception code with 1, so a process that writes to a page it may not write is not terminated; it
  resumes at the same instruction with the page loaded again, into a frame of its own.\<close>

theorem tlb_modification_not_terminated:
  assumes h: "cooperative k h" and cur: "current_support s = Some k"
    and st: "sup_exceptState (sups s k) 0 = st" "exceptionCode (s_cause st) = 1"
    and page: "unat (page_index (s_entryHI st)) < PAGE_TABLE_SIZE"
    and t: "t = snd (h 0 (PASSEREN, swapPoolSem (link s), 0, 0) s)"
    and free: "f = getFreeFrame t" "f \<noteq> - 1" and asid: "asid = sup_asid (sups s k)"
    and r: "flash_ready h 1 asid"
  shows "\<exists>tr e. run (pagerHandler s) h 0 = (tr, Exited (LDST st) e)
    \<and> map (fst \<circ> fst) tr = [PASSEREN, WAITIO, VERHOGEN]"
proof -
  have "s_cause st AND 0xFF \<noteq> 1"
  proof
    assume "s_cause st AND 0xFF = 1"
    then show False using st(2) by (simp add: exceptionCode_def del: drop_bit_and)
  qed
  then have f: "faults k st s" using cur st(1) page by (simp add: faults_def)
  show ?thesis using run_page_fault_free [OF h f t free asid r] by force
qed

theorem tlb_modification_not_terminated_witness:
  "\<exists>tr e. run (pagerHandler (user_process (zero_state\<lparr>s_entryHI := 0x80003040, s_cause := 4\<rparr>)))
      (alone 0 (\<lambda>_. 1)) 0 = (tr, Exited (LDST (zero_state\<lparr>s_entryHI := 0x80003040, s_cause := 4\<rparr>)) e)
    \<and> map (fst \<circ> fst) tr = [3, 5, 4]"
proof -
  let ?st = "zero_state\<lparr>s_entryHI := 0x80003040, s_cause := 4\<rparr>"
  let ?s = "user_process ?st"
  let ?t = "snd (alone 0 (\<lambda>_. 1) 0 (3, swapPoolSem (link ?s), 0, 0) ?s)"
  have "swapPool ?t 0 = empty_frame" by (simp add: alone_def user_process_def zero_sstate_def)
  then have "getFreeFrame ?t = of_nat 0"
    by (intro getFreeFrame_cases(2)) (simp_all add: empty_frame_def)
  moreover have "unat (page_index 0x80003040) < 32" by (simp add: page_index_def Let_def)
  moreover have "flash_ready (alone 0 (\<lambda>_. 1)) 1 1"
    by (simp add: flash_ready_def alone_def flash_dev_def DEV_REG_ADDR_def)
  ultimately show ?thesis
    by (intro tlb_modification_not_terminated [OF alone_cooperative [of 0 "\<lambda>_. 1"],
          where t = ?t and f = 0 and asid = 1 and s = ?s and st = ?st])
       (simp_all add: exceptionCode_def zero_link_def)
qed

text \<open>When the flash device reports anything but ready for the page, the pager halts the whole
  machine by \<open>PANIC\<close>, with the swap pool still locked, instead of treating the error as a program
  trap of the process.\<close>

theorem page_fault_flash_error:
  assumes h: "cooperative k h" and f: "faults k st s"
    and t: "t = snd (h 0 (PASSEREN, swapPoolSem (link s), 0, 0) s)"
    and free: "getFreeFrame t \<noteq> - 1" and asid: "asid = sup_asid (sups s k)"
    and r: "\<And>u. mem (snd (h 1 (WAITIO, FLASHINT, asid - 1, 0) u)) (flash_dev asid) \<noteq> 1"
  shows "\<exists>q e. run (pagerHandler s) h 0 =
    ([((PASSEREN, swapPoolSem (link s), 0, 0), s), ((WAITIO, FLASHINT, asid - 1, 0), q)], Exited PANIC e)"
proof -
  have "\<exists>q e. run (flash_transfer READBLK asid vpn frame u) h 1 =
      ([((WAITIO, FLASHINT, asid - 1, 0), q)], Exited PANIC e)" for vpn frame u
    using r unfolding flash_transfer_def Let_def by (simp split: prod.splits) (metis snd_conv)
  then obtain q e where q: "run (flash_transfer READBLK asid (vpn_of st) (getFreeFrame t) t) h 1 =
      ([((WAITIO, FLASHINT, asid - 1, 0), q)], Exited PANIC e)"
    by blast
  have "run (finish_fault k asid (vpn_of st) (page_index (s_entryHI st)) (getFreeFrame t) t) h 1 =
      ([((WAITIO, FLASHINT, asid - 1, 0), q)], Exited PANIC e)"
    unfolding finish_fault_def loadPageFromBackingStore_def run_abind q by simp
  then show ?thesis
    using run_pagerHandler [OF h f t] unfolding run_obtain_free [OF free] asid [symmetric] by simp
qed

theorem page_fault_flash_error_witness:
  "\<exists>tr e. run (pagerHandler (user_process (zero_state\<lparr>s_entryHI := 0x80003040\<rparr>)))
      (alone 0 (\<lambda>_. 4)) 0 = (tr, Exited PANIC e) \<and> map (fst \<circ> fst) tr = [3, 5]"
proof -
  let ?st = "zero_state\<lparr>s_entryHI := 0x80003040\<rparr>"
  let ?s = "user_process ?st"
  let ?t = "snd (alone 0 (\<lambda>_. 4) 0 (3, swapPoolSem (link ?s), 0, 0) ?s)"
  have "swapPool ?t 0 = empty_frame" by (simp add: alone_def user_process_def zero_sstate_def)
  then have "getFreeFrame ?t = of_nat 0"
    by (intro getFreeFrame_cases(2)) (simp_all add: empty_frame_def)
  then have free: "getFreeFrame ?t \<noteq> - 1" by simp
  have f: "faults 0 ?st ?s"
    by (simp add: faults_def page_index_def Let_def zero_state_def)
  have "mem (snd (alone 0 (\<lambda>_. 4) 1 (5, 4, 0, 0) u)) (flash_dev 1) \<noteq> 1" for u
    by (simp add: alone_def flash_dev_def DEV_REG_ADDR_def)
  then show ?thesis
    using page_fault_flash_error [OF alone_cooperative [of 0 "\<lambda>_. 4"] f refl free refl] by fastforce
qed

end
