(* ===== verification/KernelInv.thy ===== *)
theory KernelInv
  imports Interrupts
begin

text \<open>
  Where every PCB is.  The kernel keeps each of its \<open>MAXPROC\<close> PCBs in exactly one place: the free
  list, the ready queue, the queue of one semaphore, or in the hands of the running code (the set
  \<open>L\<close>: the current process, or a PCB an operation has taken out and not yet put back).  \<open>kq\<close> is
  that invariant with the representation of the three data structures; the lemmas give, for each
  operation of the first level, where it moves a PCB.
\<close>

section \<open>Results\<close>

text \<open>A call is defined, returns with \<open>Q\<close> or leaves the kernel with \<open>E\<close>.\<close>

definition kpost :: "('s, 'a) kres \<Rightarrow> ('a \<Rightarrow> 's \<Rightarrow> bool) \<Rightarrow> (kexit \<Rightarrow> 's \<Rightarrow> bool) \<Rightarrow> bool" where
  "kpost r Q E = (case r of Ret x s \<Rightarrow> Q x s | Exit e s \<Rightarrow> E e s | Stuck \<Rightarrow> False)"

lemma kpost_simps [simp]:
  "kpost (Ret x s) Q E = Q x s" "kpost (Exit e s) Q E = E e s" "kpost Stuck Q E = False"
  by (simp_all add: kpost_def)

lemma kpost_kthen [simp]: "kpost (kthen r f) Q E = kpost r (\<lambda>x s. kpost (f x s) Q E) E"
  by (cases r) simp_all

lemma kpost_mono:
  "kpost r Q E \<Longrightarrow> (\<And>x s. Q x s \<Longrightarrow> Q' x s) \<Longrightarrow> (\<And>e s. E e s \<Longrightarrow> E' e s) \<Longrightarrow> kpost r Q' E'"
  by (cases r) simp_all

section \<open>Places\<close>

definition placed :: "nat list \<Rightarrow> nat list \<Rightarrow> (u32 \<Rightarrow> nat list) \<Rightarrow> nat set \<Rightarrow> bool" where
  "placed fr rq B L \<longleftrightarrow> distinct fr \<and> distinct rq \<and> waiting_ok {..<MAXPROC} B
     \<and> set fr \<inter> set rq = {} \<and> (\<forall>a. set (B a) \<inter> (set fr \<union> set rq) = {})
     \<and> L \<inter> (set fr \<union> set rq \<union> (\<Union>a. set (B a))) = {}
     \<and> set fr \<union> set rq \<union> (\<Union>a. set (B a)) \<union> L = {..<MAXPROC}"

definition held :: "'z kstate_scheme \<Rightarrow> nat list \<Rightarrow> nat list \<Rightarrow> (u32 \<Rightarrow> nat list) \<Rightarrow> nat set \<Rightarrow> bool" where
  "held s fr rq B L \<longleftrightarrow> pcb_pool s fr \<and> procq s (readyQueue s) rq \<and> asl_inv s B
     \<and> placed fr rq B L \<and> (\<forall>p \<in> set rq. p_semAdd (pcbTable s p) = NULL_addr)"

text \<open>In all but the middle of \<open>sysTerminate\<close>, a PCB in hand names no semaphore either.\<close>

definition kq :: "'z kstate_scheme \<Rightarrow> nat list \<Rightarrow> nat list \<Rightarrow> (u32 \<Rightarrow> nat list) \<Rightarrow> nat set \<Rightarrow> bool" where
  "kq s fr rq B L \<longleftrightarrow> held s fr rq B L \<and> (\<forall>p \<in> L. p_semAdd (pcbTable s p) = NULL_addr)"

lemma placedD:
  assumes "placed fr rq B L"
  shows "distinct fr" "distinct rq" "waiting_ok {..<MAXPROC} B" "set fr \<inter> set rq = {}"
    "set (B a) \<inter> (set fr \<union> set rq) = {}" "L \<inter> (set fr \<union> set rq \<union> (\<Union>a. set (B a))) = {}"
    "set fr \<union> set rq \<union> (\<Union>a. set (B a)) \<union> L = {..<MAXPROC}"
  using assms by (auto simp: placed_def)

lemma UN_upd: "(\<Union>b. set ((B(a := q)) b)) = set q \<union> (\<Union>b \<in> - {a}. set (B b))"
  by (auto split: if_split_asm)

lemma UN_split: "(\<Union>b. set (B b)) = set (B a) \<union> (\<Union>b \<in> - {a}. set (B b))"
  by auto

lemma placed_free: "placed fr rq B L \<Longrightarrow> p \<in> L \<Longrightarrow> placed (p # fr) rq B (L - {p})"
  unfolding placed_def by auto

lemma placed_alloc: "placed (p # fr) rq B L \<Longrightarrow> placed fr rq B (insert p L)"
  unfolding placed_def by auto

lemma placed_ready: "placed fr rq B L \<Longrightarrow> p \<in> L \<Longrightarrow> placed fr (rq @ [p]) B (L - {p})"
  unfolding placed_def by auto

lemma placed_unready: "placed fr rq B L \<Longrightarrow> p \<in> set rq \<Longrightarrow> placed fr (remove1 p rq) B (insert p L)"
  unfolding placed_def by (auto simp: set_remove1_eq)

lemma placed_block:
  assumes "placed fr rq B L" and "p \<in> L"
  shows "placed fr rq (B(a := B a @ [p])) (L - {p})"
proof -
  note P = placedD [OF assms(1)]
  have "p < MAXPROC" "\<forall>b. p \<notin> set (B b)" using P(6,7) assms(2) by blast+
  then have "waiting_ok {..<MAXPROC} (B(a := B a @ [p]))"
    using P(3) by (intro waiting_ok_add) auto
  moreover have "(\<Union>b. set ((B(a := B a @ [p])) b)) = insert p (\<Union>b. set (B b))"
    unfolding UN_upd UN_split [of B a] by auto
  ultimately show ?thesis
    using P assms(2) unfolding placed_def by (simp only:) auto
qed

lemma placed_unblock:
  assumes "placed fr rq B L" and "p \<in> set (B a)"
  shows "placed fr rq (B(a := remove1 p (B a))) (insert p L)"
proof -
  note P = placedD [OF assms(1)]
  have q: "distinct (B a)" "set (remove1 p (B a)) = set (B a) - {p}"
    using waiting_okD(1) [OF P(3)] by (simp_all add: set_remove1_eq)
  then have "waiting_ok {..<MAXPROC} (B(a := remove1 p (B a)))"
    using P(3) by (intro waiting_ok_sub) auto
  moreover have "p \<notin> (\<Union>b \<in> - {a}. set (B b))"
    using waiting_okD(3) [OF P(3)] assms(2) by blast
  then have "(\<Union>b. set ((B(a := remove1 p (B a))) b)) = (\<Union>b. set (B b)) - {p}"
    unfolding UN_upd UN_split [of B a] q(2) by blast
  moreover have "p \<notin> set fr" "p \<notin> set rq" using P(5) [of a] assms(2) by blast+
  ultimately show ?thesis
    using P assms(2) unfolding placed_def by (simp only:) (auto simp: q(2))
qed

section \<open>Changes that move no PCB\<close>

text \<open>\<open>sameq s s' A\<close>: the three data structures are the same, and the queue fields of the PCBs of \<open>A\<close>.\<close>

lemma procq_links:
  assumes "\<And>x. x \<in> set xs \<Longrightarrow> p_next (pcbTable s' x) = p_next (pcbTable s x)
      \<and> p_prev (pcbTable s' x) = p_prev (pcbTable s x)"
  shows "procq s' tp xs = procq s tp xs"
  using cyc_cong [of xs "nx (pcbTable s')" "nx (pcbTable s)" "pv (pcbTable s')" "pv (pcbTable s)"]
    assms by (simp add: procq_def nx_def pv_def)

lemma asl_inv_cong:
  assumes "asl_inv s B"
    and "semdTable s' = semdTable s" "semd_h s' = semd_h s" "semdFree_h s' = semdFree_h s"
    and pcbs: "\<And>a x. x \<in> set (B a) \<Longrightarrow> p_next (pcbTable s' x) = p_next (pcbTable s x)
      \<and> p_prev (pcbTable s' x) = p_prev (pcbTable s x)
      \<and> p_semAdd (pcbTable s' x) = p_semAdd (pcbTable s x)"
  shows "asl_inv s' B"
proof -
  obtain ds fs where rep: "asl_rep s ds fs" and B: "B = blocked ds"
    using assms(1) by (auto simp: asl_inv_def)
  have "desc_ok s' d = desc_ok s d" if d: "d \<in> set ds" for d
  proof -
    have "x \<in> set (que d) \<Longrightarrow> \<exists>a. x \<in> set (B a)" for x
      using queued_mem [OF d] queued_blocked [OF rep] B by auto
    then have "p_next (pcbTable s' x) = p_next (pcbTable s x) \<and> p_prev (pcbTable s' x) = p_prev (pcbTable s x)
      \<and> p_semAdd (pcbTable s' x) = p_semAdd (pcbTable s x)" if "x \<in> set (que d)" for x
      using pcbs that by blast
    then show ?thesis
      using procq_links [of "que d" s' s] assms(2) by (auto simp: desc_ok_def)
  qed
  then have "asl_rep s' ds fs" using rep assms(2-4) by (simp add: asl_rep_def asl_shape_def)
  then show ?thesis using B by (auto simp: asl_inv_def)
qed

lemma held_cong:
  assumes "held s fr rq B L"
    and "pcbFree_h s' = pcbFree_h s" "readyQueue s' = readyQueue s"
    and "semdTable s' = semdTable s" "semd_h s' = semd_h s" "semdFree_h s' = semdFree_h s"
    and "\<And>x. p_next (pcbTable s' x) = p_next (pcbTable s x)
      \<and> p_prev (pcbTable s' x) = p_prev (pcbTable s x)
      \<and> p_semAdd (pcbTable s' x) = p_semAdd (pcbTable s x)"
  shows "held s' fr rq B L"
  using assms(1) pcb_pool_cong [of fr s' s] procq_links [of rq s' s] asl_inv_cong [of s B s'] assms(2-)
  by (simp add: held_def)

lemma kq_cong:
  assumes "kq s fr rq B L"
    and "pcbFree_h s' = pcbFree_h s" "readyQueue s' = readyQueue s"
    and "semdTable s' = semdTable s" "semd_h s' = semd_h s" "semdFree_h s' = semdFree_h s"
    and "\<And>x. p_next (pcbTable s' x) = p_next (pcbTable s x)
      \<and> p_prev (pcbTable s' x) = p_prev (pcbTable s x)
      \<and> p_semAdd (pcbTable s' x) = p_semAdd (pcbTable s x)"
  shows "kq s' fr rq B L"
  using assms(1) held_cong [OF _ assms(2-7)] assms(7) by (simp add: kq_def)

section \<open>What moving a PCB leaves unchanged\<close>

definition kframe :: "'z kstate_scheme \<Rightarrow> 'z kstate_scheme \<Rightarrow> bool" where
  "kframe s s' \<longleftrightarrow> link s' = link s \<and> mem s' = mem s \<and> states s' = states s \<and> sups s' = sups s
     \<and> processCount s' = processCount s \<and> softBlockCount s' = softBlockCount s
     \<and> currentProcess s' = currentProcess s \<and> bios s' = bios s \<and> cpu s' = cpu s
     \<and> tod s' = tod s \<and> tod_n s' = tod_n s \<and> tlb_log s' = tlb_log s
     \<and> kstate.more s' = kstate.more s
     \<and> (\<forall>i. unasl (pcbTable s' i) = unasl (pcbTable s i))"

lemma kframe_refl [simp]: "kframe s s"
  by (simp add: kframe_def)

lemma kframe_trans: "kframe s s' \<Longrightarrow> kframe s' s'' \<Longrightarrow> kframe s s''"
  by (simp add: kframe_def)

lemma kframe_pcb:
  assumes "kframe s s'"
  shows "p_prnt (pcbTable s' i) = p_prnt (pcbTable s i)" "p_child (pcbTable s' i) = p_child (pcbTable s i)"
    "p_sib_right (pcbTable s' i) = p_sib_right (pcbTable s i)"
    "p_sib_left (pcbTable s' i) = p_sib_left (pcbTable s i)" "p_s (pcbTable s' i) = p_s (pcbTable s i)"
    "p_time (pcbTable s' i) = p_time (pcbTable s i)"
    "p_startTOD (pcbTable s' i) = p_startTOD (pcbTable s i)"
    "p_supportStruct (pcbTable s' i) = p_supportStruct (pcbTable s i)"
  using assms unasl_eqD [of "pcbTable s' i" "pcbTable s i"] by (simp_all add: kframe_def)

lemma more_eqD:
  fixes s s' :: "'z kstate_scheme"
  assumes "asl_mod.more s' = asl_mod.more s"
  shows "link s' = link s" "mem s' = mem s" "states s' = states s" "sups s' = sups s"
    "processCount s' = processCount s" "softBlockCount s' = softBlockCount s"
    "currentProcess s' = currentProcess s" "bios s' = bios s" "cpu s' = cpu s"
    "tod s' = tod s" "tod_n s' = tod_n s" "tlb_log s' = tlb_log s"
    "kstate.more s' = kstate.more s" "readyQueue s' = readyQueue s"
  using assms by (cases s; cases s'; simp)+

lemma kframe_aframe: "aframe A s s' \<Longrightarrow> kframe s s'"
  using more_eqD [OF aframeD(3), of A s s'] by (simp add: kframe_def aframe_def)

lemma kframe_qframe: "qframe A s s' \<Longrightarrow> kframe s s'"
  using more_eqD [OF asl_qframe(4), of A s s'] unasl_unq [OF qframeD(4), of A s s']
  by (simp add: kframe_def)

lemma readyQueue_frames:
  fixes s s' :: "'z kstate_scheme"
  shows "aframe A s s' \<Longrightarrow> readyQueue s' = readyQueue s"
    and "qframe A s s' \<Longrightarrow> readyQueue s' = readyQueue s"
  using more_eqD(14) [OF aframeD(3), of A s s'] more_eqD(14) [OF asl_qframe(4), of A s s'] by auto

section \<open>Operations that move a PCB\<close>

lemma kqD:
  assumes "kq s fr rq B L"
  shows "pcb_pool s fr" "procq s (readyQueue s) rq" "asl_inv s B" "placed fr rq B L"
    "p \<in> set rq \<Longrightarrow> p_semAdd (pcbTable s p) = NULL_addr"
    "p \<in> L \<Longrightarrow> p_semAdd (pcbTable s p) = NULL_addr"
  using assms by (auto simp: kq_def held_def)

lemma asl_inv_qframe:
  assumes "asl_inv s B" and "qframe A s s'" and "\<And>a. A \<inter> set (B a) = {}"
  shows "asl_inv s' B"
proof (rule asl_inv_cong [OF assms(1)])
  fix a x assume "x \<in> set (B a)"
  then have "x \<notin> A" using assms(3) by blast
  then show "p_next (pcbTable s' x) = p_next (pcbTable s x) \<and> p_prev (pcbTable s' x) = p_prev (pcbTable s x)
      \<and> p_semAdd (pcbTable s' x) = p_semAdd (pcbTable s x)"
    using qframeD(3) [OF assms(2)] by simp
qed (use asl_qframe [OF assms(2)] in simp_all)

text \<open>A step on the ready queue: \<open>tp\<close> is the new value of \<open>readyQueue\<close>.\<close>

lemma kq_ready_step:
  assumes k: "kq s fr rq B L" and f: "qframe A s s'" and q: "procq s' tp rq'"
    and A: "A \<subseteq> set rq \<union> L" and pl: "placed fr rq' B L'" and sub: "set rq' \<union> L' \<subseteq> set rq \<union> L"
  shows "kq (s'\<lparr>readyQueue := tp\<rparr>) fr rq' B L'" and "kframe s (s'\<lparr>readyQueue := tp\<rparr>)"
proof -
  note K = kqD [OF k] and P = placedD [OF kqD(4) [OF k]]
  let ?s = "s'\<lparr>readyQueue := tp\<rparr>"
  have dis: "A \<inter> set fr = {}" "A \<inter> set (B a) = {}" for a
    using A P(4,5,6) by blast+
  have "asl_inv s' B" by (rule asl_inv_qframe [OF K(3) f dis(2)])
  then have "asl_inv ?s B" by (rule asl_inv_cong) simp_all
  moreover have "pcb_pool s' fr" by (rule pcb_pool_qframe [OF f dis(1) K(1)])
  then have "pcb_pool ?s fr" using pcb_pool_cong [of fr ?s s'] by simp
  moreover have "procq ?s tp rq'" using q procq_links [of rq' ?s s'] by simp
  ultimately show "kq ?s fr rq' B L'"
    using pl sub K(5,6) qframe_unq(8) [OF f] by (auto simp: kq_def held_def)
  show "kframe s ?s"
    using kframe_qframe [OF f] by (simp add: kframe_def)
qed

lemma kq_dequeue:
  assumes k: "kq s fr (p # rq) B L"
  shows "\<exists>tp s'. removeProcQ (readyQueue s) s = Some (Some p, tp, s')
    \<and> kq (s'\<lparr>readyQueue := tp\<rparr>) fr rq B (insert p L) \<and> kframe s (s'\<lparr>readyQueue := tp\<rparr>)"
proof -
  obtain tp s' where r: "removeProcQ (readyQueue s) s = Some (Some p, tp, s')" "procq s' tp rq"
    "qframe (set (p # rq)) s s'"
    using removeProcQ_spec [OF kqD(2) [OF k]] by blast
  have "placed fr rq B (insert p L)"
    using placed_unready [OF kqD(4) [OF k], of p] by simp
  then show ?thesis
    using kq_ready_step [OF k r(3,2)] r(1) by auto
qed

lemma kq_enqueue:
  assumes k: "kq s fr rq B L" and p: "p \<in> L"
  shows "\<exists>s'. make_ready (Some p) s = Ret () s' \<and> kq s' fr (rq @ [p]) B (L - {p}) \<and> kframe s s'"
proof -
  have "p \<notin> set rq" using placedD(6) [OF kqD(4) [OF k]] p by blast
  then obtain s' where r: "insertProcQ (readyQueue s) (Some p) s = Some (Some p, s')"
    "procq s' (Some p) (rq @ [p])" "qframe (insert p (set rq)) s s'"
    using insertProcQ_spec [OF kqD(2) [OF k]] by blast
  show ?thesis
    using kq_ready_step [OF k r(3,2) _ placed_ready [OF kqD(4) [OF k] p]] r(1) p
    by (auto simp: make_ready_def)
qed

lemma kq_unqueue:
  assumes k: "kq s fr rq B L" and p: "p \<in> set rq"
  shows "\<exists>s'. unqueue_dead p s = Ret () s' \<and> kq s' fr (remove1 p rq) B (insert p L) \<and> kframe s s'"
proof -
  obtain tp s' where r: "outProcQ (readyQueue s) (Some p) s = Some (Some p, tp, s')"
    "procq s' tp (remove1 p rq)" "qframe (set rq) s s'"
    using outProcQ_present [OF kqD(2) [OF k] p] by blast
  show ?thesis
    using kq_ready_step [OF k r(3,2) _ placed_unready [OF kqD(4) [OF k] p]] r(1) p
    by (auto simp: unqueue_dead_def dest: in_set_remove1 notin_set_remove1 set_remove1_subset [THEN subsetD])
qed

lemma kq_unqueue_absent:
  assumes k: "kq s fr rq B L" and p: "p \<notin> set rq"
  shows "unqueue_dead p s = Ret () s"
  using outProcQ_absent [OF kqD(2) [OF k] p] by (simp add: unqueue_dead_def)

text \<open>A step on the semaphore list.\<close>

lemma kq_sem_step:
  assumes k: "held s fr rq B L" and s1: "\<And>x. x \<notin> L \<Longrightarrow> pcbTable s1 x = pcbTable s x" "pcbFree_h s1 = pcbFree_h s"
      "readyQueue s1 = readyQueue s"
    and f: "aframe A s1 s'" and A: "A \<subseteq> set (B a) \<union> L"
    and inv: "asl_inv s' B'" and pl: "placed fr rq B' L'"
  shows "held s' fr rq B' L'"
proof -
  have pl0: "placed fr rq B L" using k by (simp add: held_def)
  note P = placedD [OF pl0]
  have same: "pcbTable s' x = pcbTable s x" if "x \<in> set fr \<union> set rq" for x
  proof -
    have "x \<notin> A" "x \<notin> L" using that A P(5) [of a] P(6) by blast+
    then show ?thesis using aframeD(4) [OF f] s1(1) by simp
  qed
  have "pcbFree_h s' = pcbFree_h s" "readyQueue s' = readyQueue s"
    using aframeD(1) [OF f] readyQueue_frames(1) [OF f] s1(2,3) by simp_all
  then show ?thesis
    using k inv pl same pcb_pool_cong [of fr s' s] procq_links [of rq s' s] by (simp add: held_def)
qed

lemma kq_wake:
  assumes k: "kq s fr rq B L" and a: "B a = p # ps"
  shows "\<exists>s'. removeBlocked a s = Some (Some p, s') \<and> kq s' fr rq (B(a := ps)) (insert p L)
    \<and> kframe s s'"
proof -
  obtain s' where r: "removeBlocked a s = Some (Some p, s')" "asl_inv s' (B(a := ps))"
    "aframe (set (p # ps)) s s'" "p_semAdd (pcbTable s' p) = NULL_addr"
    using removeBlocked_spec [OF kqD(3) [OF k] a] by blast
  have "placed fr rq (B(a := ps)) (insert p L)"
    using placed_unblock [OF kqD(4) [OF k], of p a] a by simp
  then have "held s' fr rq (B(a := ps)) (insert p L)"
    using k a r(2) by (intro kq_sem_step [OF _ _ _ _ r(3), where a = a]) (auto simp: kq_def)
  moreover have "p_semAdd (pcbTable s' x) = NULL_addr" if "x \<in> insert p L" for x
  proof (cases "x = p")
    case False
    then have "x \<in> L" using that by simp
    then have "x \<notin> set (p # ps)" using placedD(6) [OF kqD(4) [OF k]] a by (metis IntI UNIV_I UN_I UnI2 empty_iff)
    then show ?thesis using aframeD(4) [OF r(3)] kqD(6) [OF k \<open>x \<in> L\<close>] by simp
  qed (use r(4) in simp)
  ultimately show ?thesis using r(1) kframe_aframe [OF r(3)] by (auto simp: kq_def)
qed

lemma kq_block:
  assumes k: "kq s fr rq B L" and p: "p \<in> L" and a: "a < MAXINT"
  shows "\<exists>s'. insertBlocked a (Some p) (s\<lparr>pcbTable := (pcbTable s)(p := r)\<rparr>) = Some (False, s')
    \<and> kq s' fr rq (B(a := B a @ [p])) (L - {p}) \<and> kframe (s\<lparr>pcbTable := (pcbTable s)(p := r)\<rparr>) s'"
proof -
  let ?s = "s\<lparr>pcbTable := (pcbTable s)(p := r)\<rparr>"
  note P = placedD [OF kqD(4) [OF k]]
  have free: "\<forall>b. p \<notin> set (B b)" using P(6) p by blast
  have inv: "asl_inv ?s B"
    by (rule asl_inv_cong [OF kqD(3) [OF k]]) (use free in auto)
  have lt: "p < MAXPROC" "\<forall>b. set (B b) \<subseteq> {..<MAXPROC}" using P(7) p by blast+
  have "\<exists>A s'. insertBlocked a (Some p) ?s = Some (False, s') \<and> asl_inv s' (B(a := B a @ [p]))
      \<and> aframe A ?s s' \<and> A \<subseteq> set (B a) \<union> {p}"
  proof (cases "B a = []")
    case True
    then show ?thesis using insertBlocked_fresh [OF inv a True free lt] by fastforce
  next
    case False
    then show ?thesis using insertBlocked_active [OF inv False free] by fastforce
  qed
  then obtain A s' where r: "insertBlocked a (Some p) ?s = Some (False, s')"
    "asl_inv s' (B(a := B a @ [p]))" "aframe A ?s s'" "A \<subseteq> set (B a) \<union> {p}" by blast
  have "held s' fr rq (B(a := B a @ [p])) (L - {p})"
    using k r(2,4) p placed_block [OF kqD(4) [OF k] p]
    by (intro kq_sem_step [OF _ _ _ _ r(3), where a = a]) (auto simp: kq_def)
  moreover have "p_semAdd (pcbTable s' x) = NULL_addr" if "x \<in> L - {p}" for x
  proof -
    have "x \<notin> A" using that r(4) P(6) by blast
    then show ?thesis using aframeD(4) [OF r(3)] kqD(6) [OF k] that by simp
  qed
  ultimately show ?thesis using r(1) kframe_aframe [OF r(3)] by (auto simp: kq_def)
qed

lemma kq_unblock:
  assumes k: "kq s fr rq B L" and p: "p \<in> set (B a)"
  shows "\<exists>s'. outBlocked (Some p) s = Some (Some p, s')
    \<and> held s' fr rq (B(a := remove1 p (B a))) (insert p L)
    \<and> (\<forall>x \<in> L. p_semAdd (pcbTable s' x) = NULL_addr) \<and> kframe s s'"
proof -
  obtain s' where r: "outBlocked (Some p) s = Some (Some p, s')"
    "asl_inv s' (B(a := remove1 p (B a)))" "aframe (set (B a)) s s'"
    using outBlocked_spec [OF kqD(3) [OF k] p] by blast
  have "held s' fr rq (B(a := remove1 p (B a))) (insert p L)"
    using placed_unblock [OF kqD(4) [OF k] p] k r(2)
    by (intro kq_sem_step [OF _ _ _ _ r(3), where a = a]) (auto simp: kq_def)
  moreover have "p_semAdd (pcbTable s' x) = NULL_addr" if "x \<in> L" for x
  proof -
    have "x \<notin> set (B a)" using that placedD(6) [OF kqD(4) [OF k]] by blast
    then show ?thesis using aframeD(4) [OF r(3)] kqD(6) [OF k that] by simp
  qed
  ultimately show ?thesis using r(1) kframe_aframe [OF r(3)] by auto
qed

lemma kq_alloc:
  assumes k: "kq s (x # fr) rq B L"
  shows "allocPcb s = Some (Some x, take_pcb x s)" and "kq (take_pcb x s) fr rq B (insert x L)"
proof -
  note K = kqD [OF k] and P = placedD [OF kqD(4) [OF k]]
  show "allocPcb s = Some (Some x, take_pcb x s)" by (rule allocPcb_first [OF K(1)])
  have x: "x \<notin> set rq" "x \<notin> set (B a)" for a using P(4) P(5) [of a] by auto
  have "asl_inv (take_pcb x s) B"
    by (rule asl_inv_cong [OF K(3)]) (use x in \<open>auto simp: take_pcb_def\<close>)
  moreover have "procq (take_pcb x s) (readyQueue s) rq = procq s (readyQueue s) rq"
    by (rule procq_links) (use x in \<open>auto simp: take_pcb_def\<close>)
  then have "procq (take_pcb x s) (readyQueue (take_pcb x s)) rq"
    using K(2) by (simp add: take_pcb_def)
  moreover have "x \<notin> L" using P(6) by auto
  ultimately show "kq (take_pcb x s) fr rq B (insert x L)"
    using placed_alloc [OF K(4)] K(5,6) x allocPcb_first(2) [OF K(1)]
    by (auto simp: kq_def held_def) (auto simp: take_pcb_def)
qed

lemma kq_free:
  assumes k: "held s fr rq B L" and p: "p \<in> L" and sem: "\<forall>x \<in> L - {p}. p_semAdd (pcbTable s x) = NULL_addr"
  shows "freePcb (Some p) s = Some (give_pcb p s)" and "kq (give_pcb p s) (p # fr) rq B (L - {p})"
proof -
  have K: "pcb_pool s fr" "procq s (readyQueue s) rq" "asl_inv s B" "placed fr rq B L"
    "\<forall>p \<in> set rq. p_semAdd (pcbTable s p) = NULL_addr" using k by (simp_all add: held_def)
  note P = placedD [OF K(4)]
  have x: "p \<notin> set rq" "p \<notin> set (B a)" "p \<notin> set fr" for a using P(6) p by auto
  show "freePcb (Some p) s = Some (give_pcb p s)" by (rule freePcb_front [OF K(1) x(3)])
  have sem_same: "p_semAdd (pcbTable (give_pcb p s) y) = p_semAdd (pcbTable s y)" for y
    by (simp add: give_pcb_def)
  have "asl_inv (give_pcb p s) B"
    by (rule asl_inv_cong [OF K(3)]) (use x in \<open>auto simp: give_pcb_def\<close>)
  moreover have "procq (give_pcb p s) (readyQueue s) rq = procq s (readyQueue s) rq"
    by (rule procq_links) (use x in \<open>auto simp: give_pcb_def\<close>)
  then have "procq (give_pcb p s) (readyQueue (give_pcb p s)) rq"
    using K(2) by (simp add: give_pcb_def)
  ultimately show "kq (give_pcb p s) (p # fr) rq B (L - {p})"
    using placed_free [OF K(4) p] K(5) sem x freePcb_front(2) [OF K(1) x(3)]
    by (auto simp: kq_def held_def sem_same)
qed

section \<open>Changes of the rest of the state\<close>

lemma kq_rest [simp]:
  "kq (s\<lparr>mem := m\<rparr>) = kq s" "kq (s\<lparr>bios := b\<rparr>) = kq s" "kq (s\<lparr>cpu := r\<rparr>) = kq s"
  "kq (s\<lparr>tod_n := n\<rparr>) = kq s" "kq (s\<lparr>tlb_log := l\<rparr>) = kq s" "kq (s\<lparr>sups := u\<rparr>) = kq s"
  "kq (s\<lparr>processCount := w\<rparr>) = kq s" "kq (s\<lparr>softBlockCount := w\<rparr>) = kq s"
  "kq (s\<lparr>currentProcess := c\<rparr>) = kq s"
  by (intro ext iffI; erule kq_cong; simp)+

lemma kq_rest_ops [simp]:
  "kq (store_word a v s) = kq s" "kq (setTIMER v s) = kq s" "kq (setSTATUS v s) = kq s"
  "kq (set_saved_reg r v s) = kq s" "kq (LDIT v s) = kq s" "kq (snd (STCK s)) = kq s"
  by (simp_all add: store_word_def setTIMER_def setSTATUS_def set_saved_reg_def LDIT_def STCK_def)

text \<open>A change of a PCB's other fields.\<close>

lemma kq_pcb:
  assumes "p_next r = p_next (pcbTable s c)" "p_prev r = p_prev (pcbTable s c)"
    and "p_semAdd r = p_semAdd (pcbTable s c)"
  shows "kq (s\<lparr>pcbTable := (pcbTable s)(c := r)\<rparr>) = kq s"
  by (intro ext iffI; erule kq_cong) (use assms in \<open>auto split: if_splits\<close>)

section \<open>The frame of a whole kernel operation\<close>

text \<open>
  \<open>kstep s s'\<close>: besides the queues, only the choice of the current process and the control
  registers may have changed.
\<close>

definition kstep :: "'z kstate_scheme \<Rightarrow> 'z kstate_scheme \<Rightarrow> bool" where
  "kstep s s' \<longleftrightarrow> link s' = link s \<and> mem s' = mem s \<and> states s' = states s \<and> sups s' = sups s
     \<and> processCount s' = processCount s \<and> softBlockCount s' = softBlockCount s
     \<and> bios s' = bios s \<and> tod s' = tod s \<and> tod_n s' = tod_n s \<and> tlb_log s' = tlb_log s
     \<and> kstate.more s' = kstate.more s
     \<and> (\<forall>i. unasl (pcbTable s' i) = unasl (pcbTable s i))"

lemma kframe_kstep: "kframe s s' \<Longrightarrow> kstep s s'"
  by (simp add: kframe_def kstep_def)

lemma kstep_refl [simp]: "kstep s s"
  by (simp add: kstep_def)

lemma kstep_trans: "kstep s s' \<Longrightarrow> kstep s' s'' \<Longrightarrow> kstep s s''"
  by (simp add: kstep_def)

lemma kstep_upd [simp]:
  "kstep s (s'\<lparr>currentProcess := c\<rparr>) = kstep s s'" "kstep s (setTIMER v s') = kstep s s'"
  "kstep s (setSTATUS v s') = kstep s s'"
  by (simp_all add: kstep_def setTIMER_def setSTATUS_def)

lemma kstep_pcb:
  assumes "kstep s s'"
  shows "p_prnt (pcbTable s' i) = p_prnt (pcbTable s i)" "p_child (pcbTable s' i) = p_child (pcbTable s i)"
    "p_sib_right (pcbTable s' i) = p_sib_right (pcbTable s i)"
    "p_sib_left (pcbTable s' i) = p_sib_left (pcbTable s i)" "p_s (pcbTable s' i) = p_s (pcbTable s i)"
    "p_time (pcbTable s' i) = p_time (pcbTable s i)"
    "p_startTOD (pcbTable s' i) = p_startTOD (pcbTable s i)"
    "p_supportStruct (pcbTable s' i) = p_supportStruct (pcbTable s i)"
  using assms unasl_eqD [of "pcbTable s' i" "pcbTable s i"] by (simp_all add: kstep_def)

lemma kstepD:
  assumes "kstep s s'"
  shows "link s' = link s" "mem s' = mem s" "sups s' = sups s" "bios s' = bios s"
    "processCount s' = processCount s" "softBlockCount s' = softBlockCount s" "tod s' = tod s"
    "tod_n s' = tod_n s" "states s' = states s" "tlb_log s' = tlb_log s" "kstate.more s' = kstate.more s"
  using assms by (simp_all add: kstep_def)

section \<open>The scheduler\<close>

lemma scheduler_dispatch:
  assumes k: "kq s fr (p # rq) B L"
  shows "\<exists>s'. scheduler s = Exit (LDST (p_s (pcbTable s p))) s' \<and> kq s' fr rq B (insert p L)
    \<and> currentProcess s' = Some p \<and> timer_reg (cpu s') = 5000 \<and> kstep s s'"
proof -
  obtain tp s1 where r: "removeProcQ (readyQueue s) s = Some (Some p, tp, s1)"
    "kq (s1\<lparr>readyQueue := tp\<rparr>) fr rq B (insert p L)" "kframe s (s1\<lparr>readyQueue := tp\<rparr>)"
    using kq_dequeue [OF k] by blast
  let ?s = "setTIMER 5000 (s1\<lparr>readyQueue := tp, currentProcess := Some p\<rparr>)"
  have "scheduler s = Exit (LDST (p_s (pcbTable s p))) ?s"
    using r(1) kframe_pcb(5) [OF r(3), of p] by (simp add: scheduler_def dispatch_def setTIMER_def)
  moreover have "kq ?s fr rq B (insert p L)" using r(2) by simp
  moreover have "kstep s ?s" using kframe_kstep [OF r(3)] by simp
  moreover have "currentProcess ?s = Some p" "timer_reg (cpu ?s) = 5000"
    by (simp_all add: setTIMER_def)
  ultimately show ?thesis by blast
qed

lemma scheduler_idle:
  assumes k: "kq s fr [] B L"
  defines "s' \<equiv> s\<lparr>currentProcess := NULL\<rparr>"
  shows "scheduler s =
    (if processCount s = 0 then Exit HALT s'
     else if 0 < sint (softBlockCount s) then
       Exit WAIT (setSTATUS (((IECON OR IM) AND TIMEROFF) AND NOT TEBITON) s')
     else Exit PANIC s')"
proof -
  have tp: "readyQueue s = NULL" using kqD(2) [OF k] by (simp add: procq_def)
  define s1 where "s1 = s\<lparr>readyQueue := NULL, currentProcess := NULL\<rparr>"
  have "s1 = s'" using tp by (simp add: s1_def s'_def)
  moreover have "scheduler s =
    (if processCount s = 0 then Exit HALT s1
     else if 0 < sint (softBlockCount s) then
       Exit WAIT (setSTATUS (((IECON OR IM) AND TIMEROFF) AND NOT TEBITON) s1)
     else Exit PANIC s1)"
    using tp by (simp add: scheduler_def removeProcQ_def s1_def)
  ultimately show ?thesis by simp
qed

text \<open>Where the scheduler leaves the kernel to, and what it leaves behind.\<close>

definition next_exit :: "'z kstate_scheme \<Rightarrow> nat list \<Rightarrow> kexit" where
  "next_exit s rq = (case rq of p # _ \<Rightarrow> LDST (p_s (pcbTable s p))
     | [] \<Rightarrow> if processCount s = 0 then HALT else if 0 < sint (softBlockCount s) then WAIT else PANIC)"

definition first_of :: "nat list \<Rightarrow> ptr" where
  "first_of rq = (case rq of [] \<Rightarrow> NULL | p # _ \<Rightarrow> Some p)"

lemma first_of_simps [simp]: "first_of [] = NULL" "first_of (p # rq) = Some p"
  by (simp_all add: first_of_def)

lemma set_first_of: "set_option (first_of rq) \<subseteq> set rq"
  by (cases rq) auto

lemma scheduler_post:
  assumes k: "kq s fr rq B L"
  shows "\<exists>s'. scheduler s = Exit (next_exit s rq) s'
    \<and> kq s' fr (tl rq) B (set_option (first_of rq) \<union> L)
    \<and> currentProcess s' = first_of rq \<and> kstep s s'"
proof (cases rq)
  case Nil
  then show ?thesis using scheduler_idle [of s fr B L] k by (simp add: next_exit_def)
next
  case (Cons p ps)
  then show ?thesis using scheduler_dispatch [of s fr p ps B L] k by (auto simp: next_exit_def)
qed

lemma next_exit_cong:
  assumes "processCount s' = processCount s" "softBlockCount s' = softBlockCount s"
    and "\<And>p. p \<in> set rq \<Longrightarrow> p_s (pcbTable s' p) = p_s (pcbTable s p)"
  shows "next_exit s' rq = next_exit s rq"
  using assms by (cases rq) (simp_all add: next_exit_def)

section \<open>A booted kernel\<close>

lemma kq_boot:
  "kq ((initASL (initPcbs s))\<lparr>readyQueue := mkEmptyProcQ\<rparr>) [0..<MAXPROC] [] (\<lambda>_. []) {}"
proof -
  let ?s = "(initASL (initPcbs s))\<lparr>readyQueue := mkEmptyProcQ\<rparr>"
  have "asl_inv ?s (\<lambda>_. [])"
    by (rule asl_inv_cong [OF initASL_inv [of "initPcbs s"]]) simp_all
  moreover have "pcb_pool ?s [0..<MAXPROC]"
    using initPcbs_pool [of s] pcb_pool_cong [of "[0..<MAXPROC]" ?s "initPcbs s"]
    by (simp add: initASL_def Let_def)
  moreover have "placed [0..<MAXPROC] [] (\<lambda>_ :: u32. []) {}"
    by (auto simp: placed_def waiting_ok_def)
  ultimately show ?thesis by (simp add: kq_def held_def mkEmptyProcQ_def)
qed

text \<open>
  An example state: process 0 runs, process 1 is ready, process 2 waits on the semaphore at
  \<open>0x20009000\<close>, whose value is \<open>- 1\<close>; every other word of memory is 0.
\<close>

definition example_base :: kstate where
  "example_base = take_pcb 2 (take_pcb 1 (take_pcb 0
     ((initASL (initPcbs zero_kernel))\<lparr>readyQueue := mkEmptyProcQ, processCount := 3\<rparr>)))"

definition example :: kstate where
  "example = (case make_ready (Some 1) example_base of Ret _ s \<Rightarrow>
     (case insertBlocked 0x20009000 (Some 2) s of Some (_, s) \<Rightarrow>
        s\<lparr>mem := (mem s)(0x20009000 := - 1), currentProcess := Some 0\<rparr>))"

abbreviation (input) example_sems :: "u32 \<Rightarrow> nat list" where
  "example_sems \<equiv> (\<lambda>_. [])(0x20009000 := [2])"

lemma example_base_kq: "kq example_base [3..<MAXPROC] [] (\<lambda>_. []) {0, 1, 2}"
proof -
  let ?s = "(initASL (initPcbs zero_kernel))\<lparr>readyQueue := mkEmptyProcQ, processCount := 3\<rparr>"
  have eq: "[0..<MAXPROC] = 0 # 1 # 2 # [3..<MAXPROC]"
    by (simp add: upt_rec [of 0] upt_rec [of 1] upt_rec [of "Suc 0"] numeral_2_eq_2 [symmetric])
  have "kq ?s (0 # 1 # 2 # [3..<MAXPROC]) [] (\<lambda>_. []) {}"
    using kq_boot [of zero_kernel] by (simp only: eq kq_rest)
  from kq_alloc(2) [OF kq_alloc(2) [OF kq_alloc(2) [OF this]]] show ?thesis
    by (simp add: example_base_def insert_commute)
qed

lemma example_kq:
  "kq example [3..<MAXPROC] [1] example_sems {0}" "currentProcess example = Some 0"
  "mem example = (\<lambda>_. 0)(0x20009000 := - 1)" "processCount example = 3" "softBlockCount example = 0"
  "link example = zero_link" "bios example = zero_state" "sups example = (\<lambda>_. zero_support)"
  "i \<in> {0, 1, 2} \<Longrightarrow> p_child (pcbTable example i) = NULL"
  "i \<in> {0, 1, 2} \<Longrightarrow> p_prnt (pcbTable example i) = NULL"
  "i \<in> {0, 1, 2} \<Longrightarrow> p_supportStruct (pcbTable example i) = NULL"
proof -
  note base = example_base_kq
  have two: "{0, 1, 2} - {1 :: nat} = {0, 2}" "{0, 2} - {2 :: nat} = {0}" by auto
  obtain s1 where s1: "make_ready (Some 1) example_base = Ret () s1"
    "kq s1 [3..<MAXPROC] [1] (\<lambda>_. []) {0, 2}" "kframe example_base s1"
    using kq_enqueue [OF base, of 1] two(1) by (simp only: append_Nil insertI1 insertI2) blast
  obtain s2 where s2: "insertBlocked 0x20009000 (Some 2) s1 = Some (False, s2)"
    "kq s2 [3..<MAXPROC] [1] example_sems {0}" "kframe s1 s2"
    using kq_block [OF s1(2), of 2 "0x20009000" "pcbTable s1 2"] two(2) by auto
  have ex: "example = s2\<lparr>mem := (mem s2)(0x20009000 := - 1), currentProcess := Some 0\<rparr>"
    using s1(1) s2(1) by (simp add: example_def)
  then show "kq example [3..<MAXPROC] [1] example_sems {0}"
    using s2(2) kq_rest(1,9) by metis
  have "kframe example_base s2" by (rule kframe_trans [OF s1(3) s2(3)])
  then show "currentProcess example = Some 0"
    "mem example = (\<lambda>_. 0)(0x20009000 := - 1)" "processCount example = 3" "softBlockCount example = 0"
    "link example = zero_link" "bios example = zero_state" "sups example = (\<lambda>_. zero_support)"
    by (simp_all add: ex kframe_def example_base_def take_pcb_def initASL_def initPcbs_def Let_def
        zero_kernel_def)
  assume "i \<in> {0, 1, 2}"
  then have "p_child (pcbTable example_base i) = NULL \<and> p_prnt (pcbTable example_base i) = NULL
      \<and> p_supportStruct (pcbTable example_base i) = NULL"
    by (auto simp: example_base_def take_pcb_def)
  then show "p_child (pcbTable example i) = NULL" "p_prnt (pcbTable example i) = NULL"
    "p_supportStruct (pcbTable example i) = NULL"
    using kframe_pcb(1,2,8) [OF \<open>kframe example_base s2\<close>] by (simp_all add: ex)
qed

section \<open>Properties\<close>

text \<open>C29: The scheduler serves the ready queue in order: it dispatches the process at its head with a
  time slice of 5000, that process leaves the queue and becomes the current one, and nothing else
  of the kernel's state changes.  With an empty queue it halts when no process is left, waits with
  the device interrupt lines open and the timers masked when some process waits for a device or
  the clock, and panics (deadlock) otherwise.\<close>

theorem scheduler_spec:
  assumes "kq s fr rq B L"
  shows "\<exists>s'. scheduler s = Exit (next_exit s rq) s'
    \<and> kq s' fr (tl rq) B (set_option (first_of rq) \<union> L)
    \<and> currentProcess s' = first_of rq \<and> kstep s s'
    \<and> (rq \<noteq> [] \<longrightarrow> timer_reg (cpu s') = 5000)
    \<and> (next_exit s rq = WAIT \<longrightarrow> status_reg (cpu s') = 0xFC01)"
proof (cases rq)
  case Nil
  let ?s = "s\<lparr>currentProcess := NULL\<rparr>"
  have "((IECON OR IM) AND TIMEROFF) AND NOT TEBITON = 0xFC01" by simp
  then show ?thesis
    using scheduler_idle [of s fr B L] assms Nil by (simp add: next_exit_def)
next
  case (Cons p ps)
  then show ?thesis using scheduler_dispatch [of s fr p ps B L] assms by (auto simp: next_exit_def)
qed

theorem scheduler_spec_witness:
  "\<exists>s'. scheduler example = Exit (LDST (p_s (pcbTable example 1))) s'
    \<and> kq s' [3..<MAXPROC] [] example_sems {0, 1} \<and> currentProcess s' = Some 1"
  using scheduler_spec [OF example_kq(1)] by (auto simp: next_exit_def insert_commute)

end
