(* ===== verification/Semaphores.thy ===== *)
theory Semaphores
  imports KernelInv
begin

text \<open>
  The semaphore system calls of \<open>phase3/exceptions.c\<close> against an abstract counting semaphore: a
  value and a queue of waiting processes.  \<open>sems\<close> is the law that ties the two together for every
  address of memory: nobody waits where the value is not negative, and at most as many wait as
  the value is negative.  For a semaphore that only \<open>P\<close> and \<open>V\<close> touch it is an equality
  (\<open>sem_exact\<close>); the device semaphores may be more negative than their queue is long, because
  terminating a process that waits for a device leaves the value to the coming interrupt.
\<close>

section \<open>CPU time\<close>

definition now :: "'z kstate_scheme \<Rightarrow> u32" where
  "now s = fst (STCK s)"

definition charged :: "nat \<Rightarrow> 'z kstate_scheme \<Rightarrow> 'z kstate_scheme" where
  "charged c s = s\<lparr>tod_n := tod_n s + 1, pcbTable := (pcbTable s)(c := (pcbTable s c)
     \<lparr>p_time := p_time (pcbTable s c) + (now s - p_startTOD (pcbTable s c)), p_startTOD := now s\<rparr>)\<rparr>"

lemma updateCPUTime_run: "currentProcess s = Some c \<Longrightarrow> updateCPUTime s = Ret () (charged c s)"
  by (simp add: updateCPUTime_def charged_def now_def STCK_def Let_def)

lemma charged_simps [simp]:
  "link (charged c s) = link s" "mem (charged c s) = mem s" "bios (charged c s) = bios s"
  "processCount (charged c s) = processCount s" "softBlockCount (charged c s) = softBlockCount s"
  "currentProcess (charged c s) = currentProcess s" "readyQueue (charged c s) = readyQueue s"
  "sups (charged c s) = sups s" "states (charged c s) = states s" "cpu (charged c s) = cpu s"
  "tlb_log (charged c s) = tlb_log s" "kstate.more (charged c s) = kstate.more s"
  "tod (charged c s) = tod s" "tod_n (charged c s) = Suc (tod_n s)"
  "p_s (pcbTable (charged c s) i) = p_s (pcbTable s i)"
  "p_semAdd (pcbTable (charged c s) i) = p_semAdd (pcbTable s i)"
  "p_supportStruct (pcbTable (charged c s) i) = p_supportStruct (pcbTable s i)"
  "p_prnt (pcbTable (charged c s) i) = p_prnt (pcbTable s i)"
  "p_child (pcbTable (charged c s) i) = p_child (pcbTable s i)"
  "p_sib_left (pcbTable (charged c s) i) = p_sib_left (pcbTable s i)"
  "p_sib_right (pcbTable (charged c s) i) = p_sib_right (pcbTable s i)"
  "i \<noteq> c \<Longrightarrow> pcbTable (charged c s) i = pcbTable s i"
  by (simp_all add: charged_def)

lemma kq_charged [simp]: "kq (charged c s) = kq s"
proof -
  let ?s = "s\<lparr>tod_n := tod_n s + 1\<rparr>"
  let ?r = "(pcbTable s c)\<lparr>p_time := p_time (pcbTable s c) + (now s - p_startTOD (pcbTable s c)),
      p_startTOD := now s\<rparr>"
  have "kq (?s\<lparr>pcbTable := (pcbTable ?s)(c := ?r)\<rparr>) = kq ?s"
    by (rule kq_pcb) simp_all
  then show ?thesis by (simp add: charged_def)
qed

section \<open>The law of semaphores\<close>

abbreviation (input) RAMSTART :: u32 where "RAMSTART \<equiv> 0x20000000"

definition sems :: "'z kstate_scheme \<Rightarrow> (u32 \<Rightarrow> nat list) \<Rightarrow> bool" where
  "sems s B \<longleftrightarrow> (\<forall>a. B a \<noteq> [] \<longrightarrow> RAMSTART \<le> a)
     \<and> (\<forall>a. int (length (B a)) \<le> max 0 (- sint (mem s a)))"

definition sem_exact :: "'z kstate_scheme \<Rightarrow> (u32 \<Rightarrow> nat list) \<Rightarrow> u32 \<Rightarrow> bool" where
  "sem_exact s B a \<longleftrightarrow> int (length (B a)) = max 0 (- sint (mem s a))"

text \<open>The abstract semaphore.\<close>

definition sem_P :: "nat \<Rightarrow> int \<times> nat list \<Rightarrow> (int \<times> nat list) \<times> bool" where
  "sem_P p = (\<lambda>(v, q). ((v - 1, if v - 1 < 0 then q @ [p] else q), v - 1 < 0))"

definition sem_V :: "int \<times> nat list \<Rightarrow> (int \<times> nat list) \<times> ptr" where
  "sem_V = (\<lambda>(v, q). ((v + 1, if v + 1 \<le> 0 then tl q else q),
     if v + 1 \<le> 0 \<and> q \<noteq> [] then Some (hd q) else NULL))"

definition sem_at :: "'z kstate_scheme \<Rightarrow> (u32 \<Rightarrow> nat list) \<Rightarrow> u32 \<Rightarrow> int \<times> nat list" where
  "sem_at s B a = (sint (mem s a), B a)"

definition sem_law :: "int \<times> nat list \<Rightarrow> bool" where
  "sem_law sq \<longleftrightarrow> int (length (snd sq)) \<le> max 0 (- fst sq)"

definition sem_eq :: "int \<times> nat list \<Rightarrow> bool" where
  "sem_eq sq \<longleftrightarrow> int (length (snd sq)) = max 0 (- fst sq)"

lemma sem_P_law:
  "sem_law sq \<Longrightarrow> sem_law (fst (sem_P p sq))" "sem_eq sq \<Longrightarrow> sem_eq (fst (sem_P p sq))"
  by (auto simp: sem_law_def sem_eq_def sem_P_def split: prod.splits)

lemma sem_V_law:
  "sem_law sq \<Longrightarrow> sem_law (fst (sem_V sq))" "sem_eq sq \<Longrightarrow> sem_eq (fst (sem_V sq))"
  by (auto simp: sem_law_def sem_eq_def sem_V_def split: prod.splits)

lemma sems_at: "sems s B \<longleftrightarrow> (\<forall>a. (B a \<noteq> [] \<longrightarrow> RAMSTART \<le> a) \<and> sem_law (sem_at s B a))"
  by (auto simp: sems_def sem_law_def sem_at_def)

lemma exact_at: "sem_exact s B a \<longleftrightarrow> sem_eq (sem_at s B a)"
  by (simp add: sem_exact_def sem_eq_def sem_at_def)

lemma sems_step:
  assumes "sems s B" and "RAMSTART \<le> a" and "sem_law (sem_at s' B' a)"
    and "\<And>b. b \<noteq> a \<Longrightarrow> sem_at s' B' b = sem_at s B b"
  shows "sems s' B'"
proof -
  have "(B' b \<noteq> [] \<longrightarrow> RAMSTART \<le> b) \<and> sem_law (sem_at s' B' b)" for b
  proof (cases "b = a")
    case False
    then have "B' b = B b" "sem_at s' B' b = sem_at s B b"
      using assms(4) [of b] by (simp_all add: sem_at_def)
    then show ?thesis using assms(1) by (simp add: sems_at)
  qed (use assms(2,3) in simp)
  then show ?thesis by (simp add: sems_at)
qed

section \<open>P\<close>

text \<open>The state in which \<open>sysPasseren\<close> calls \<open>insertBlocked\<close>.\<close>

definition parked :: "u32 \<Rightarrow> nat \<Rightarrow> 'z kstate_scheme \<Rightarrow> 'z kstate_scheme" where
  "parked a c s = s\<lparr>pcbTable := (pcbTable s)(c := (pcbTable s c)\<lparr>p_s := bios s, p_semAdd := a\<rparr>)\<rparr>"

lemma block_current_run:
  assumes k: "kq s fr rq B L" and c: "c \<in> L" and a: "a < MAXINT"
  shows "\<exists>s1. block_current a c s = scheduler s1 \<and> kq s1 fr rq (B(a := B a @ [c])) (L - {c})
    \<and> kframe (parked a c s) s1"
proof -
  let ?r = "(pcbTable s c)\<lparr>p_s := bios s, p_semAdd := a\<rparr>"
  obtain s1 where s1: "insertBlocked a (Some c) (s\<lparr>pcbTable := (pcbTable s)(c := ?r)\<rparr>) = Some (False, s1)"
    "kq s1 fr rq (B(a := B a @ [c])) (L - {c})" "kframe (s\<lparr>pcbTable := (pcbTable s)(c := ?r)\<rparr>) s1"
    using kq_block [OF k c a, of ?r] by blast
  have "block_current a c s = scheduler s1"
    using s1(1) by (simp add: block_current_def)
  then show ?thesis using s1(2,3) by (auto simp: parked_def)
qed

lemma sysPasseren_cases:
  assumes k: "kq s fr rq B L" and c: "currentProcess s = Some c" "c \<in> L" and a: "a < MAXINT"
  defines "s1 \<equiv> store_word a (mem s a - 1) (charged c s)"
  shows "0 \<le> sint (mem s a - 1) \<Longrightarrow> sysPasseren a s = Ret () s1"
    and "sint (mem s a - 1) < 0 \<Longrightarrow>
      \<exists>s2. sysPasseren a s = scheduler s2 \<and> kq s2 fr rq (B(a := B a @ [c])) (L - {c})
        \<and> kframe (parked a c s1) s2"
proof -
  have s1: "mem s1 = (mem s)(a := mem s a - 1)" "currentProcess s1 = Some c" "kq s1 fr rq B L"
    using k c(1) by (simp_all add: s1_def)
  have run: "sysPasseren a s = (if sint (mem s1 a) < 0
      then case currentProcess s1 of None \<Rightarrow> Stuck | Some c \<Rightarrow> block_current a c s1 else Ret () s1)"
    by (simp add: sysPasseren_def updateCPUTime_run [OF c(1)] s1_def Let_def c(1))
  then show "0 \<le> sint (mem s a - 1) \<Longrightarrow> sysPasseren a s = Ret () s1" using s1(1) by simp
  show "\<exists>s2. sysPasseren a s = scheduler s2 \<and> kq s2 fr rq (B(a := B a @ [c])) (L - {c})
        \<and> kframe (parked a c s1) s2" if "sint (mem s a - 1) < 0"
    using block_current_run [OF s1(3) c(2) a] run s1(1,2) that by auto
qed

text \<open>
  \<open>sem_step a sq' s B s' B'\<close>: the semaphore at \<open>a\<close> has become \<open>sq'\<close>, every other word of memory
  and every other queue is what it was, and the law still holds.
\<close>

definition sem_step :: "u32 \<Rightarrow> int \<times> nat list \<Rightarrow> 'z kstate_scheme \<Rightarrow> (u32 \<Rightarrow> nat list)
    \<Rightarrow> 'z kstate_scheme \<Rightarrow> (u32 \<Rightarrow> nat list) \<Rightarrow> bool" where
  "sem_step a sq s B s' B' \<longleftrightarrow> sem_at s' B' a = sq \<and> (\<forall>b. b \<noteq> a \<longrightarrow> mem s' b = mem s b \<and> B' b = B b)
     \<and> sems s' B' \<and> (\<forall>b. sem_exact s B b \<longrightarrow> sem_exact s' B' b)"

lemma sem_stepI:
  assumes "sems s B" and "RAMSTART \<le> a" and "mem s' = (mem s)(a := v)" and "B' = B(a := q)"
    and "sq = (sint v, q)" and "sem_law (sem_at s B a) \<Longrightarrow> sem_law sq" "sem_eq (sem_at s B a) \<Longrightarrow> sem_eq sq"
  shows "sem_step a sq s B s' B'"
proof -
  have at: "sem_at s' B' a = sq" "\<And>b. b \<noteq> a \<Longrightarrow> sem_at s' B' b = sem_at s B b"
    using assms(3-5) by (simp_all add: sem_at_def)
  have "sem_law (sem_at s' B' a)" using assms(1,6) at(1) by (simp add: sems_at)
  then have "sems s' B'" by (rule sems_step [OF assms(1,2) _ at(2)])
  moreover have "sem_exact s B b \<longrightarrow> sem_exact s' B' b" for b
    using assms(7) at by (cases "b = a") (auto simp: exact_at)
  ultimately show ?thesis using at(1) assms(3,4) by (auto simp: sem_step_def)
qed

lemma passeren_step:
  assumes k: "kq s fr rq B L" and m: "sems s B" and c: "currentProcess s = Some c" "c \<in> L"
    and a: "RAMSTART \<le> a" "a < MAXINT" and v: "int_min < sint (mem s a)"
    and P: "sem_P c (sem_at s B a) = (sq, blocks)"
  shows "\<exists>s'. sem_step a sq s B s' (B(a := snd sq)) \<and> processCount s' = processCount s
    \<and> softBlockCount s' = softBlockCount s \<and> link s' = link s \<and> sups s' = sups s \<and> bios s' = bios s
    \<and> (if blocks then sysPasseren a s = Exit (next_exit s rq) s'
         \<and> kq s' fr (tl rq) (B(a := snd sq)) (set_option (first_of rq) \<union> (L - {c}))
         \<and> currentProcess s' = first_of rq \<and> p_s (pcbTable s' c) = bios s
       else sysPasseren a s = Ret () s' \<and> kq s' fr rq (B(a := snd sq)) L \<and> currentProcess s' = Some c)"
proof -
  let ?v = "mem s a - 1"
  define s1 where "s1 = store_word a ?v (charged c s)"
  have dec: "sint ?v = sint (mem s a) - 1" by (rule sint_dec [OF v])
  then have sq: "sq = (sint ?v, if blocks then B a @ [c] else B a)" and b: "blocks = (sint ?v < 0)"
    using P by (auto simp: sem_P_def sem_at_def)
  have law: "sem_law (sem_at s B a) \<Longrightarrow> sem_law sq" "sem_eq (sem_at s B a) \<Longrightarrow> sem_eq sq"
    using sem_P_law [of "sem_at s B a" c] P by simp_all
  note step = sem_stepI [OF m a(1) _ _ _ law]
  note cases = sysPasseren_cases [OF k c a(2), folded s1_def]
  show ?thesis
  proof (cases blocks)
    case False
    then have "sysPasseren a s = Ret () s1" "B(a := snd sq) = B" using cases(1) b sq by simp_all
    then show ?thesis
      using step [of s1 ?v B "B a"] k c False sq by (intro exI [of _ s1]) (simp add: s1_def)
  next
    case True
    then obtain s2 where s2: "sysPasseren a s = scheduler s2"
      "kq s2 fr rq (B(a := B a @ [c])) (L - {c})" "kframe (parked a c s1) s2"
      using cases(2) b by auto
    obtain s3 where s3: "scheduler s2 = Exit (next_exit s2 rq) s3"
      "kq s3 fr (tl rq) (B(a := B a @ [c])) (set_option (first_of rq) \<union> (L - {c}))"
      "currentProcess s3 = first_of rq" "kstep s2 s3"
      using scheduler_post [OF s2(2)] by blast
    have "c \<notin> set rq" using placedD(6) [OF kqD(4) [OF k]] c(2) by blast
    then have "next_exit s2 rq = next_exit s rq"
      using s2(3) kframe_pcb(5) [OF s2(3)]
      by (intro next_exit_cong) (auto simp: kframe_def parked_def s1_def)
    moreover have "p_s (pcbTable s3 c) = bios s"
      using kstep_pcb(5) [OF s3(4)] kframe_pcb(5) [OF s2(3)] by (simp add: parked_def s1_def)
    moreover have "mem s3 = (mem s)(a := ?v)" "processCount s3 = processCount s" "link s3 = link s"
      "softBlockCount s3 = softBlockCount s" "sups s3 = sups s" "bios s3 = bios s"
      using s2(3) s3(4) by (simp_all add: kframe_def kstep_def parked_def s1_def)
    ultimately show ?thesis
      using step [of s3 ?v "B(a := B a @ [c])" "B a @ [c]"] s2(1) s3(1-3) True sq
      by (intro exI [of _ s3]) simp
  qed
qed

section \<open>V\<close>

lemma verhogen_step:
  assumes k: "kq s fr rq B L" and m: "sems s B" and a: "RAMSTART \<le> a" "a < MAXINT"
    and v: "sint (mem s a) < int_max" and V: "sem_V (sem_at s B a) = (sq, woken)"
  shows "\<exists>s'. sysVerhogen a s = Ret () s' \<and> sem_step a sq s B s' (B(a := snd sq))
    \<and> kq s' fr (rq @ (case woken of NULL \<Rightarrow> [] | Some p \<Rightarrow> [p])) (B(a := snd sq)) L
    \<and> currentProcess s' = currentProcess s \<and> kstep (store_word a (mem s a + 1) s) s'"
proof -
  let ?v = "mem s a + 1"
  define s1 where "s1 = store_word a ?v s"
  have s1: "kq s1 fr rq B L" using k by (simp add: s1_def)
  have inc: "sint ?v = sint (mem s a) + 1" by (rule sint_inc [OF v])
  then have sq: "sq = (sint ?v, if sint ?v \<le> 0 then tl (B a) else B a)"
    and w: "woken = (if sint ?v \<le> 0 \<and> B a \<noteq> [] then Some (hd (B a)) else NULL)"
    using V by (auto simp: sem_V_def sem_at_def)
  have law: "sem_law (sem_at s B a) \<Longrightarrow> sem_law sq" "sem_eq (sem_at s B a) \<Longrightarrow> sem_eq sq"
    using sem_V_law [of "sem_at s B a"] V by simp_all
  note step = sem_stepI [OF m a(1) _ _ _ law]
  show ?thesis
  proof (cases woken)
    case None
    have q: "sq = (sint ?v, B a)" using sq w None by (cases "B a") (auto split: if_splits)
    then have "B(a := snd sq) = B" by simp
    moreover have "sysVerhogen a s = Ret () s1"
      using w None removeBlocked_none [OF kqD(3) [OF s1] _ a(2)]
      by (auto simp: sysVerhogen_def Let_def s1_def split: if_splits)
    ultimately show ?thesis
      using step [of s1 ?v B "B a"] q s1 None by (intro exI [of _ s1]) (simp add: s1_def)
  next
    case (Some p)
    then obtain ps where Ba: "B a = p # ps" and le: "sint ?v \<le> 0"
      using w by (cases "B a") (auto split: if_splits)
    obtain s2 where s2: "removeBlocked a s1 = Some (Some p, s2)" "kq s2 fr rq (B(a := ps)) (insert p L)"
      "kframe s1 s2"
      using kq_wake [of s1 fr rq B L a p ps] s1 Ba by blast
    define s3 where "s3 = s2\<lparr>pcbTable := (pcbTable s2)(p := (pcbTable s2 p)\<lparr>p_semAdd := NULL_addr\<rparr>)\<rparr>"
    have "kq s3 = kq s2"
      unfolding s3_def using kqD(6) [OF s2(2), of p] by (intro kq_pcb) simp_all
    then have k3: "kq s3 fr rq (B(a := ps)) (insert p L)" using s2(2) by simp
    obtain s4 where s4: "make_ready (Some p) s3 = Ret () s4"
      "kq s4 fr (rq @ [p]) (B(a := ps)) (insert p L - {p})" "kframe s3 s4"
      using kq_enqueue [OF k3, of p] by blast
    have "p \<notin> L" using placedD(6) [OF kqD(4) [OF k]] Ba
      by (metis IntI UNIV_I UN_I UnI2 empty_iff list.set_intros(1))
    then have k4: "kq s4 fr (rq @ [p]) (B(a := ps)) L" using s4(2) by simp
    have fr: "kframe s1 s4"
      using s2(3) s4(3) by (auto simp: kframe_def s3_def)
    have "sysVerhogen a s = Ret () s4"
      using s2(1) s4(1) le by (simp add: sysVerhogen_def Let_def s1_def s3_def)
    moreover have "mem s4 = (mem s)(a := ?v)" "currentProcess s4 = currentProcess s"
      using fr by (simp_all add: kframe_def s1_def)
    ultimately show ?thesis
      using step [of s4 ?v "B(a := ps)" ps] sq le Ba k4 Some kframe_kstep [OF fr]
      by (intro exI [of _ s4]) (simp add: s1_def)
  qed
qed

lemma example_sems_ok: "sems example example_sems"
  by (auto simp: sems_def example_kq(3))

section \<open>Properties\<close>

text \<open>C4: \<open>sysPasseren\<close> is the \<open>P\<close> of a counting semaphore.  The value goes down by one; if it was
  positive the caller goes on, otherwise the caller, with the saved processor state, is put last in
  that semaphore's queue and the scheduler dispatches the next process.  No other semaphore
  changes, no process is lost, and the law between values and queues is kept.\<close>

theorem sysPasseren_refines:
  assumes "kq s fr rq B L" and "sems s B" and "currentProcess s = Some c" and "c \<in> L"
    and "RAMSTART \<le> a" and "a < MAXINT" and "int_min < sint (mem s a)"
    and "sem_P c (sem_at s B a) = (sq, blocks)"
  shows "\<exists>s'. sem_step a sq s B s' (B(a := snd sq))
    \<and> (if blocks then sysPasseren a s = Exit (next_exit s rq) s'
         \<and> kq s' fr (tl rq) (B(a := snd sq)) (set_option (first_of rq) \<union> (L - {c}))
         \<and> currentProcess s' = first_of rq \<and> p_s (pcbTable s' c) = bios s
       else sysPasseren a s = Ret () s' \<and> kq s' fr rq (B(a := snd sq)) L \<and> currentProcess s' = Some c)"
  using passeren_step [OF assms] by blast

theorem sysPasseren_refines_witness:
  "\<exists>s'. sysPasseren 0x20009000 example = Exit (LDST (p_s (pcbTable example 1))) s'
    \<and> sem_at s' (example_sems(0x20009000 := [2, 0])) 0x20009000 = (- 2, [2, 0])
    \<and> currentProcess s' = Some 1"
  using sysPasseren_refines [OF example_kq(1) example_sems_ok example_kq(2), of "0x20009000" "(- 2, [2, 0])" True]
  by (auto simp: example_kq(3) sem_P_def sem_at_def sem_step_def next_exit_def)

text \<open>C8: \<open>sysVerhogen\<close> is the \<open>V\<close> of a counting semaphore.  The value goes up by one; if it is then
  not positive, the process that has waited longest, when there is one, goes to the end of the
  ready queue.  The caller goes on; no other semaphore changes and no process is lost.\<close>

theorem sysVerhogen_refines:
  assumes "kq s fr rq B L" and "sems s B" and "RAMSTART \<le> a" and "a < MAXINT"
    and "sint (mem s a) < int_max" and "sem_V (sem_at s B a) = (sq, woken)"
  shows "\<exists>s'. sysVerhogen a s = Ret () s' \<and> sem_step a sq s B s' (B(a := snd sq))
    \<and> kq s' fr (rq @ (case woken of NULL \<Rightarrow> [] | Some p \<Rightarrow> [p])) (B(a := snd sq)) L
    \<and> currentProcess s' = currentProcess s \<and> bios s' = bios s"
proof -
  obtain s' where s': "sysVerhogen a s = Ret () s'" "sem_step a sq s B s' (B(a := snd sq))"
    "kq s' fr (rq @ (case woken of NULL \<Rightarrow> [] | Some p \<Rightarrow> [p])) (B(a := snd sq)) L"
    "currentProcess s' = currentProcess s" "kstep (store_word a (mem s a + 1) s) s'"
    using verhogen_step [OF assms] by blast
  then show ?thesis using kstepD(4) [OF s'(5)] by auto
qed

theorem sysVerhogen_refines_witness:
  "\<exists>s'. sysVerhogen 0x20009000 example = Ret () s'
    \<and> sem_at s' (example_sems(0x20009000 := [])) 0x20009000 = (0, [])
    \<and> kq s' [3..<MAXPROC] [1, 2] (example_sems(0x20009000 := [])) {0}"
  using sysVerhogen_refines [OF example_kq(1) example_sems_ok, of "0x20009000" "(0, [])" "Some 2"]
  by (auto simp: example_kq(3) sem_V_def sem_at_def sem_step_def)

end
