(* ===== verification/Termination.thy ===== *)
theory Termination
  imports Semaphores
begin

text \<open>
  \<open>sysTerminate\<close> of \<open>phase3/exceptions.c\<close> on the process tree.  A tree of processes is a rose tree
  whose nodes' children are the sibling lists of the PCBs; terminating its root frees every
  process of the tree, takes each out of the ready queue or off its semaphore, and leaves all
  other processes where they were (\<open>reaped\<close>).
\<close>

section \<open>Process trees\<close>

datatype ptree = PNode nat "ptree list"

fun proot :: "ptree \<Rightarrow> nat" where
  "proot (PNode p ts) = p"

text \<open>The processes of a tree, in the order in which \<open>sysTerminate\<close> frees them.\<close>

fun procs :: "ptree \<Rightarrow> nat list" where
  "procs (PNode p ts) = concat (map procs ts) @ [p]"

fun is_tree :: "(nat \<Rightarrow> pcb_t) \<Rightarrow> ptree \<Rightarrow> bool" where
  "is_tree t (PNode p ts) \<longleftrightarrow> children t p (map proot ts) \<and> (\<forall>T \<in> set ts. is_tree t T)"

lemma proot_in_procs: "proot T \<in> set (procs T)"
  by (cases T) simp

lemma procs_last: "procs T = butlast (procs T) @ [proot T]"
  by (cases T) simp

lemma procs_kid: "T \<in> set ts \<Longrightarrow> set (procs T) \<subseteq> set (concat (map procs ts))"
  by auto

lemma distinct_concat_kid: "distinct (concat (map procs ts)) \<Longrightarrow> T \<in> set ts \<Longrightarrow> distinct (procs T)"
  by (induction ts) auto

lemma is_tree_cong:
  assumes "\<And>x. x \<in> set (procs T) \<Longrightarrow> p_child (t' x) = p_child (t x)"
    and "\<And>x. x \<in> set (butlast (procs T)) \<Longrightarrow> p_prnt (t' x) = p_prnt (t x)
      \<and> p_sib_left (t' x) = p_sib_left (t x) \<and> p_sib_right (t' x) = p_sib_right (t x)"
  shows "is_tree t' T = is_tree t T"
  using assms
proof (induction T)
  case (PNode p ts)
  have "children t' p (map proot ts) = children t p (map proot ts)"
  proof (rule children_cong)
    show "p_child (t' p) = p_child (t p)" using PNode.prems(1) by simp
    fix x assume "x \<in> set (map proot ts)"
    then have "x \<in> set (butlast (procs (PNode p ts)))" using proot_in_procs by fastforce
    then show "p_prnt (t' x) = p_prnt (t x) \<and> p_sib_left (t' x) = p_sib_left (t x)
        \<and> p_sib_right (t' x) = p_sib_right (t x)"
      by (rule PNode.prems(2))
  qed
  moreover have "is_tree t' T = is_tree t T" if T: "T \<in> set ts" for T
  proof (rule PNode.IH [OF T])
    fix x assume "x \<in> set (procs T)"
    then show "p_child (t' x) = p_child (t x)" using T by (intro PNode.prems(1)) auto
  next
    fix x assume "x \<in> set (butlast (procs T))"
    then have "x \<in> set (procs T)" by (rule in_set_butlastD)
    then show "p_prnt (t' x) = p_prnt (t x) \<and> p_sib_left (t' x) = p_sib_left (t x)
        \<and> p_sib_right (t' x) = p_sib_right (t x)" using T by (intro PNode.prems(2)) auto
  qed
  ultimately show ?case by simp
qed

section \<open>What is left of a list of processes\<close>

definition survivors :: "nat list \<Rightarrow> nat list \<Rightarrow> nat list" where
  "survivors X xs = filter (\<lambda>x. x \<notin> set X) xs"

lemma survivors_simps [simp]:
  "survivors [] xs = xs" "survivors X [] = []" "set (survivors X xs) = set xs - set X"
  "survivors Y (survivors X xs) = survivors (X @ Y) xs"
  by (auto simp: survivors_def intro!: filter_cong)

lemma survivors_one: "distinct xs \<Longrightarrow> survivors [p] xs = remove1 p xs"
  by (simp add: survivors_def distinct_remove1_removeAll removeAll_filter_not_eq)
     (rule filter_cong; auto)

lemma survivors_none: "set xs \<inter> set X = {} \<Longrightarrow> survivors X xs = xs"
  by (auto simp: survivors_def filter_id_conv)

lemma survivors_length: "length (survivors X xs) \<le> length xs"
  by (simp add: survivors_def)

section \<open>What termination leaves behind\<close>

definition cnt :: "'z kstate_scheme \<Rightarrow> nat" where
  "cnt s = unat (processCount s)"

definition dev_waiting :: "'z kstate_scheme \<Rightarrow> (u32 \<Rightarrow> nat list) \<Rightarrow> nat \<Rightarrow> bool" where
  "dev_waiting s B x \<longleftrightarrow> (\<exists>a. is_devsem a s \<and> x \<in> set (B a))"

text \<open>
  \<open>swept X s B s'\<close>: the waiting processes among \<open>X\<close> have been taken off their semaphores.  Each one
  that waited on a semaphore of the support level or the clock has been counted back into its
  value; each one that waited for a device has been taken off \<open>softBlockCount\<close>.
\<close>

definition swept :: "nat list \<Rightarrow> 'z kstate_scheme \<Rightarrow> (u32 \<Rightarrow> nat list) \<Rightarrow> 'z kstate_scheme \<Rightarrow> bool" where
  "swept X s B s' \<longleftrightarrow>
     (\<forall>a. mem s' a = (if is_devsem a s then mem s a
        else mem s a + of_nat (length (B a) - length (survivors X (B a)))))
     \<and> softBlockCount s' = softBlockCount s - of_nat (length (filter (dev_waiting s B) X))"

definition others_kept :: "nat set \<Rightarrow> 'z kstate_scheme \<Rightarrow> 'z kstate_scheme \<Rightarrow> bool" where
  "others_kept A s s' \<longleftrightarrow> link s' = link s \<and> states s' = states s \<and> sups s' = sups s \<and> bios s' = bios s
     \<and> cpu s' = cpu s \<and> tod s' = tod s \<and> tod_n s' = tod_n s \<and> tlb_log s' = tlb_log s
     \<and> kstate.more s' = kstate.more s
     \<and> (\<forall>i. i \<notin> A \<longrightarrow> unasl (pcbTable s' i) = unasl (pcbTable s i))"

definition without :: "nat list \<Rightarrow> ptr \<Rightarrow> ptr" where
  "without X c = (case c of None \<Rightarrow> NULL | Some i \<Rightarrow> if i \<in> set X then NULL else Some i)"

definition reaped :: "nat set \<Rightarrow> nat list \<Rightarrow> 'z kstate_scheme \<Rightarrow> nat list \<Rightarrow> nat list \<Rightarrow> (u32 \<Rightarrow> nat list)
    \<Rightarrow> nat set \<Rightarrow> 'z kstate_scheme \<Rightarrow> bool" where
  "reaped A X s fr rq B L s' \<longleftrightarrow>
     (\<exists>fr'. kq s' fr' (survivors X rq) (\<lambda>a. survivors X (B a)) (L - set X) \<and> set fr' = set X \<union> set fr)
     \<and> swept X s B s' \<and> others_kept A s s' \<and> cnt s' + length X = cnt s
     \<and> currentProcess s' = without X (currentProcess s)"

lemma without_simps [simp]: "without [] c = c" "without Y (without X c) = without (X @ Y) c"
  by (cases c; simp add: without_def)+

lemma others_kept_trans:
  "others_kept A s s' \<Longrightarrow> others_kept B s' s'' \<Longrightarrow> others_kept (A \<union> B) s s''"
  by (simp add: others_kept_def)

lemma others_kept_mono: "others_kept A s s' \<Longrightarrow> A \<subseteq> B \<Longrightarrow> others_kept B s s'"
  by (auto simp: others_kept_def)

lemma is_devsem_link: "link s' = link s \<Longrightarrow> is_devsem a s' = is_devsem a s"
  by (simp add: is_devsem_def devsem_def)

lemma swept_trans:
  assumes s1: "swept X s B s1" and s2: "swept Y s1 (\<lambda>a. survivors X (B a)) s2"
    and l: "link s1 = link s" and d: "set X \<inter> set Y = {}"
  shows "swept (X @ Y) s B s2"
proof -
  have "dev_waiting s1 (\<lambda>a. survivors X (B a)) y = dev_waiting s B y" if "y \<in> set Y" for y
    using that d is_devsem_link [OF l] by (auto simp: dev_waiting_def)
  then have "filter (dev_waiting s1 (\<lambda>a. survivors X (B a))) Y = filter (dev_waiting s B) Y"
    by (rule filter_cong [OF refl])
  moreover have "length (B a) - length (survivors (X @ Y) (B a)) =
      (length (B a) - length (survivors X (B a))) +
      (length (survivors X (B a)) - length (survivors (X @ Y) (B a)))" for a
    using survivors_length [of X "B a"] survivors_length [of Y "survivors X (B a)"] by simp
  ultimately show ?thesis
    using s1 s2 is_devsem_link [OF l] by (simp add: swept_def add.assoc diff_diff_eq)
qed

lemma reaped_trans:
  assumes r1: "reaped A X s fr rq B L s1"
    and r2: "\<And>fr1. kq s1 fr1 (survivors X rq) (\<lambda>a. survivors X (B a)) (L - set X) \<Longrightarrow>
      set fr1 = set X \<union> set fr \<Longrightarrow>
      reaped A' Y s1 fr1 (survivors X rq) (\<lambda>a. survivors X (B a)) (L - set X) s2"
    and d: "set X \<inter> set Y = {}"
  shows "reaped (A \<union> A') (X @ Y) s fr rq B L s2"
proof -
  obtain fr1 where k1: "kq s1 fr1 (survivors X rq) (\<lambda>a. survivors X (B a)) (L - set X)"
    "set fr1 = set X \<union> set fr" using r1 by (auto simp: reaped_def)
  note r2 = r2 [OF k1]
  obtain fr2 where k2: "kq s2 fr2 (survivors (X @ Y) rq) (\<lambda>a. survivors (X @ Y) (B a)) (L - set X - set Y)"
    "set fr2 = set Y \<union> set fr1" using r2 by (auto simp: reaped_def)
  have "L - set X - set Y = L - set (X @ Y)" by auto
  then have "\<exists>fr'. kq s2 fr' (survivors (X @ Y) rq) (\<lambda>a. survivors (X @ Y) (B a)) (L - set (X @ Y))
      \<and> set fr' = set (X @ Y) \<union> set fr"
    using k1(2) k2 by auto
  moreover have "swept (X @ Y) s B s2"
    by (rule swept_trans [of X s B s1 Y s2, OF _ _ _ d])
      (use r1 r2 in \<open>simp_all add: reaped_def others_kept_def\<close>)
  moreover have "others_kept (A \<union> A') s s2"
    by (rule others_kept_trans [of A s s1]) (use r1 r2 in \<open>simp_all add: reaped_def\<close>)
  ultimately show ?thesis using r1 r2 by (simp add: reaped_def)
qed

lemma reaped_nil:
  assumes "kq s fr rq B L"
  shows "reaped A [] s fr rq B L s"
  using assms by (auto simp: reaped_def swept_def others_kept_def)

section \<open>Burying one process\<close>

lemma survivors_blocked:
  assumes "placed fr rq B L" and "p \<in> set (B a)"
  shows "(\<lambda>b. survivors [p] (B b)) = B(a := remove1 p (B a))"
    and "survivors [p] rq = rq"
    and "length (B b) - length (survivors [p] (B b)) = (if b = a then 1 else 0)"
    and "dev_waiting s B p = is_devsem a s"
proof -
  note P = placedD [OF assms(1)]
  have d: "distinct (B a)" using waiting_okD(1) [OF P(3)] .
  have notin: "p \<notin> set (B b)" if "b \<noteq> a" for b
    using waiting_okD(3) [OF P(3) that] assms(2) by blast
  then have other: "b \<noteq> a \<Longrightarrow> survivors [p] (B b) = B b" for b
    by (intro survivors_none) auto
  show "(\<lambda>b. survivors [p] (B b)) = B(a := remove1 p (B a))"
    using other survivors_one [OF d] by auto
  show "survivors [p] rq = rq"
    using P(5) [of a] assms(2) by (intro survivors_none) auto
  have "0 < length (B a)" using assms(2) by auto
  then have "length (B a) - length (survivors [p] (B a)) = 1"
    using assms(2) by (simp add: survivors_one [OF d] length_remove1 del: length_greater_0_conv)
  then show "length (B b) - length (survivors [p] (B b)) = (if b = a then 1 else 0)"
    using other by simp
  show "dev_waiting s B p = is_devsem a s"
    using notin assms(2) unfolding dev_waiting_def by metis
qed

text \<open>Taking the process off its semaphore and out of the ready queue.\<close>

definition unplaced :: "nat \<Rightarrow> 'z kstate_scheme \<Rightarrow> nat list \<Rightarrow> nat list \<Rightarrow> (u32 \<Rightarrow> nat list)
    \<Rightarrow> nat set \<Rightarrow> 'z kstate_scheme \<Rightarrow> bool" where
  "unplaced p s fr rq B L s' \<longleftrightarrow> held s' fr (survivors [p] rq) (\<lambda>a. survivors [p] (B a)) (insert p L)
     \<and> (\<forall>x \<in> L - {p}. p_semAdd (pcbTable s' x) = NULL_addr) \<and> swept [p] s B s'
     \<and> others_kept {} s s' \<and> processCount s' = processCount s \<and> currentProcess s' = currentProcess s"

lemma unplace_blocked:
  assumes k: "kq s fr rq B L" and p: "p \<in> set (B a)"
  shows "\<exists>s'. kthen (unblock_dead p s) (\<lambda>_. unqueue_dead p) = Ret () s' \<and> unplaced p s fr rq B L s'"
proof -
  note pl = kqD(4) [OF k]
  note S = survivors_blocked [OF pl p]
  have "a < MAXINT" using asl_waiting(4) [OF kqD(3) [OF k], of a] p by (metis empty_iff empty_set)
  then have sem: "p_semAdd (pcbTable s p) = a" "a \<noteq> NULL_addr"
    using asl_waiting(3) [OF kqD(3) [OF k] p] by auto
  define s1 where "s1 = (if is_devsem a s then s else store_word a (mem s a + 1) s)"
  have "kq s1 fr rq B L" using k by (simp add: s1_def)
  then obtain s2 where s2: "outBlocked (Some p) s1 = Some (Some p, s2)"
    "held s2 fr rq (B(a := remove1 p (B a))) (insert p L)"
    "\<forall>x \<in> L. p_semAdd (pcbTable s2 x) = NULL_addr" "kframe s1 s2"
    using kq_unblock p by blast
  have dev: "is_devsem a s2 = is_devsem a s"
    using s2(4) by (intro is_devsem_link) (simp add: kframe_def s1_def)
  define s3 where "s3 = (if is_devsem a s then s2\<lparr>softBlockCount := softBlockCount s2 - 1\<rparr> else s2)"
  have run: "unblock_dead p s = Ret () s3"
    using s2(1) sem dev by (simp add: unblock_dead_def Let_def s1_def s3_def)
  have h3: "held s3 fr rq (B(a := remove1 p (B a))) (insert p L)"
    by (rule held_cong [OF s2(2)]) (simp_all add: s3_def)
  have "p \<notin> set rq" using placedD(5) [OF pl, of a] p by blast
  then have "unqueue_dead p s3 = Ret () s3"
    using outProcQ_absent [of s3 "readyQueue s3" rq p] h3 by (simp add: held_def unqueue_dead_def)
  moreover have "swept [p] s B s3"
    unfolding swept_def using s2(4) S(3,4)
    by (auto simp: s3_def s1_def kframe_def)
  moreover have "others_kept {} s s3" "processCount s3 = processCount s"
    "currentProcess s3 = currentProcess s"
    using s2(4) by (auto simp: others_kept_def s3_def s1_def kframe_def)
  moreover have "\<forall>x \<in> L - {p}. p_semAdd (pcbTable s3 x) = NULL_addr"
    using s2(3) by (simp add: s3_def)
  ultimately show ?thesis using run h3 S(1,2) by (auto simp: unplaced_def)
qed

lemma unplace_free:
  assumes k: "kq s fr rq B L" and p: "p \<in> set rq \<union> L"
  shows "\<exists>s'. kthen (unblock_dead p s) (\<lambda>_. unqueue_dead p) = Ret () s' \<and> unplaced p s fr rq B L s'"
proof -
  note P = placedD [OF kqD(4) [OF k]]
  have sem: "unblock_dead p s = Ret () s"
    using kqD(5,6) [OF k, of p] p by (auto simp: unblock_dead_def)
  have nb: "p \<notin> set (B a)" for a using P(5) [of a] P(6) p by blast
  then have B: "(\<lambda>a. survivors [p] (B a)) = B" by (auto intro!: survivors_none)
  have ndev: "\<not> dev_waiting s B p" using nb by (simp add: dev_waiting_def)
  have "\<exists>s'. unqueue_dead p s = Ret () s' \<and> kq s' fr (survivors [p] rq) B (insert p L) \<and> kframe s s'"
  proof (cases "p \<in> set rq")
    case True
    then show ?thesis using kq_unqueue [OF k True] survivors_one [OF P(2)] by simp
  next
    case False
    then have "survivors [p] rq = rq" "insert p L = L" using p by (auto intro!: survivors_none)
    then show ?thesis using kq_unqueue_absent [OF k False] k by simp
  qed
  then obtain s' where s': "unqueue_dead p s = Ret () s'"
    "kq s' fr (survivors [p] rq) B (insert p L)" "kframe s s'" by blast
  have "swept [p] s B s'"
    using s'(3) ndev survivors_none nb by (auto simp: swept_def kframe_def)
  moreover have "others_kept {} s s'" using s'(3) by (simp add: others_kept_def kframe_def)
  ultimately show ?thesis
    using sem s' B by (auto simp: unplaced_def kq_def kframe_def)
qed

lemma unplace:
  assumes k: "kq s fr rq B L" and p: "p < MAXPROC" "p \<notin> set fr"
  shows "\<exists>s'. kthen (unblock_dead p s) (\<lambda>_. unqueue_dead p) = Ret () s' \<and> unplaced p s fr rq B L s'"
proof -
  have "p \<in> set fr \<union> set rq \<union> (\<Union>a. set (B a)) \<union> L"
    using placedD(7) [OF kqD(4) [OF k]] p(1) by blast
  then consider (blocked) a where "p \<in> set (B a)" | (free) "p \<in> set rq \<union> L" using p(2) by blast
  then show ?thesis
  proof cases
    case blocked
    then show ?thesis by (rule unplace_blocked [OF k])
  next
    case free
    then show ?thesis by (rule unplace_free [OF k])
  qed
qed

text \<open>Leaving the tree, giving the PCB back, counting down.\<close>

lemma held_tframe:
  assumes "held s fr rq B L" and "tframe q A s s'"
  shows "held s' fr rq B L"
proof -
  have eq: "s' = s\<lparr>pcbTable := pcbTable s'\<rparr>" by (rule tframeD(1) [OF assms(2)])
  have "readyQueue s' = readyQueue s" "semdTable s' = semdTable s" "semd_h s' = semd_h s"
    "semdFree_h s' = semdFree_h s" "pcbFree_h s' = pcbFree_h s" by (subst eq, simp)+
  then show ?thesis
    by (intro held_cong [OF assms(1)]) (simp_all add: tframe_untree(1,2,6) [OF assms(2)])
qed

lemma free_dead_spec:
  assumes h: "held s fr rq B L" and p: "p \<in> L"
    and sem: "\<forall>x \<in> L - {p}. p_semAdd (pcbTable s x) = NULL_addr" and n: "cnt s \<le> MAXPROC"
  shows "kpost (free_dead p s)
    (\<lambda>_ s'. 1 < cnt s \<and> kq s' (p # fr) rq B (L - {p}) \<and> cnt s' + 1 = cnt s
       \<and> mem s' = mem s \<and> softBlockCount s' = softBlockCount s \<and> others_kept {} s s'
       \<and> currentProcess s' = without [p] (currentProcess s))
    (\<lambda>e s'. e = HALT \<and> cnt s \<le> 1)"
proof -
  define s1 where "s1 = (if Some p = currentProcess s then s\<lparr>currentProcess := NULL\<rparr> else s)"
  have h1: "held s1 fr rq B L" by (rule held_cong [OF h]) (simp_all add: s1_def)
  note F = kq_free [OF h1 p]
  have sem1: "\<forall>x \<in> L - {p}. p_semAdd (pcbTable s1 x) = NULL_addr" using sem by (simp add: s1_def)
  define s2 where "s2 = give_pcb p s1"
  have s2: "freePcb (Some p) s1 = Some s2" "kq s2 (p # fr) rq B (L - {p})"
    using F [OF sem1] by (simp_all add: s2_def)
  have same: "processCount s2 = processCount s" "mem s2 = mem s" "softBlockCount s2 = softBlockCount s"
    "currentProcess s2 = without [p] (currentProcess s)" "others_kept {} s s2"
    by (auto simp: s2_def s1_def give_pcb_def without_def others_kept_def split: option.split)
  define s3 where "s3 = (if 0 < sint (processCount s2) then s2\<lparr>processCount := processCount s2 - 1\<rparr> else s2)"
  have run: "free_dead p s = (if processCount s3 = 0 then Exit HALT s3 else Ret () s3)"
    using s2(1) by (simp add: free_dead_def s1_def s3_def Let_def)
  have k3: "kq s3 (p # fr) rq B (L - {p})" using s2(2) by (simp add: s3_def)
  have pos: "0 < sint (processCount s) \<longleftrightarrow> processCount s \<noteq> 0"
  proof -
    have "sint (processCount s) = int (cnt s)"
      using n sint_small [of "processCount s"] by (simp add: cnt_def)
    then show ?thesis by (simp only: cnt_def of_nat_0_less_iff unat_gt_0)
  qed
  show ?thesis
  proof (cases "processCount s = 0")
    case True
    then have "s3 = s2" using pos same(1) by (simp add: s3_def)
    then show ?thesis using run same(1) True by (simp add: cnt_def)
  next
    case False
    have down: "unat (processCount s - 1) + 1 = unat (processCount s)"
      using False by (simp add: unat_minus_one) (metis One_nat_def Suc_pred unat_gt_0)
    have "1 < unat (processCount s)" if "processCount s \<noteq> 1"
    proof -
      have "0 < unat (processCount s - 1)" using that by (simp add: unat_gt_0)
      then show ?thesis using down by linarith
    qed
    moreover have "processCount s3 = processCount s - 1" using False pos same(1) by (simp add: s3_def)
    moreover note down
    moreover have "mem s3 = mem s" "softBlockCount s3 = softBlockCount s" "others_kept {} s s3"
      "currentProcess s3 = without [p] (currentProcess s)"
      using same by (simp_all add: s3_def others_kept_def)
    ultimately show ?thesis
      using run k3 by (auto simp: cnt_def unat_eq_zero)
  qed
qed

lemma others_kept_pcb:
  assumes "others_kept A s s'" and "i \<notin> A"
  shows "p_prnt (pcbTable s' i) = p_prnt (pcbTable s i)" "p_child (pcbTable s' i) = p_child (pcbTable s i)"
    "p_sib_right (pcbTable s' i) = p_sib_right (pcbTable s i)"
    "p_sib_left (pcbTable s' i) = p_sib_left (pcbTable s i)" "p_s (pcbTable s' i) = p_s (pcbTable s i)"
  using assms unasl_eqD [of "pcbTable s' i" "pcbTable s i"] by (simp_all add: others_kept_def)

lemma bury_split:
  "bury p s = kthen (kthen (unblock_dead p s) (\<lambda>_. unqueue_dead p))
     (\<lambda>_ s. kthen (detach_dead p s) (\<lambda>_. free_dead p))"
  by (simp add: bury_def kthen_assoc)

text \<open>Once the process is off its queue and out of the tree, \<open>free_dead\<close> completes the burial.\<close>

lemma free_dead_reaped:
  assumes u: "unplaced p s fr rq B L s1" and n: "cnt s \<le> MAXPROC"
    and d: "held s2 fr (survivors [p] rq) (\<lambda>a. survivors [p] (B a)) (insert p L)"
      "\<And>i. p_semAdd (pcbTable s2 i) = p_semAdd (pcbTable s1 i)" "others_kept A s1 s2"
      "mem s2 = mem s1" "processCount s2 = processCount s1" "softBlockCount s2 = softBlockCount s1"
      "currentProcess s2 = currentProcess s1"
  shows "kpost (free_dead p s2)
    (\<lambda>_ s'. 1 < cnt s \<and> reaped A [p] s fr rq B L s' \<and> others_kept {} s2 s')
    (\<lambda>e s'. e = HALT \<and> cnt s \<le> 1)"
proof -
  have c: "cnt s2 = cnt s" using d(5) u by (simp add: cnt_def unplaced_def)
  have sem: "\<forall>x \<in> insert p L - {p}. p_semAdd (pcbTable s2 x) = NULL_addr"
    using u d(2) by (auto simp: unplaced_def)
  have L: "insert p L - {p} = L - {p}" by auto
  show ?thesis
  proof (rule kpost_mono [OF free_dead_spec [OF d(1) insertI1 sem]])
    show "cnt s2 \<le> MAXPROC" using n c by simp
    fix s'
    assume F: "1 < cnt s2 \<and> kq s' (p # fr) (survivors [p] rq) (\<lambda>a. survivors [p] (B a)) (insert p L - {p})
      \<and> cnt s' + 1 = cnt s2 \<and> mem s' = mem s2 \<and> softBlockCount s' = softBlockCount s2
      \<and> others_kept {} s2 s' \<and> currentProcess s' = without [p] (currentProcess s2)"
    have "swept [p] s B s'" using F u d(4,6) by (simp add: unplaced_def swept_def)
    moreover have "others_kept A s s'"
      using F u d(3) by (auto simp: unplaced_def others_kept_def)
    ultimately show "1 < cnt s \<and> reaped A [p] s fr rq B L s' \<and> others_kept {} s2 s'"
      using F u d(7) c L by (auto simp: reaped_def unplaced_def)
  qed (use c in auto)
qed

lemma bury_orphan:
  assumes k: "kq s fr rq B L" and p: "p < MAXPROC" "p \<notin> set fr" and n: "cnt s \<le> MAXPROC"
    and orphan: "p_prnt (pcbTable s p) = NULL"
  shows "kpost (bury p s) (\<lambda>_ s'. 1 < cnt s \<and> reaped {} [p] s fr rq B L s')
    (\<lambda>e s'. e = HALT \<and> cnt s \<le> 1)"
proof -
  obtain s1 where s1: "kthen (unblock_dead p s) (\<lambda>_. unqueue_dead p) = Ret () s1"
    "unplaced p s fr rq B L s1" using unplace [OF k p] by blast
  have "p_prnt (pcbTable s1 p) = NULL"
    using s1(2) others_kept_pcb(1) [of "{}" s s1 p] orphan by (simp add: unplaced_def)
  then have "bury p s = free_dead p s1"
    using s1(1) by (simp add: bury_split detach_dead_def)
  moreover have "held s1 fr (survivors [p] rq) (\<lambda>a. survivors [p] (B a)) (insert p L)"
    using s1(2) by (simp add: unplaced_def)
  moreover have "others_kept {} s1 s1" by (simp add: others_kept_def)
  ultimately show ?thesis
    using kpost_mono [OF free_dead_reaped [OF s1(2) n, of s1 "{}"]] by simp
qed

lemma tframe_others:
  assumes "tframe q A s s'"
  shows "others_kept (insert q A) s s'" "mem s' = mem s" "processCount s' = processCount s"
    "softBlockCount s' = softBlockCount s" "currentProcess s' = currentProcess s"
proof -
  have eq: "s' = s\<lparr>pcbTable := pcbTable s'\<rparr>" by (rule tframeD(1) [OF assms])
  show "mem s' = mem s" "processCount s' = processCount s"
    "softBlockCount s' = softBlockCount s" "currentProcess s' = currentProcess s" by (subst eq, simp)+
  have "link s' = link s" "states s' = states s" "sups s' = sups s"
    "bios s' = bios s" "cpu s' = cpu s" "tod s' = tod s" "tod_n s' = tod_n s" "tlb_log s' = tlb_log s"
    "kstate.more s' = kstate.more s" by (subst eq, simp)+
  moreover have "unasl (pcbTable s' i) = unasl (pcbTable s i)" if "i \<notin> insert q A" for i
    using tframeD(2,3,4,5,6) [OF assms, of i] that
    by (cases "pcbTable s' i"; cases "pcbTable s i") (simp add: untree_def unasl_def)
  ultimately show "others_kept (insert q A) s s'" by (simp add: others_kept_def)
qed

text \<open>What taking a child of \<open>q\<close>, one of \<open>xs\<close>, out of the tree leaves as it was.\<close>

definition pruned :: "nat \<Rightarrow> nat set \<Rightarrow> 'z kstate_scheme \<Rightarrow> 'z kstate_scheme \<Rightarrow> bool" where
  "pruned q xs s s' \<longleftrightarrow> (\<forall>i. i \<noteq> q \<longrightarrow> p_child (pcbTable s' i) = p_child (pcbTable s i))
     \<and> (\<forall>i. i \<notin> xs \<longrightarrow> p_prnt (pcbTable s' i) = p_prnt (pcbTable s i)
          \<and> p_sib_left (pcbTable s' i) = p_sib_left (pcbTable s i)
          \<and> p_sib_right (pcbTable s' i) = p_sib_right (pcbTable s i))"

lemma bury_child:
  assumes k: "kq s fr rq B L" and p: "p < MAXPROC" "p \<notin> set fr" and n: "cnt s \<le> MAXPROC"
    and ch: "children (pcbTable s) q xs" "p \<in> set xs"
  shows "kpost (bury p s)
    (\<lambda>_ s'. 1 < cnt s \<and> reaped (insert q (set xs)) [p] s fr rq B L s'
       \<and> children (pcbTable s') q (remove1 p xs) \<and> pruned q (set xs) s s')
    (\<lambda>e s'. e = HALT \<and> cnt s \<le> 1)"
proof -
  obtain s1 where s1: "kthen (unblock_dead p s) (\<lambda>_. unqueue_dead p) = Ret () s1"
    "unplaced p s fr rq B L s1" using unplace [OF k p] by blast
  have u: "others_kept {} s s1" "held s1 fr (survivors [p] rq) (\<lambda>a. survivors [p] (B a)) (insert p L)"
    using s1(2) by (simp_all add: unplaced_def)
  have ch1: "children (pcbTable s1) q xs"
    using ch(1) children_cong [of "pcbTable s1" q "pcbTable s" xs] others_kept_pcb [OF u(1)] by simp
  obtain s2 where s2: "outChild (Some p) s1 = Some (Some p, s2)" "children (pcbTable s2) q (remove1 p xs)"
    "tframe q (set xs) s1 s2"
    using outChild_spec [OF ch1 ch(2)] by blast
  note o = tframe_others [OF s2(3)]
  have "p_prnt (pcbTable s1 p) \<noteq> NULL" using children_parent [OF ch1 ch(2)] by simp
  then have run: "bury p s = free_dead p s2"
    using s1(1) s2(1) by (simp add: bury_split detach_dead_def)
  show ?thesis
    unfolding run
  proof (rule kpost_mono [OF free_dead_reaped [OF s1(2) n held_tframe [OF u(2) s2(3)] _ o]])
    show "p_semAdd (pcbTable s2 i) = p_semAdd (pcbTable s1 i)" for i
      by (rule tframe_untree(6) [OF s2(3)])
    fix s' assume "1 < cnt s \<and> reaped (insert q (set xs)) [p] s fr rq B L s' \<and> others_kept {} s2 s'"
    then show "1 < cnt s \<and> reaped (insert q (set xs)) [p] s fr rq B L s'
       \<and> children (pcbTable s') q (remove1 p xs) \<and> pruned q (set xs) s s'"
      using s2(2) children_cong [of "pcbTable s'" q "pcbTable s2" "remove1 p xs"]
        others_kept_pcb [of "{}" s2 s'] others_kept_pcb [OF u(1)] tframeD(3-6) [OF s2(3)]
      by (simp add: pruned_def)
  qed
qed

section \<open>Burying a tree\<close>

lemma kq_tframe: "kq s fr rq B L \<Longrightarrow> tframe q A s s' \<Longrightarrow> kq s' fr rq B L"
  using held_tframe [of s fr rq B L q A s'] tframe_untree(6) [of q A s s'] by (simp add: kq_def)

lemma reaped_tframe:
  assumes "tframe q A s s1" and "reaped A' X s1 fr rq B L s'"
  shows "reaped (insert q A \<union> A') X s fr rq B L s'"
proof -
  note o = tframe_others [OF assms(1)]
  have "link s1 = link s" using o(1) by (simp add: others_kept_def)
  then have "dev_waiting s1 B = dev_waiting s B" "is_devsem a s1 = is_devsem a s" for a
    using is_devsem_link [of s1 s] by (auto simp: dev_waiting_def fun_eq_iff)
  then show ?thesis
    using assms(2) o others_kept_trans [OF o(1)] by (simp add: reaped_def swept_def cnt_def)
qed

lemma reaped_mono: "reaped A X s fr rq B L s' \<Longrightarrow> A \<subseteq> A' \<Longrightarrow> reaped A' X s fr rq B L s'"
  using others_kept_mono by (auto simp: reaped_def)

lemma reaped_pcb:
  assumes "reaped A X s fr rq B L s'" and "i \<notin> A"
  shows "p_prnt (pcbTable s' i) = p_prnt (pcbTable s i)" "p_child (pcbTable s' i) = p_child (pcbTable s i)"
    "p_sib_right (pcbTable s' i) = p_sib_right (pcbTable s i)"
    "p_sib_left (pcbTable s' i) = p_sib_left (pcbTable s i)"
  using assms others_kept_pcb [of A s s' i] by (simp_all add: reaped_def)

text \<open>A tree none of whose PCBs was touched is still there.\<close>

lemma is_tree_reaped:
  assumes r: "reaped A X s fr rq B L s'" and d: "set (procs T) \<inter> A = {}"
  shows "is_tree (pcbTable s') T = is_tree (pcbTable s) T"
proof (rule is_tree_cong)
  fix x assume "x \<in> set (procs T)"
  then have "x \<notin> A" using d by blast
  then show "p_child (pcbTable s' x) = p_child (pcbTable s x)" by (rule reaped_pcb(2) [OF r])
next
  fix x assume "x \<in> set (butlast (procs T))"
  then have "x \<in> set (procs T)" by (rule in_set_butlastD)
  then have "x \<notin> A" using d by blast
  then show "p_prnt (pcbTable s' x) = p_prnt (pcbTable s x)
      \<and> p_sib_left (pcbTable s' x) = p_sib_left (pcbTable s x)
      \<and> p_sib_right (pcbTable s' x) = p_sib_right (pcbTable s x)"
    using reaped_pcb [OF r] by simp
qed

lemma is_tree_detached:
  assumes "tframe q (proot ` set ts) s s'" and "distinct (concat (map procs ts) @ [q])" and "T \<in> set ts"
  shows "is_tree (pcbTable s') T = is_tree (pcbTable s) T"
proof (rule is_tree_cong)
  fix x assume "x \<in> set (procs T)"
  then have "x \<noteq> q" using assms(2,3) by auto
  then show "p_child (pcbTable s' x) = p_child (pcbTable s x)" by (rule tframeD(3) [OF assms(1)])
next
  fix x assume x: "x \<in> set (butlast (procs T))"
  have d: "distinct (concat (map procs ts))" using assms(2) by simp
  have "x \<notin> proot ` set ts"
  proof
    assume "x \<in> proot ` set ts"
    then obtain T' where T': "T' \<in> set ts" "x = proot T'" by auto
    have "x \<in> set (procs T)" using x by (rule in_set_butlastD)
    moreover have "x \<in> set (procs T')" using T'(2) proot_in_procs by simp
    ultimately have "procs T = procs T'"
      using d assms(3) T'(1) by (auto simp: distinct_concat_iff)
    moreover have "distinct (butlast (procs T) @ [proot T])"
      using distinct_concat_kid [OF d assms(3)] procs_last [of T] by simp
    ultimately show False
      using x T'(2) procs_last [of T] procs_last [of T'] by (metis distinct_append append_same_eq
          append1_eq_conv disjoint_iff list.set_intros(1))
  qed
  then show "p_prnt (pcbTable s' x) = p_prnt (pcbTable s x)
      \<and> p_sib_left (pcbTable s' x) = p_sib_left (pcbTable s x)
      \<and> p_sib_right (pcbTable s' x) = p_sib_right (pcbTable s x)"
    using tframeD(4,5,6) [OF assms(1)] by simp
qed

text \<open>The premises common to the two recursions.\<close>

definition doomed :: "nat list \<Rightarrow> 'z kstate_scheme \<Rightarrow> nat list \<Rightarrow> nat list \<Rightarrow> (u32 \<Rightarrow> nat list)
    \<Rightarrow> nat set \<Rightarrow> bool" where
  "doomed X s fr rq B L \<longleftrightarrow> kq s fr rq B L \<and> cnt s \<le> MAXPROC \<and> distinct X
     \<and> set X \<subseteq> {..<MAXPROC} - set fr"

lemma doomed_reaped:
  assumes "reaped A X s fr rq B L s'" and "doomed (X @ Y) s fr rq B L"
    and "kq s' fr1 rq1 B1 L1" and "set fr1 = set X \<union> set fr"
  shows "doomed Y s' fr1 rq1 B1 L1"
  using assms by (auto simp: doomed_def reaped_def)

text \<open>What the two mutually recursive functions achieve.\<close>

definition tree_done :: "ptree \<Rightarrow> 'z kstate_scheme \<Rightarrow> nat list \<Rightarrow> nat list \<Rightarrow> (u32 \<Rightarrow> nat list)
    \<Rightarrow> nat set \<Rightarrow> ('z kstate_scheme, unit) kres \<Rightarrow> bool" where
  "tree_done T s fr rq B L r \<longleftrightarrow> kpost r
     (\<lambda>_ s'. length (procs T) < cnt s \<and> reaped (set (procs T)) (procs T) s fr rq B L s')
     (\<lambda>e s'. e = HALT \<and> cnt s \<le> length (procs T))"

definition same_place :: "nat \<Rightarrow> 'z kstate_scheme \<Rightarrow> 'z kstate_scheme \<Rightarrow> bool" where
  "same_place p s s' \<longleftrightarrow> p_prnt (pcbTable s' p) = p_prnt (pcbTable s p)
     \<and> p_sib_left (pcbTable s' p) = p_sib_left (pcbTable s p)
     \<and> p_sib_right (pcbTable s' p) = p_sib_right (pcbTable s p)"

definition kids_done :: "nat \<Rightarrow> ptree list \<Rightarrow> 'z kstate_scheme \<Rightarrow> nat list \<Rightarrow> nat list \<Rightarrow> (u32 \<Rightarrow> nat list)
    \<Rightarrow> nat set \<Rightarrow> ('z kstate_scheme, unit) kres \<Rightarrow> bool" where
  "kids_done p ts s fr rq B L r \<longleftrightarrow> kpost r
     (\<lambda>_ s'. reaped (insert p (set (concat (map procs ts)))) (concat (map procs ts)) s fr rq B L s'
        \<and> same_place p s s')
     (\<lambda>e s'. e = HALT \<and> cnt s \<le> length (concat (map procs ts)))"

lemma tree_step:
  assumes d: "doomed (concat (map procs ts) @ [p]) s fr rq B L" and kids: "kids_done p ts s fr rq B L r"
    and bury: "\<And>s1 fr1 rq1 B1 L1. same_place p s s1 \<Longrightarrow>
      reaped (insert p (set (concat (map procs ts)))) (concat (map procs ts)) s fr rq B L s1 \<Longrightarrow>
      doomed [p] s1 fr1 rq1 B1 L1 \<Longrightarrow>
      kpost (bury p s1) (\<lambda>_ s'. 1 < cnt s1 \<and> reaped A [p] s1 fr1 rq1 B1 L1 s' \<and> Q s')
        (\<lambda>e s'. e = HALT \<and> cnt s1 \<le> 1)"
  shows "kpost (kthen r (\<lambda>_ s. bury p s))
    (\<lambda>_ s'. length (procs (PNode p ts)) < cnt s
       \<and> reaped (A \<union> set (procs (PNode p ts))) (procs (PNode p ts)) s fr rq B L s' \<and> Q s')
    (\<lambda>e s'. e = HALT \<and> cnt s \<le> length (procs (PNode p ts)))"
proof -
  let ?X = "concat (map procs ts)"
  have "kpost r (\<lambda>_ s1. kpost (bury p s1)
        (\<lambda>_ s'. length (?X @ [p]) < cnt s \<and> reaped (A \<union> set (?X @ [p])) (?X @ [p]) s fr rq B L s' \<and> Q s')
        (\<lambda>e s'. e = HALT \<and> cnt s \<le> length (?X @ [p])))
        (\<lambda>e s'. e = HALT \<and> cnt s \<le> length (?X @ [p]))"
  proof (rule kpost_mono [OF kids [unfolded kids_done_def]])
    fix s1
    assume s1: "reaped (insert p (set ?X)) ?X s fr rq B L s1 \<and> same_place p s s1"
    then obtain fr1 where k1: "kq s1 fr1 (survivors ?X rq) (\<lambda>a. survivors ?X (B a)) (L - set ?X)"
      "set fr1 = set ?X \<union> set fr" by (auto simp: reaped_def)
    have c1: "cnt s1 + length ?X = cnt s" using s1 by (simp add: reaped_def)
    have d1: "doomed [p] s1 fr1 (survivors ?X rq) (\<lambda>a. survivors ?X (B a)) (L - set ?X)"
      using s1 by (intro doomed_reaped [OF _ d k1]) auto
    show "kpost (bury p s1)
        (\<lambda>_ s'. length (?X @ [p]) < cnt s \<and> reaped (A \<union> set (?X @ [p])) (?X @ [p]) s fr rq B L s' \<and> Q s')
        (\<lambda>e s'. e = HALT \<and> cnt s \<le> length (?X @ [p]))"
    proof (rule kpost_mono [OF bury [OF _ _ d1]])
      fix s'
      assume s': "1 < cnt s1 \<and> reaped A [p] s1 fr1 (survivors ?X rq) (\<lambda>a. survivors ?X (B a)) (L - set ?X) s'
        \<and> Q s'"
      have "reaped (insert p (set ?X) \<union> A) (?X @ [p]) s fr rq B L s'"
      proof (rule reaped_trans)
        show "reaped (insert p (set ?X)) ?X s fr rq B L s1" using s1 by simp
        show "set ?X \<inter> set [p] = {}" using d by (auto simp: doomed_def)
        fix fr2 assume "set fr2 = set ?X \<union> set fr"
        then show "reaped A [p] s1 fr2 (survivors ?X rq) (\<lambda>a. survivors ?X (B a)) (L - set ?X) s'"
          using s' k1(2) by (simp add: reaped_def)
      qed
      then show "length (?X @ [p]) < cnt s \<and> reaped (A \<union> set (?X @ [p])) (?X @ [p]) s fr rq B L s' \<and> Q s'"
        using s' c1 by (auto intro: reaped_mono)
    qed (use c1 s1 in auto)
  qed auto
  then show ?thesis by simp
qed

lemma tree_step_orphan:
  assumes d: "doomed (concat (map procs ts) @ [p]) s fr rq B L" and kids: "kids_done p ts s fr rq B L r"
    and orphan: "p_prnt (pcbTable s p) = NULL"
  shows "tree_done (PNode p ts) s fr rq B L (kthen r (\<lambda>_ s. bury p s))"
proof -
  have "kpost (bury p s1) (\<lambda>_ s'. 1 < cnt s1 \<and> reaped {} [p] s1 fr1 rq1 B1 L1 s' \<and> True)
        (\<lambda>e s'. e = HALT \<and> cnt s1 \<le> 1)"
    if "same_place p s s1" "doomed [p] s1 fr1 rq1 B1 L1" for s1 fr1 rq1 B1 L1
    using bury_orphan [of s1 fr1 rq1 B1 L1 p] that orphan by (simp add: same_place_def doomed_def)
  from tree_step [OF d kids this] show ?thesis
    by (simp add: tree_done_def del: procs.simps)
qed

lemma children_reaped:
  assumes "reaped A X s fr rq B L s'" and "q \<notin> A" and "set xs \<inter> A = {}"
  shows "children (pcbTable s') q xs = children (pcbTable s) q xs"
proof (rule children_cong)
  show "p_child (pcbTable s' q) = p_child (pcbTable s q)" by (rule reaped_pcb(2) [OF assms(1,2)])
  fix x assume "x \<in> set xs"
  then have "x \<notin> A" using assms(3) by blast
  then show "p_prnt (pcbTable s' x) = p_prnt (pcbTable s x)
      \<and> p_sib_left (pcbTable s' x) = p_sib_left (pcbTable s x)
      \<and> p_sib_right (pcbTable s' x) = p_sib_right (pcbTable s x)"
    using reaped_pcb [OF assms(1)] by simp
qed

lemma roots_sub: "set (map proot ts) \<subseteq> set (concat (map procs ts))"
  using proot_in_procs by fastforce

lemma kids_step:
  fixes f g :: "'z kstate_scheme \<Rightarrow> ('z kstate_scheme, unit) kres"
  assumes tr: "\<forall>T' \<in> set (T # ts). is_tree (pcbTable s) T'"
    and d: "doomed (concat (map procs (T # ts)) @ [p]) s fr rq B L"
    and s1: "children (pcbTable s1) p (map proot ts)" "tframe p (set (map proot (T # ts))) s s1"
      "p_prnt (pcbTable s1 (proot T)) = NULL"
    and f: "is_tree (pcbTable s1) T \<Longrightarrow> doomed (procs T) s1 fr rq B L \<Longrightarrow> tree_done T s1 fr rq B L (f s1)"
    and g: "\<And>s2 fr2 rq2 B2 L2. children (pcbTable s2) p (map proot ts) \<Longrightarrow>
      \<forall>T' \<in> set ts. is_tree (pcbTable s2) T' \<Longrightarrow> doomed (concat (map procs ts) @ [p]) s2 fr2 rq2 B2 L2 \<Longrightarrow>
      kids_done p ts s2 fr2 rq2 B2 L2 (g s2)"
  shows "kids_done p (T # ts) s fr rq B L (kthen (f s1) (\<lambda>_. g))"
proof -
  let ?X = "procs T" and ?Y = "concat (map procs ts)"
  have d': "distinct (?X @ ?Y @ [p])" "distinct (concat (map procs (T # ts)) @ [p])"
    "set (?X @ ?Y @ [p]) \<subseteq> {..<MAXPROC} - set fr" "kq s fr rq B L"
    using d by (simp_all add: doomed_def)
  have k1: "kq s1 fr rq B L" by (rule kq_tframe [OF d'(4) s1(2)])
  have o: "cnt s1 = cnt s" using tframe_others(3) [OF s1(2)] by (simp add: cnt_def)
  have fr1: "tframe p (proot ` set (T # ts)) s s1" using s1(2) by simp
  have tr1: "is_tree (pcbTable s1) T'" if "T' \<in> set (T # ts)" for T'
    using is_tree_detached [OF fr1 d'(2) that] tr that by blast
  have d1: "doomed (?X @ ?Y @ [p]) s1 fr rq B L"
    using d k1 o by (simp add: doomed_def)
  have "p \<notin> set (map proot (T # ts))" using d'(1) roots_sub [of "T # ts"] by auto
  then have p1: "same_place p s s1"
    using tframeD(4,5,6) [OF s1(2), of p] by (simp add: same_place_def)
  have "tree_done T s1 fr rq B L (f s1)" by (rule f) (use tr1 d1 in \<open>auto simp: doomed_def\<close>)
  then have "kpost (f s1) (\<lambda>_ s2. kpost (g s2)
      (\<lambda>_ s'. reaped (insert p (set (?X @ ?Y))) (?X @ ?Y) s fr rq B L s'
         \<and> same_place p s s')
      (\<lambda>e s'. e = HALT \<and> cnt s \<le> length (?X @ ?Y)))
      (\<lambda>e s'. e = HALT \<and> cnt s \<le> length (?X @ ?Y))"
    unfolding tree_done_def
  proof (rule kpost_mono)
    fix s2 assume s2: "length ?X < cnt s1 \<and> reaped (set ?X) ?X s1 fr rq B L s2"
    then have r: "reaped (set ?X) ?X s1 fr rq B L s2" ..
    obtain fr2 where k2: "kq s2 fr2 (survivors ?X rq) (\<lambda>a. survivors ?X (B a)) (L - set ?X)"
      "set fr2 = set ?X \<union> set fr" using r by (auto simp: reaped_def)
    have pn: "p \<notin> set ?X" "set ?X \<inter> set ?Y = {}" using d'(1) by auto
    have c2: "cnt s2 + length ?X = cnt s" using r o by (simp add: reaped_def)
    have "kids_done p ts s2 fr2 (survivors ?X rq) (\<lambda>a. survivors ?X (B a)) (L - set ?X) (g s2)"
    proof (rule g)
      show "children (pcbTable s2) p (map proot ts)"
        using children_reaped [OF r pn(1), of "map proot ts"] s1(1) pn(2) roots_sub [of ts] by blast
      show "\<forall>T' \<in> set ts. is_tree (pcbTable s2) T'"
        using is_tree_reaped [OF r] tr1 pn(2) by (auto simp: disjoint_iff)
      show "doomed (?Y @ [p]) s2 fr2 (survivors ?X rq) (\<lambda>a. survivors ?X (B a)) (L - set ?X)"
        by (rule doomed_reaped [OF r d1 k2])
    qed
    then show "kpost (g s2)
        (\<lambda>_ s'. reaped (insert p (set (?X @ ?Y))) (?X @ ?Y) s fr rq B L s'
           \<and> same_place p s s')
        (\<lambda>e s'. e = HALT \<and> cnt s \<le> length (?X @ ?Y))"
      unfolding kids_done_def
    proof (rule kpost_mono)
      fix s' assume s': "reaped (insert p (set ?Y)) ?Y s2 fr2 (survivors ?X rq) (\<lambda>a. survivors ?X (B a))
          (L - set ?X) s' \<and> same_place p s2 s'"
      have "reaped (set ?X \<union> insert p (set ?Y)) (?X @ ?Y) s1 fr rq B L s'"
      proof (rule reaped_trans [OF r _ pn(2)])
        fix fr3 assume "set fr3 = set ?X \<union> set fr"
        then show "reaped (insert p (set ?Y)) ?Y s2 fr3 (survivors ?X rq) (\<lambda>a. survivors ?X (B a))
            (L - set ?X) s'"
          using s' k2(2) by (simp add: reaped_def)
      qed
      then have "reaped (insert p (set (?X @ ?Y))) (?X @ ?Y) s fr rq B L s'"
        using roots_sub [of "T # ts"] by (intro reaped_mono [OF reaped_tframe [OF s1(2)]]) auto
      moreover have "same_place p s s'"
        using s' reaped_pcb [OF r pn(1)] p1 by (simp add: same_place_def)
      ultimately show "reaped (insert p (set (?X @ ?Y))) (?X @ ?Y) s fr rq B L s'
          \<and> same_place p s s'" ..
    qed (use c2 in auto)
  qed (use o in auto)
  then show ?thesis by (simp add: kids_done_def)
qed

lemma fuel_split: "0 < a \<Longrightarrow> 2 * (a + b) + 1 \<le> Suc n \<Longrightarrow> 2 * a \<le> n \<and> 2 * b + 1 \<le> n" for n :: nat
  by arith

lemma kill_run:
  fixes s :: "'z kstate_scheme"
  shows "is_tree (pcbTable s) T \<Longrightarrow> doomed (procs T) s fr rq B L \<Longrightarrow>
      p_prnt (pcbTable s (proot T)) = NULL \<Longrightarrow> 2 * length (procs T) \<le> n \<Longrightarrow>
      tree_done T s fr rq B L (sysTerminate_n n (Some (proot T)) s)"
    and "children (pcbTable s) p (map proot ts) \<Longrightarrow> \<forall>T \<in> set ts. is_tree (pcbTable s) T \<Longrightarrow>
      doomed (concat (map procs ts) @ [p]) s fr rq B L \<Longrightarrow>
      2 * length (concat (map procs ts)) + 1 \<le> n \<Longrightarrow>
      kids_done p ts s fr rq B L (kill_children n p s)"
proof (induction n arbitrary: T p ts s fr rq B L and T p ts s fr rq B L)
  case 0
  {
    case 1
    then show ?case by (cases T) simp
  next
    case 2
    then show ?case by simp
  }
next
  case (Suc n)
  {
    case 1
    obtain p ts where T: "T = PNode p ts" by (cases T)
    have d: "doomed (concat (map procs ts) @ [p]) s fr rq B L" using 1(2) T by simp
    have "kids_done p ts s fr rq B L (kill_children n p s)"
      by (rule Suc.IH(2) [OF _ _ d]) (use 1(1,4) T in auto)
    then show ?case using tree_step_orphan [OF d] 1(3) T by simp
  next
    case 2
    show ?case
    proof (cases ts)
      case Nil
      then have "emptyChild (Some p) s = Some True" using emptyChild_spec [OF 2(1)] by simp
      then show ?thesis
        using Nil 2(3) reaped_nil [of s fr rq B L]
        by (simp add: kids_done_def doomed_def same_place_def)
    next
      case (Cons T us)
      have ch: "children (pcbTable s) p (proot T # map proot us)" using 2(1) Cons by simp
      then obtain s1 where s1: "removeChild (Some p) s = Some (Some (proot T), s1)"
        "children (pcbTable s1) p (map proot us)" "tframe p (set (map proot (T # us))) s s1"
        "p_prnt (pcbTable s1 (proot T)) = NULL"
        using removeChild_spec [OF ch] by auto
      have run: "kill_children (Suc n) p s =
          kthen (sysTerminate_n n (Some (proot T)) s1) (\<lambda>_. kill_children n p)"
        using emptyChild_spec [OF ch] s1(1) by simp
      have "0 < length (procs T)" using procs_last [of T] by (metis length_greater_0_conv snoc_eq_iff_butlast)
      moreover have "2 * (length (procs T) + length (concat (map procs us))) + 1 \<le> Suc n"
        using 2(4) Cons by simp
      ultimately have fuel: "2 * length (procs T) \<le> n" "2 * length (concat (map procs us)) + 1 \<le> n"
        using fuel_split by blast+
      show ?thesis
        unfolding run Cons
      proof (rule kids_step [OF _ _ s1(2,3,4)])
        show "\<forall>T' \<in> set (T # us). is_tree (pcbTable s) T'" using 2(2) Cons by simp
        show "doomed (concat (map procs (T # us)) @ [p]) s fr rq B L" using 2(3) Cons by simp
        show "is_tree (pcbTable s1) T \<Longrightarrow> doomed (procs T) s1 fr rq B L \<Longrightarrow>
            tree_done T s1 fr rq B L (sysTerminate_n n (Some (proot T)) s1)"
          by (rule Suc.IH(1) [OF _ _ s1(4) fuel(1)])
      qed (rule Suc.IH(2) [OF _ _ _ fuel(2)])
    qed
  }
qed

section \<open>sysTerminate\<close>

lemma sems_swept:
  assumes "sems s B" and "swept X s B s'"
  shows "sems s' (\<lambda>a. survivors X (B a))"
proof -
  have law: "int (length (survivors X (B a))) \<le> max 0 (- sint (mem s' a))" for a
  proof -
    define k where "k = length (B a) - length (survivors X (B a))"
    have len: "int (length (survivors X (B a))) + int k = int (length (B a))"
      using survivors_length [of X "B a"] by (simp add: k_def)
    have B: "int (length (B a)) \<le> max 0 (- sint (mem s a))" using assms(1) by (simp add: sems_def)
    show ?thesis
    proof (cases "is_devsem a s \<or> k = 0")
      case True
      then have "mem s' a = mem s a" using assms(2) by (auto simp: swept_def k_def)
      then show ?thesis using B len by simp
    next
      case False
      then have "mem s' a = mem s a + of_nat k" using assms(2) by (auto simp: swept_def k_def)
      moreover have "sint (mem s a) + int k \<le> 0" using B len False by linarith
      then have "sint (mem s a + of_nat k) = sint (mem s a) + int k" by (intro sint_add_nat) simp
      ultimately have "sint (mem s' a) = sint (mem s a) + int k" by simp
      moreover have "0 < int k" using False by simp
      ultimately show ?thesis using B len by linarith
    qed
  qed
  have "RAMSTART \<le> a" if "survivors X (B a) \<noteq> []" for a
    using assms(1) that by (cases "B a = []") (simp_all add: sems_def)
  then show ?thesis using law by (simp add: sems_def)
qed

lemma doomed_fuel: "doomed (procs T) s fr rq B L \<Longrightarrow> length (procs T) \<le> MAXPROC"
proof -
  assume d: "doomed (procs T) s fr rq B L"
  then have "card (set (procs T)) \<le> card {..<MAXPROC}"
    by (intro card_mono) (auto simp: doomed_def)
  then show ?thesis using d by (simp add: doomed_def distinct_card)
qed

lemma terminate_orphan:
  assumes tr: "is_tree (pcbTable s) T" and d: "doomed (procs T) s fr rq B L"
    and orphan: "p_prnt (pcbTable s (proot T)) = NULL"
  shows "tree_done T s fr rq B L (sysTerminate (Some (proot T)) s)"
  unfolding sysTerminate_def
  by (rule kill_run(1) [OF tr d orphan]) (use doomed_fuel [OF d] in simp)

lemma terminate_child:
  assumes tr: "is_tree (pcbTable s) T" and d: "doomed (procs T) s fr rq B L"
    and ch: "children (pcbTable s) q xs" "proot T \<in> set xs" "q \<notin> set (procs T)"
      "set xs \<inter> set (procs T) = {proot T}"
  shows "kpost (sysTerminate (Some (proot T)) s)
    (\<lambda>_ s'. length (procs T) < cnt s
       \<and> reaped (insert q (set xs) \<union> set (procs T)) (procs T) s fr rq B L s'
       \<and> children (pcbTable s') q (remove1 (proot T) xs)
       \<and> (\<forall>i. i \<notin> set (procs T) \<longrightarrow> (i \<noteq> q \<longrightarrow> p_child (pcbTable s' i) = p_child (pcbTable s i))
          \<and> (i \<notin> set xs \<longrightarrow> same_place i s s')))
    (\<lambda>e s'. e = HALT \<and> cnt s \<le> length (procs T))"
proof -
  obtain p ts where T: "T = PNode p ts" by (cases T)
  let ?X = "concat (map procs ts)"
  have d': "doomed (?X @ [p]) s fr rq B L" using d T by simp
  have "kids_done p ts s fr rq B L (kill_children (2 * MAXPROC + 1) p s)"
    by (rule kill_run(2) [OF _ _ d']) (use tr T doomed_fuel [OF d] in auto)
  moreover have "kpost (bury p s1) (\<lambda>_ s'. 1 < cnt s1 \<and> reaped (insert q (set xs)) [p] s1 fr1 rq1 B1 L1 s'
      \<and> (children (pcbTable s') q (remove1 p xs)
       \<and> (\<forall>i. i \<notin> set (procs T) \<longrightarrow> (i \<noteq> q \<longrightarrow> p_child (pcbTable s' i) = p_child (pcbTable s i))
          \<and> (i \<notin> set xs \<longrightarrow> same_place i s s')))) (\<lambda>e s'. e = HALT \<and> cnt s1 \<le> 1)"
    if s1: "same_place p s s1" "reaped (insert p (set ?X)) ?X s fr rq B L s1" "doomed [p] s1 fr1 rq1 B1 L1"
    for s1 fr1 rq1 B1 L1
  proof (rule kpost_mono [OF bury_child])
    show "1 < cnt s1 \<and> reaped (insert q (set xs)) [p] s1 fr1 rq1 B1 L1 s'
      \<and> (children (pcbTable s') q (remove1 p xs)
       \<and> (\<forall>i. i \<notin> set (procs T) \<longrightarrow> (i \<noteq> q \<longrightarrow> p_child (pcbTable s' i) = p_child (pcbTable s i))
          \<and> (i \<notin> set xs \<longrightarrow> same_place i s s')))"
      if "1 < cnt s1 \<and> reaped (insert q (set xs)) [p] s1 fr1 rq1 B1 L1 s'
       \<and> children (pcbTable s') q (remove1 p xs) \<and> pruned q (set xs) s1 s'" for s'
      using that reaped_pcb [OF s1(2)] T by (simp add: pruned_def same_place_def)
    show "children (pcbTable s1) q xs"
    proof (rule iffD2 [OF children_cong ch(1)])
      show "p_child (pcbTable s1 q) = p_child (pcbTable s q)"
        using ch(3) T by (intro reaped_pcb(2) [OF s1(2)]) simp
      fix x assume "x \<in> set xs"
      then have "x = p \<or> x \<notin> insert p (set ?X)" using ch(4) T by auto
      then show "p_prnt (pcbTable s1 x) = p_prnt (pcbTable s x)
          \<and> p_sib_left (pcbTable s1 x) = p_sib_left (pcbTable s x)
          \<and> p_sib_right (pcbTable s1 x) = p_sib_right (pcbTable s x)"
        using reaped_pcb [OF s1(2)] s1(1) by (auto simp: same_place_def)
    qed
  qed (use s1(3) ch(2) T in \<open>auto simp: doomed_def\<close>)
  moreover have "sysTerminate (Some p) s = kthen (kill_children (2 * MAXPROC + 1) p s) (\<lambda>_ s. bury p s)"
    using sysTerminate_n.simps(2) [of "2 * MAXPROC + 1" "Some p" s] by (simp add: sysTerminate_def)
  ultimately show ?thesis
    using tree_step [OF d', of "kill_children (2 * MAXPROC + 1) p s" "insert q (set xs)"
        "\<lambda>s'. children (pcbTable s') q (remove1 p xs)
          \<and> (\<forall>i. i \<notin> set (procs T) \<longrightarrow> (i \<noteq> q \<longrightarrow> p_child (pcbTable s' i) = p_child (pcbTable s i))
            \<and> (i \<notin> set xs \<longrightarrow> same_place i s s'))"] T by simp
qed

section \<open>Properties\<close>

text \<open>The example state with process 1 a child of process 0 and process 2 a child of process 1.\<close>

definition family :: kstate where
  "family = (case insertChild (Some 0) (Some 1) example of Some s \<Rightarrow>
     (case insertChild (Some 1) (Some 2) s of Some s \<Rightarrow> s))"

lemma family:
  "kq family [3..<MAXPROC] [1] example_sems {0}" "sems family example_sems" "cnt family = 3"
  "children (pcbTable family) 0 [1]" "is_tree (pcbTable family) (PNode 1 [PNode 2 []])"
  "mem family = (\<lambda>_. 0)(0x20009000 := - 1)" "link family = zero_link"
proof -
  have ch: "children (pcbTable example) i []" if "i \<in> {0, 1, 2}" for i
    using example_kq(9) [OF that] by (simp add: children_Nil)
  obtain s1 where s1: "insertChild (Some 0) (Some 1) example = Some s1" "children (pcbTable s1) 0 [1]"
    "tframe 0 {1} example s1"
    using insertChild_spec [OF ch, of 0 1] by auto
  have ch1: "children (pcbTable s1) i []" if "i \<in> {1, 2}" for i
    using ch [of i] that tframeD(3) [OF s1(3), of i] by (auto simp: children_Nil)
  obtain s2 where s2: "insertChild (Some 1) (Some 2) s1 = Some s2" "children (pcbTable s2) 1 [2]"
    "tframe 1 {2} s1 s2"
    using insertChild_spec [OF ch1, of 1 2] by auto
  have fam: "family = s2" using s1(1) s2(1) by (simp add: family_def)
  show "kq family [3..<MAXPROC] [1] example_sems {0}"
    unfolding fam by (rule kq_tframe [OF kq_tframe [OF example_kq(1) s1(3)] s2(3)])
  note T = tframe_others [OF s1(3)] tframe_others [OF s2(3)]
  show m: "mem family = (\<lambda>_. 0)(0x20009000 := - 1)" using T example_kq(3) fam by simp
  show "sems family example_sems" using example_sems_ok m example_kq(3) by (simp add: sems_def)
  show "cnt family = 3" using T example_kq(4) fam by (simp add: cnt_def)
  show "link family = zero_link" using T example_kq(6) fam by (simp add: others_kept_def)
  show "children (pcbTable family) 0 [1]"
    using children_tframe [OF s2(3), of 0 "[1]"] s1(2) fam by simp
  have "children (pcbTable s2) 2 []"
    using ch1 [of 2] tframeD(3) [OF s2(3), of 2] by (simp add: children_Nil)
  then show "is_tree (pcbTable family) (PNode 1 [PNode 2 []])" using s2(2) fam by simp
qed

text \<open>C3: \<open>sysTerminate\<close> ends a process and all its progeny.  Every process of the tree below it is
  freed, wherever it was: it leaves the ready queue or its semaphore (whose value it gives back,
  unless the semaphore is a device's), the process count drops by the size of the tree, and the
  current process is forgotten if it was one of them; the terminated process is no longer among
  its parent's children.  All other processes stay where they were and the law of the semaphores
  is kept.  The machine halts exactly when no process is left.  The recursion always ends.\<close>

theorem sysTerminate_tree:
  assumes "is_tree (pcbTable s) T" and "kq s fr rq B L" and "sems s B" and "cnt s \<le> MAXPROC"
    and "distinct (procs T)" and "set (procs T) \<subseteq> {..<MAXPROC} - set fr"
    and "children (pcbTable s) q xs" and "proot T \<in> set xs" and "q \<notin> set (procs T)"
    and "set xs \<inter> set (procs T) = {proot T}"
  shows "kpost (sysTerminate (Some (proot T)) s)
    (\<lambda>_ s'. length (procs T) < cnt s \<and> cnt s' + length (procs T) = cnt s
       \<and> (\<exists>fr'. kq s' fr' (survivors (procs T) rq) (\<lambda>a. survivors (procs T) (B a)) (L - set (procs T))
            \<and> set fr' = set (procs T) \<union> set fr)
       \<and> swept (procs T) s B s' \<and> sems s' (\<lambda>a. survivors (procs T) (B a))
       \<and> currentProcess s' = without (procs T) (currentProcess s)
       \<and> children (pcbTable s') q (remove1 (proot T) xs)
       \<and> others_kept (insert q (set xs) \<union> set (procs T)) s s')
    (\<lambda>e s'. e = HALT \<and> cnt s \<le> length (procs T))"
proof -
  have d: "doomed (procs T) s fr rq B L" using assms(2,4,5,6) by (simp add: doomed_def)
  show ?thesis
    by (rule kpost_mono [OF terminate_child [OF assms(1) d assms(7-10)]])
      (auto simp: reaped_def intro: sems_swept [OF assms(3)])
qed

theorem sysTerminate_tree_witness:
  "kpost (sysTerminate (Some 1) family)
    (\<lambda>_ s'. cnt s' = 1 \<and> (\<exists>fr'. kq s' fr' [] (\<lambda>_. []) {0} \<and> set fr' = {1..<MAXPROC})
       \<and> mem s' 0x20009000 = 0 \<and> children (pcbTable s') 0 [])
    (\<lambda>e s'. False)"
proof -
  have B: "(\<lambda>a. survivors [2, 1] (example_sems a)) = (\<lambda>_. [])" by (auto simp: survivors_def)
  have rq: "survivors [2, 1] [1] = []" by (simp add: survivors_def)
  have nodev: "\<not> is_devsem 0x20009000 family"
    by (simp add: is_devsem_def devsem_def family(7) zero_link_def)
  have L: "{0} - {2, 1} = {0 :: nat}" by auto
  have fr: "set [2, 1] \<union> set [3..<MAXPROC] = {1..<MAXPROC}"
    by (simp only: set_upt list.set) auto
  let ?T = "PNode 1 [PNode 2 []]"
  have T: "procs ?T = [2, 1]" "proot ?T = 1" by simp_all
  have sub: "set (procs ?T) \<subseteq> {..<MAXPROC} - set [3..<MAXPROC]" by auto
  have "kpost (sysTerminate (Some (proot ?T)) family)
    (\<lambda>_ s'. cnt s' = 1 \<and> (\<exists>fr'. kq s' fr' [] (\<lambda>_. []) {0} \<and> set fr' = {1..<MAXPROC})
       \<and> mem s' 0x20009000 = 0 \<and> children (pcbTable s') 0 [])
    (\<lambda>e s'. False)"
    by (rule kpost_mono [OF sysTerminate_tree [OF family(5,1,2) _ _ sub family(4)]];
        (unfold T B rq L fr)?; use nodev in \<open>simp add: family(3,6) swept_def survivors_def\<close>)
  then show ?thesis unfolding T .
qed

end
