(* ===== verification/Priorities.thy ===== *)
theory Priorities
  imports Interrupts
begin

text \<open>
  The arithmetic of \<open>phase3/interrupts.c\<close> and of the two places that compute a device semaphore's
  index: the loops that find the highest-priority interrupt and device, and the agreement of
  \<open>sysWaitIO\<close> and \<open>handleDeviceInterrupt\<close> on the semaphore of a device.
\<close>

section \<open>Interrupt lines\<close>

lemma lowest_line_find:
  "lowest_line w i = (case find (bit w) [i..<8] of None \<Rightarrow> - 1 | Some j \<Rightarrow> of_nat j)"
proof (induction w i rule: lowest_line.induct)
  case (1 w i)
  show ?case
  proof (cases "i \<le> 7")
    case True
    then have "[i..<8] = i # [i + 1..<8]" by (simp add: upt_conv_Cons)
    then show ?thesis
      using 1 True by (simp add: lowest_line.simps [of w i] bit_iff_and_push_bit_not_eq_0)
  qed (simp add: lowest_line.simps [of w i])
qed

lemma pending_bit: "bit (drop_bit IPSHIFT (c AND IPMASK)) j \<longleftrightarrow> j < 8 \<and> bit (c :: u32) (8 + j)"
proof -
  have mask: "bit (0xFF00 :: u32) n \<longleftrightarrow> 8 \<le> n \<and> n < 16" for n
  proof -
    have "(0xFF00 :: u32) = push_bit 8 (mask 8)" by (simp add: mask_eq_exp_minus_1 push_bit_eq_mult)
    then show ?thesis by (simp only: bit_push_bit_iff bit_mask_iff) auto
  qed
  show ?thesis by (simp only: bit_drop_bit_eq comp_apply bit_and_iff mask) auto
qed

section \<open>Devices\<close>

lemma lowest_device_run:
  "bit w n \<Longrightarrow> \<forall>j < n. \<not> bit w j \<Longrightarrow> lowest_device w d = Some (d + of_nat n)"
proof (induction n arbitrary: w d)
  case 0
  then have "w AND 1 \<noteq> 0" by (simp add: and_one_eq bit_0 odd_iff_mod_2_eq_one)
  then show ?case by (simp add: lowest_device.simps [of w])
next
  case (Suc n)
  have "\<not> bit w 0" using Suc.prems(2) by simp
  then have "w AND 1 = 0" by (simp add: and_one_eq bit_0 even_iff_mod_2_eq_zero)
  moreover have "lowest_device (drop_bit 1 w) (d + 1) = Some (d + 1 + of_nat n)"
    using Suc.prems by (intro Suc.IH) (auto simp: bit_drop_bit_eq)
  ultimately show ?case by (simp add: lowest_device.simps [of w] ac_simps)
qed

lemma lowest_bit:
  assumes "(w :: u32) \<noteq> 0"
  obtains n where "n < 32" "bit w n" "\<forall>j < n. \<not> bit w j"
proof -
  have "\<exists>n. bit w n" using assms by (metis bit_0_eq bit_eqI bot_apply bot_bool_def)
  then obtain m where "bit w m" by blast
  then have "bit w (LEAST n. bit w n)" "\<forall>j < (LEAST n. bit w n). \<not> bit w j"
    by (auto intro: LeastI dest: not_less_Least)
  moreover have "(LEAST n. bit w n) < 32"
    using bit_imp_le_length [OF calculation(1)] by simp
  ultimately show thesis using that by blast
qed

section \<open>Device semaphores\<close>

text \<open>A device of a line: lines 3 to 6 have eight devices, line 7 eight terminals of two semaphores.\<close>

definition is_device :: "u32 \<Rightarrow> u32 \<Rightarrow> u32 \<Rightarrow> bool" where
  "is_device line dev sub \<longleftrightarrow> 3 \<le> line \<and> line \<le> 7 \<and> dev < 8 \<and> sub < 2"

lemma word_8_cases:
  fixes w :: u32
  assumes "w < 8"
  shows "w \<in> {0, 1, 2, 3, 4, 5, 6, 7}"
proof -
  have "unat w < 8" using assms by (simp add: word_less_nat_alt)
  then have "unat w \<in> {0, 1, 2, 3, 4, 5, 6, 7}" by auto
  then obtain n where n: "n \<in> {0, 1, 2, 3, 4, 5, 6, 7}" "w = of_nat n"
    using that [of "unat w"] by (simp only: word_nat_cases of_nat_unat ucast_id)
  then show ?thesis by auto
qed

lemma is_device_cases:
  assumes "is_device line dev sub"
  shows "line \<in> {3, 4, 5, 6, 7}" "dev \<in> {0, 1, 2, 3, 4, 5, 6, 7}" "sub \<in> {0, 1}"
proof -
  have "line < 8" "sub < 8"
    using assms order.strict_trans1 [of line 7 8] order.strict_trans2 [of sub 2 8]
    by (simp_all add: is_device_def)
  then have "line \<in> {0, 1, 2, 3, 4, 5, 6, 7}" "sub \<in> {0, 1, 2, 3, 4, 5, 6, 7}"
    using word_8_cases by blast+
  then show "line \<in> {3, 4, 5, 6, 7}" "sub \<in> {0, 1}"
    using assms by (auto simp: is_device_def word_le_nat_alt)
  show "dev \<in> {0, 1, 2, 3, 4, 5, 6, 7}" using assms by (intro word_8_cases) (simp add: is_device_def)
qed

lemma waitio_index_unat:
  assumes "is_device line dev sub"
  shows "unat (waitio_index line dev sub) =
    (if line = TERMINT then 32 + 2 * unat dev + unat sub else (unat line - 3) * 8 + unat dev)"
  using is_device_cases [OF assms] by (auto simp: waitio_index_def)

lemma is_device_unat:
  assumes "is_device line dev sub"
  shows "3 \<le> unat line" "unat line \<le> 7" "unat dev < 8" "unat sub < 2"
  using is_device_cases [OF assms] by auto

lemma waitio_index_less:
  assumes "is_device line dev sub"
  shows "waitio_index line dev sub < NUM_DEVICES"
proof -
  have "line \<noteq> TERMINT \<Longrightarrow> unat line \<le> 6" using is_device_cases(1) [OF assms] by auto
  then have "unat (waitio_index line dev sub) < 48"
    using waitio_index_unat [OF assms] is_device_unat [OF assms] by (auto split: if_splits)
  then show ?thesis by (simp add: word_less_nat_alt)
qed

lemma index_split:
  fixes l l' d d' b b' :: nat
  assumes "3 \<le> l" "l \<le> 7" "d < 8" "b < 2" and "3 \<le> l'" "l' \<le> 7" "d' < 8" "b' < 2"
    and "(if l = 7 then 32 + 2 * d + b else (l - 3) * 8 + d)
      = (if l' = 7 then 32 + 2 * d' + b' else (l' - 3) * 8 + d')"
  shows "l = l' \<and> d = d' \<and> (l = 7 \<longrightarrow> b = b')"
proof -
  consider "l = 7" "l' = 7" | "l = 7" "l' \<le> 6" | "l \<le> 6" "l' = 7" | "l \<le> 6" "l' \<le> 6"
    using assms(2,6) by linarith
  then show ?thesis
  proof cases
    case 1
    then have "2 * d + b = 2 * d' + b'" using assms(9) by simp
    then show ?thesis using 1 assms(4,8) by presburger
  next
    case 2
    then have "32 + 2 * d + b = (l' - 3) * 8 + d'" "l' - 3 \<le> 3" using assms(9) by simp_all
    then show ?thesis using assms(7) by linarith
  next
    case 3
    then have "(l - 3) * 8 + d = 32 + 2 * d' + b'" "l - 3 \<le> 3" using assms(9) by simp_all
    then show ?thesis using assms(3) by linarith
  next
    case 4
    then have eq: "(l - 3) * 8 + d = (l' - 3) * 8 + d'" using assms(9) by simp
    then have "((l - 3) * 8 + d) div 8 = ((l' - 3) * 8 + d') div 8" by simp
    then have "l - 3 = l' - 3" using assms(3,7) by simp
    then show ?thesis using eq 4 assms(1,5) by simp
  qed
qed

lemma waitio_index_inj:
  assumes d: "is_device line dev sub" and d': "is_device line' dev' sub'"
    and eq: "waitio_index line dev sub = waitio_index line' dev' sub'"
  shows "line = line' \<and> dev = dev' \<and> (line = TERMINT \<longrightarrow> sub = sub')"
proof -
  have seven: "line = TERMINT \<longleftrightarrow> unat line = 7" "line' = TERMINT \<longleftrightarrow> unat line' = 7"
    using is_device_cases(1) [OF d] is_device_cases(1) [OF d'] by auto
  have "unat line = unat line' \<and> unat dev = unat dev' \<and> (unat line = 7 \<longrightarrow> unat sub = unat sub')"
    by (rule index_split [OF is_device_unat [OF d] is_device_unat [OF d']])
      (use waitio_index_unat [OF d] waitio_index_unat [OF d'] eq seven in simp)
  then show ?thesis using seven by (simp add: word_unat_eq_iff)
qed

lemma device_index_waitio:
  "device_index line dev st = waitio_index line dev (if st AND 0xFF \<noteq> 0 then 1 else 0)"
  by (simp add: device_index_def waitio_index_def)

lemma devsem_inj:
  assumes "i \<le> NUM_DEVICES" and "j \<le> NUM_DEVICES" and "devsem i s = devsem j s"
  shows "i = j"
proof -
  have "unat i \<le> 48" "unat j \<le> 48" using assms(1,2) by (simp_all add: word_le_nat_alt)
  moreover have "4 * i = 4 * j" using assms(3) by (simp add: devsem_def)
  then have "unat (4 * i) = unat (4 * j)" by simp
  ultimately show ?thesis by (simp add: unat_word_ariths word_unat_eq_iff)
qed

section \<open>Properties\<close>

text \<open>Interrupt priority.  \<open>getHighestPriorityInterrupt\<close> returns the lowest of the lines 1 to 7
  whose bit of \<open>Cause.IP\<close> is set, and - 1 when there is none; it never returns the line 0 that
  \<open>interruptHandler\<close> ignores.\<close>

theorem getHighestPriorityInterrupt_lowest:
  "getHighestPriorityInterrupt c =
     (case find (\<lambda>j. bit c (8 + j)) [1..<8] of None \<Rightarrow> - 1 | Some j \<Rightarrow> of_nat j)
   \<and> getHighestPriorityInterrupt c \<noteq> 0"
proof -
  have "find (bit (drop_bit IPSHIFT (c AND IPMASK))) [1..<8] = find (\<lambda>j. bit c (8 + j)) [1..<8]"
    by (rule find_cong [OF refl], subst pending_bit) (simp only: set_upt atLeastLessThan_iff simp_thms)
  then have "getHighestPriorityInterrupt c =
      (case find (\<lambda>j. bit c (8 + j)) [1..<8] of None \<Rightarrow> - 1 | Some j \<Rightarrow> of_nat j)"
    by (simp only: getHighestPriorityInterrupt_def lowest_line_find)
  moreover have "(of_nat j :: u32) \<noteq> 0" if "find (\<lambda>j. bit c (8 + j)) [1..<8] = Some j" for j
  proof -
    obtain i where "i < length [1..<8 :: nat]" "j = [1..<8] ! i"
      using \<open>find _ _ = Some j\<close> unfolding find_Some_iff by blast
    then have "j \<in> set [1..<8]" by (metis nth_mem)
    then have "0 < j" "j < 8" by simp_all
    then show ?thesis by (auto simp: word_of_nat_eq_0_iff dest: dvd_imp_le)
  qed
  ultimately show ?thesis
    by (auto simp del: upt_rec_numeral split: option.split)
qed

text \<open>C39: Device priority.  On a line with a pending device the loop of \<open>getHighestPriorityDevice\<close>
  ends with the number of the lowest set bit of that line's bit map; with an empty bit map it
  returns - 1.\<close>

theorem getHighestPriorityDevice_lowest:
  "if mem s (INTDEVBITMAP_ADDR line) = 0 then getHighestPriorityDevice line s = Some (- 1)
   else \<exists>n < 32. getHighestPriorityDevice line s = Some (of_nat n)
     \<and> bit (mem s (INTDEVBITMAP_ADDR line)) n
     \<and> \<not> (\<exists>j < n. bit (mem s (INTDEVBITMAP_ADDR line)) j)"
proof (cases "mem s (INTDEVBITMAP_ADDR line) = 0")
  case False
  then obtain n where "n < 32" "bit (mem s (INTDEVBITMAP_ADDR line)) n"
    "\<forall>j < n. \<not> bit (mem s (INTDEVBITMAP_ADDR line)) j"
    using lowest_bit by blast
  then show ?thesis
    using False lowest_device_run by (auto simp: getHighestPriorityDevice_def)
qed (simp add: getHighestPriorityDevice_def)

text \<open>The semaphores of the devices.  For every device of the lines 3 to 7 the index computed by
  \<open>sysWaitIO\<close> is inside \<open>deviceSemaphores\<close> and below the pseudo-clock's; different devices, and the
  two halves of a terminal, have different semaphores; and \<open>handleDeviceInterrupt\<close> computes the
  same semaphore for the device that raised the interrupt.\<close>

theorem device_semaphores:
  assumes "is_device line dev sub" and "is_device line' dev' sub'"
  shows "waitio_index line dev sub < NUM_DEVICES
    \<and> devsem (waitio_index line dev sub) s \<noteq> devsem NUM_DEVICES s
    \<and> (devsem (waitio_index line dev sub) s = devsem (waitio_index line' dev' sub') s
        \<longleftrightarrow> line = line' \<and> dev = dev' \<and> (line = TERMINT \<longrightarrow> sub = sub'))
    \<and> device_index line dev st = waitio_index line dev (if st AND 0xFF \<noteq> 0 then 1 else 0)"
proof -
  note less = waitio_index_less [OF assms(1)] waitio_index_less [OF assms(2)]
  note le = order.strict_implies_order [OF less(1)] order.strict_implies_order [OF less(2)]
  have "waitio_index line dev sub \<noteq> NUM_DEVICES" using less(1) by (metis order.irrefl)
  then have "devsem (waitio_index line dev sub) s \<noteq> devsem NUM_DEVICES s"
    using devsem_inj [OF le(1) order.refl, of s] by blast
  moreover have "waitio_index line dev sub = waitio_index line' dev' sub'
      \<longleftrightarrow> line = line' \<and> dev = dev' \<and> (line = TERMINT \<longrightarrow> sub = sub')"
    using waitio_index_inj [OF assms] by (auto simp: waitio_index_def)
  moreover have "devsem (waitio_index line dev sub) s = devsem (waitio_index line' dev' sub') s
      \<longleftrightarrow> waitio_index line dev sub = waitio_index line' dev' sub'"
    using devsem_inj [OF le, of s] by auto
  ultimately show ?thesis
    using less(1) device_index_waitio by blast
qed

theorem device_semaphores_witness:
  "devsem (waitio_index 7 3 0) zero_kernel \<noteq> devsem (waitio_index 7 3 1) zero_kernel
   \<and> waitio_index 7 3 0 < NUM_DEVICES"
  using device_semaphores [of 7 3 0 7 3 1 zero_kernel 0] by (simp add: is_device_def)

end
