(* ===== verification/Handlers.thy ===== *)
theory Handlers
  imports Termination Priorities
begin

text \<open>
  The other system calls of \<open>phase3/exceptions.c\<close> and the interrupt handlers of
  \<open>phase3/interrupts.c\<close>, on the places of the PCBs: where each handler moves which process, and
  where it leaves the kernel to.
\<close>

section \<open>The process tree is left alone\<close>

definition same_tree :: "'z kstate_scheme \<Rightarrow> 'z kstate_scheme \<Rightarrow> bool" where
  "same_tree s s' \<longleftrightarrow> (\<forall>i. p_prnt (pcbTable s' i) = p_prnt (pcbTable s i)
     \<and> p_child (pcbTable s' i) = p_child (pcbTable s i)
     \<and> p_sib_right (pcbTable s' i) = p_sib_right (pcbTable s i)
     \<and> p_sib_left (pcbTable s' i) = p_sib_left (pcbTable s i))"

lemma same_tree_refl [simp]: "same_tree s s"
  by (simp add: same_tree_def)

lemma same_tree_trans: "same_tree s s' \<Longrightarrow> same_tree s' s'' \<Longrightarrow> same_tree s s''"
  by (simp add: same_tree_def)

lemma same_tree_frames: "kframe s s' \<Longrightarrow> same_tree s s'" "kstep s s' \<Longrightarrow> same_tree s s'"
  using kframe_pcb(1-4) [of s s'] kstep_pcb(1-4) [of s s'] by (simp_all add: same_tree_def)

lemma same_tree_table: "pcbTable s' = pcbTable s \<Longrightarrow> same_tree s s'"
  by (simp add: same_tree_def)

lemma same_tree_charged [simp]: "same_tree s (charged c s)"
  by (simp add: same_tree_def charged_def)

section \<open>Creating a process\<close>

lemma load_state_take: "r \<noteq> PcbState n \<Longrightarrow> load_state r (take_pcb n s) = load_state r s"
  by (cases r) (auto simp: load_state_def take_pcb_def)

lemma create_full:
  assumes "kq s [] rq B L"
  shows "sysCreateProcess r sp s = Ret (- 1) s"
  using allocPcb_empty [OF kqD(1) [OF assms]] by (simp add: sysCreateProcess_def)

text \<open>What grafting a new PCB \<open>n\<close> on the node \<open>c\<close> with the children \<open>xs\<close> leaves as it was.\<close>

definition grafted :: "nat \<Rightarrow> nat \<Rightarrow> nat set \<Rightarrow> 'z kstate_scheme \<Rightarrow> 'z kstate_scheme \<Rightarrow> bool" where
  "grafted c n xs s s' \<longleftrightarrow> (\<forall>i. i \<noteq> c \<and> i \<noteq> n \<longrightarrow> p_child (pcbTable s' i) = p_child (pcbTable s i))
     \<and> (\<forall>i. i \<notin> insert n xs \<longrightarrow> same_place i s s')"

lemma create_run:
  assumes k: "kq s (n # fr) rq B L"
    and c: "currentProcess s = Some c" "c \<in> L" and ch: "children (pcbTable s) c xs" "n \<notin> set xs"
  shows "\<exists>s'. sysCreateProcess r sp s = Ret 0 s' \<and> kq s' fr (rq @ [n]) B L
    \<and> p_s (pcbTable s' n) = load_state r (take_pcb n s) \<and> p_supportStruct (pcbTable s' n) = sp
    \<and> p_time (pcbTable s' n) = 0 \<and> children (pcbTable s') c (n # xs) \<and> children (pcbTable s') n []
    \<and> processCount s' = processCount s + 1 \<and> softBlockCount s' = softBlockCount s
    \<and> mem s' = mem s \<and> currentProcess s' = Some c
    \<and> others_kept (insert c (insert n (set xs))) s s' \<and> grafted c n (set xs) s s'"
proof -
  note K = kq_alloc [OF k]
  have cn: "c \<noteq> n" using placedD(6) [OF kqD(4) [OF k]] c(2) by auto
  define s1 where "s1 = take_pcb n s"
  define p where "p = (pcbTable s1 n)\<lparr>p_s := load_state r s1, p_supportStruct := sp, p_time := 0,
    p_semAdd := NULL_addr\<rparr>"
  define s2 where "s2 = s1\<lparr>pcbTable := (pcbTable s1)(n := p)\<rparr>"
  have tab: "pcbTable s1 n = reset_pcb (pcbTable s n)" "\<And>x. x \<noteq> n \<Longrightarrow> pcbTable s2 x = pcbTable s x"
    by (simp_all add: s1_def s2_def take_pcb_def)
  have "kq s2 = kq s1"
    unfolding s2_def by (rule kq_pcb) (simp_all add: p_def tab(1))
  then have k2: "kq s2 fr rq B (insert n L)" using K(2) by (simp add: s1_def)
  have "x \<noteq> n" if "x \<in> set xs" for x using ch(2) that by auto
  then have "children (pcbTable s2) c xs = children (pcbTable s) c xs"
    using tab(2) cn by (intro children_cong) simp_all
  then obtain s3 where s3: "insertChild (Some c) (Some n) s2 = Some s3"
    "children (pcbTable s3) c (n # xs)" "tframe c (insert n (set xs)) s2 s3"
    using insertChild_spec [of s2 c xs n] ch cn by auto
  obtain s4 where s4: "make_ready (Some n) s3 = Ret () s4" "kq s4 fr (rq @ [n]) B (insert n L - {n})"
    "kframe s3 s4"
    using kq_enqueue [OF kq_tframe [OF k2 s3(3)], of n] by blast
  have "insert n L - {n} = L" using placedD(6) [OF kqD(4) [OF k]] by auto
  then have k4: "kq s4 fr (rq @ [n]) B L" using s4(2) by simp
  note f3 = tframe_others [OF s3(3)]
  have cur: "currentProcess s1 = Some c" using c(1) by (simp add: s1_def take_pcb_def)
  have rest: "currentProcess s2 = Some c" "link s2 = link s" "mem s2 = mem s" "states s2 = states s"
    "sups s2 = sups s" "processCount s2 = processCount s" "softBlockCount s2 = softBlockCount s"
    "bios s2 = bios s" "cpu s2 = cpu s" "tod s2 = tod s" "tod_n s2 = tod_n s" "tlb_log s2 = tlb_log s"
    "kstate.more s2 = kstate.more s"
    using c(1) by (simp_all add: s2_def s1_def take_pcb_def)
  let ?s = "s4\<lparr>processCount := processCount s4 + 1\<rparr>"
  have "sysCreateProcess r sp s = Ret 0 ?s"
    using K(1) s3(1) s4(1) cur
    by (simp add: sysCreateProcess_def Let_def s1_def [symmetric] p_def [symmetric] s2_def [symmetric])
  moreover have "kq ?s fr (rq @ [n]) B L" using k4 by simp
  moreover have n3: "p_s (pcbTable s3 n) = load_state r (take_pcb n s)" "p_supportStruct (pcbTable s3 n) = sp"
    "p_time (pcbTable s3 n) = 0"
    using tframe_untree(3,4,7) [OF s3(3), of n]
    by (simp_all add: s2_def p_def s1_def)
  moreover have "children (pcbTable s4) c (n # xs)"
    using s3(2) children_cong [of "pcbTable s4" c "pcbTable s3" "n # xs"] kframe_pcb(1-4) [OF s4(3)] by simp
  moreover have "p_child (pcbTable s3 n) = p_child (pcbTable s2 n)"
    using cn by (intro tframeD(3) [OF s3(3)]) simp
  then have "children (pcbTable s4) n []"
    using kframe_pcb(2) [OF s4(3), of n] tab(1) by (simp add: children_Nil s2_def p_def)
  moreover have "unasl (pcbTable s4 i) = unasl (pcbTable s i)" if "i \<notin> insert c (insert n (set xs))" for i
    using f3(1) s4(3) tab(2) [of i] that by (auto simp: others_kept_def kframe_def)
  then have "others_kept (insert c (insert n (set xs))) s ?s"
    using f3(1) s4(3) rest by (simp add: others_kept_def kframe_def)
  moreover have "grafted c n (set xs) s ?s"
    using tframeD(3-6) [OF s3(3)] tab(2) kframe_pcb(1-4) [OF s4(3)]
    by (simp add: grafted_def same_place_def)
  ultimately show ?thesis
    using rest f3 s4(3) kframe_pcb(5,6,8) [OF s4(3), of n] by (intro exI [of _ ?s]) (simp add: kframe_def)
qed

section \<open>The local timer\<close>

lemma plt_run:
  assumes k: "kq s fr rq B L" and c: "currentProcess s = Some c" "c \<in> L"
  shows "\<exists>s'. handlePLTInterrupt s =
      Exit (LDST (if rq = [] then bios s else p_s (pcbTable s (hd rq)))) s'
    \<and> kq s' fr (tl (rq @ [c])) B (insert (hd (rq @ [c])) (L - {c}))
    \<and> currentProcess s' = Some (hd (rq @ [c])) \<and> timer_reg (cpu s') = 5000
    \<and> p_s (pcbTable s' c) = bios s
    \<and> p_time (pcbTable s' c) = p_time (pcbTable s c) + (now s - p_startTOD (pcbTable s c))
    \<and> mem s' = mem s \<and> processCount s' = processCount s \<and> softBlockCount s' = softBlockCount s
    \<and> link s' = link s \<and> same_tree s s'"
proof -
  define s1 where "s1 = setTIMER 5000 s"
  define s2 where "s2 = s1\<lparr>pcbTable := (pcbTable s1)(c := (pcbTable s1 c)\<lparr>p_s := bios s1\<rparr>)\<rparr>"
  define s3 where "s3 = charged c s2"
  have "kq s2 = kq s1" unfolding s2_def by (rule kq_pcb) simp_all
  then have k3: "kq s3 fr rq B L" using k by (simp add: s3_def s1_def)
  have s3: "currentProcess s3 = Some c" "mem s3 = mem s" "processCount s3 = processCount s"
    "softBlockCount s3 = softBlockCount s" "p_s (pcbTable s3 c) = bios s" "link s3 = link s"
    "\<And>i. i \<noteq> c \<Longrightarrow> p_s (pcbTable s3 i) = p_s (pcbTable s i)"
    using c(1) by (simp_all add: s3_def s2_def s1_def)
  have time: "p_time (pcbTable s3 c) = p_time (pcbTable s c) + (now s - p_startTOD (pcbTable s c))"
    by (simp add: s3_def charged_def s2_def s1_def now_def STCK_def)
  obtain s4 where s4: "make_ready (Some c) s3 = Ret () s4" "kq s4 fr (rq @ [c]) B (L - {c})"
    "kframe s3 s4"
    using kq_enqueue [OF k3 c(2)] by blast
  have "\<exists>p ps. rq @ [c] = p # ps" by (cases rq) auto
  then obtain p ps where q: "rq @ [c] = p # ps" by blast
  obtain s5 where s5: "scheduler s4 = Exit (LDST (p_s (pcbTable s4 p))) s5"
    "kq s5 fr ps B (insert p (L - {c}))" "currentProcess s5 = Some p" "timer_reg (cpu s5) = 5000"
    "kstep s4 s5"
    using scheduler_dispatch [of s4 fr p ps B "L - {c}"] s4(2) q by auto
  have run: "handlePLTInterrupt s = scheduler s4"
    using c(1) s4(1) s3(1) updateCPUTime_run [of s2 c]
    by (simp add: handlePLTInterrupt_def Let_def s1_def [symmetric] s2_def [symmetric] s3_def [symmetric])
       (simp add: s2_def s1_def s3_def)
  have "c \<notin> set rq" using placedD(6) [OF kqD(4) [OF k]] c(2) by blast
  then have "p_s (pcbTable s4 p) = (if rq = [] then bios s else p_s (pcbTable s (hd rq)))"
    using kframe_pcb(5) [OF s4(3), of p] s3(5,7) q by (cases rq) auto
  moreover have "p_s (pcbTable s5 c) = bios s" "p_time (pcbTable s5 c) = p_time (pcbTable s3 c)"
    using kstep_pcb(5,6) [OF s5(5), of c] kframe_pcb(5,6) [OF s4(3), of c] s3(5) by simp_all
  moreover have "same_tree s s3" by (simp add: same_tree_def s3_def s2_def s1_def charged_def)
  then have "same_tree s s5"
    by (rule same_tree_trans [OF same_tree_trans [OF _ same_tree_frames(1) [OF s4(3)]] same_tree_frames(2) [OF s5(5)]])
  ultimately show ?thesis
    using run s5 q s3 time s4(3) by (intro exI [of _ s5]) (simp add: kframe_def kstep_def)
qed

section \<open>The interval timer\<close>

lemma sems_low:
  assumes "sems s B" and "B a = []"
  shows "sems (store_word a v s) B"
  using assms by (auto simp: sems_def)

lemma sems_low_addr: "sems s B \<Longrightarrow> a < RAMSTART \<Longrightarrow> B a = []"
  by (metis sems_def leD)

lemma wake_clock_run:
  assumes "kq s fr rq B L" and "a = devsem NUM_DEVICES s" and "a < MAXINT"
  shows "\<exists>s'. wake_clock s = Some s' \<and> kq s' fr (rq @ B a) (B(a := [])) L \<and> kframe s s'"
  using assms
proof (induction "B a" arbitrary: s rq B)
  case Nil
  then have "headBlocked a s = Some NULL" using headBlocked_spec [OF kqD(3) [OF Nil(2)] Nil(4)] by simp
  then have "wake_clock s = Some s" using Nil(3) by (simp add: wake_clock.simps [of s])
  then show ?case using Nil(1,2) by (intro exI [of _ s]) (simp add: fun_upd_idem)
next
  case (Cons p ps)
  have a: "B a = p # ps" using Cons(2) by simp
  have "headBlocked a s = Some (Some p)"
    using headBlocked_spec [OF kqD(3) [OF Cons(3)] Cons(5)] a by simp
  obtain s1 where s1: "removeBlocked a s = Some (Some p, s1)" "kq s1 fr rq (B(a := ps)) (insert p L)"
    "kframe s s1"
    using kq_wake [OF Cons(3) a] by blast
  obtain s2 where s2: "make_ready (Some p) s1 = Ret () s2"
    "kq s2 fr (rq @ [p]) (B(a := ps)) (insert p L - {p})" "kframe s1 s2"
    using kq_enqueue [OF s1(2), of p] by blast
  have "p \<notin> L" using placedD(6) [OF kqD(4) [OF Cons(3)]] a
    by (metis IntI UNIV_I UN_I UnI2 empty_iff list.set_intros(1))
  then have k2: "kq s2 fr (rq @ [p]) (B(a := ps)) L" using s2(2) by simp
  have fr: "kframe s s2" by (rule kframe_trans [OF s1(3) s2(3)])
  have ins: "insertProcQ (readyQueue s1) (Some p) s1 \<bind> (\<lambda>(tp, s). Some (s\<lparr>readyQueue := tp\<rparr>)) = Some s2"
    using s2(1) by (auto simp: make_ready_def queue_op_def split: option.splits)
  have step: "wake_clock s = wake_clock s2"
    using Cons(4) \<open>headBlocked a s = Some (Some p)\<close> s1(1) ins
    by (auto simp: wake_clock.simps [of s] bind_eq_Some_conv)
  have "a = devsem NUM_DEVICES s2" using Cons(4) fr by (simp add: devsem_def kframe_def)
  then obtain s' where "wake_clock s2 = Some s'" "kq s' fr ((rq @ [p]) @ (B(a := ps)) a) ((B(a := ps))(a := [])) L"
    "kframe s2 s'"
    using Cons(1) [of "B(a := ps)" s2 "rq @ [p]"] k2 Cons(5) by auto
  then show ?case using step a kframe_trans [OF fr] by auto
qed

lemma clock_run:
  assumes k: "kq s fr rq B L" and m: "sems s B" and a: "a = devsem NUM_DEVICES s"
    and ram: "RAMSTART \<le> a" "a < MAXINT"
  shows "\<exists>s'. kq s' fr (rq @ B a) (B(a := [])) L \<and> sems s' (B(a := [])) \<and> mem s' a = 0
    \<and> handleIntervalTimerInterrupt s =
        (if currentProcess s \<noteq> NULL then Exit (LDST (bios s)) s' else scheduler s')
    \<and> kstep (s\<lparr>mem := mem s'\<rparr>) s' \<and> currentProcess s' = currentProcess s"
proof -
  define s1 where "s1 = LDIT CLOCKINTERVAL s"
  have s1: "s1 = store_word INTERVALTMR (CLOCKINTERVAL * mem s TIMESCALEADDR) s"
    by (simp add: s1_def LDIT_def)
  have "B INTERVALTMR = []" by (rule sems_low_addr [OF m]) simp
  then have m1: "sems s1 B" unfolding s1 by (rule sems_low [OF m])
  have k1: "kq s1 fr rq B L" and a1: "a = devsem NUM_DEVICES s1"
    using k a by (simp_all add: s1 devsem_def)
  obtain s2 where s2: "wake_clock s1 = Some s2" "kq s2 fr (rq @ B a) (B(a := [])) L" "kframe s1 s2"
    using wake_clock_run [OF k1 a1 ram(2)] by blast
  define s3 where "s3 = store_word a 0 s2"
  have dev: "devsem NUM_DEVICES s2 = a" using a1 s2(3) by (simp add: devsem_def kframe_def)
  have same: "currentProcess s2 = currentProcess s" "currentProcess s3 = currentProcess s"
    "bios s3 = bios s" "mem s3 = (mem s1)(a := 0)"
    using s2(3) by (simp_all add: s3_def kframe_def s1)
  have "handleIntervalTimerInterrupt s =
      (if currentProcess s \<noteq> NULL then Exit (LDST (bios s)) s3 else scheduler s3)"
    using s2(1) dev same
    by (simp add: handleIntervalTimerInterrupt_def s1_def [symmetric] Let_def s3_def [symmetric])
  moreover have "kq s3 fr (rq @ B a) (B(a := [])) L" using s2(2) by (simp add: s3_def)
  moreover have "sems s3 (B(a := []))" using m1 same(4) by (auto simp: sems_def)
  moreover have "kstep (s\<lparr>mem := mem s3\<rparr>) s3"
    using s2(3) by (simp add: kstep_def kframe_def s3_def s1)
  ultimately show ?thesis using same by (intro exI [of _ s3]) simp
qed

section \<open>Device interrupts\<close>

lemma device_register_low:
  assumes "is_device line dev sub"
  shows "DEV_REG_ADDR line dev + 4 < RAMSTART" "DEV_REG_ADDR line dev + 12 < RAMSTART"
  using is_device_cases(1,2) [OF assms] by (auto simp: DEV_REG_ADDR_def)

lemma ack_store:
  assumes "ack_device line reg s = (Some st, s1)"
  shows "\<exists>a v. a \<in> {reg + 4, reg + 12} \<and> s1 = store_word a v s"
  using assms by (auto simp: ack_device_def split: if_splits)

lemma device_run:
  assumes k: "kq s fr rq B L" and m: "sems s B"
    and d: "getHighestPriorityDevice line s = Some dev" "is_device line dev sub"
    and ack: "ack_device line (DEV_REG_ADDR line dev) s = (Some st, s1)"
    and a: "a = devsem (device_index line dev st) s" "RAMSTART \<le> a" "a < MAXINT"
    and v: "sint (mem s a) < 0" and B: "B a = p # ps"
  shows "\<exists>s'. handleDeviceInterrupt line s =
      (if currentProcess s = NULL then scheduler s' else Exit (LDST (bios s)) s')
    \<and> kq s' fr (rq @ [p]) (B(a := ps)) L \<and> sems s' (B(a := ps))
    \<and> mem s' a = mem s a + 1 \<and> (\<forall>b. RAMSTART \<le> b \<and> b \<noteq> a \<longrightarrow> mem s' b = mem s b)
    \<and> p_s (pcbTable s' p) = set_reg r_v0 st (p_s (pcbTable s p))
    \<and> (\<forall>i. i \<noteq> p \<longrightarrow> p_s (pcbTable s' i) = p_s (pcbTable s i))
    \<and> softBlockCount s' = softBlockCount s - 1 \<and> processCount s' = processCount s
    \<and> currentProcess s' = currentProcess s \<and> link s' = link s \<and> bios s' = bios s \<and> same_tree s s'"
proof -
  obtain b w where s1: "b < RAMSTART" "s1 = store_word b w s"
    using ack_store [OF ack] device_register_low [OF d(2)] by auto
  have ba: "b \<noteq> a" using s1(1) a(2) by auto
  have m1: "sems s1 B" unfolding s1(2) by (rule sems_low [OF m sems_low_addr [OF m s1(1)]])
  define s2 where "s2 = store_word a (mem s a + 1) s1"
  have inc: "sint (mem s a + 1) = sint (mem s a) + 1" using v by (intro sint_inc) simp
  have k2: "kq s2 fr rq B L" using k by (simp add: s2_def s1(2))
  have mem2: "mem s2 = (mem s)(b := w, a := mem s a + 1)" by (simp add: s2_def s1(2))
  obtain s3 where s3: "removeBlocked a s2 = Some (Some p, s3)" "kq s3 fr rq (B(a := ps)) (insert p L)"
    "kframe s2 s3"
    using kq_wake [OF k2 B] by blast
  define s4 where "s4 = s3\<lparr>pcbTable := (pcbTable s3)(p := (pcbTable s3 p)
      \<lparr>p_s := set_reg r_v0 st (p_s (pcbTable s3 p))\<rparr>), softBlockCount := softBlockCount s3 - 1\<rparr>"
  have "kq s4 = kq (s3\<lparr>pcbTable := (pcbTable s3)(p := (pcbTable s3 p)
      \<lparr>p_s := set_reg r_v0 st (p_s (pcbTable s3 p))\<rparr>)\<rparr>)"
    unfolding s4_def by (rule kq_rest)
  also have "\<dots> = kq s3" by (rule kq_pcb) simp_all
  finally have k4: "kq s4 fr rq (B(a := ps)) (insert p L)" using s3(2) by simp
  obtain s5 where s5: "make_ready (Some p) s4 = Ret () s5"
    "kq s5 fr (rq @ [p]) (B(a := ps)) (insert p L - {p})" "kframe s4 s5"
    using kq_enqueue [OF k4, of p] by blast
  have "p \<notin> L" using placedD(6) [OF kqD(4) [OF k]] B
    by (metis IntI UNIV_I UN_I UnI2 empty_iff list.set_intros(1))
  then have k5: "kq s5 fr (rq @ [p]) (B(a := ps)) L" using s5(2) by simp
  have f4: "mem s4 = mem s2" "processCount s4 = processCount s" "currentProcess s4 = currentProcess s"
    "link s4 = link s" "bios s4 = bios s" "softBlockCount s4 = softBlockCount s - 1"
    using s3(3) by (simp_all add: kframe_def s4_def s2_def s1(2))
  have st4: "p_s (pcbTable s4 i) = (if i = p then set_reg r_v0 st (p_s (pcbTable s p)) else p_s (pcbTable s i))" for i
    using kframe_pcb(5) [OF s3(3)] by (simp add: s4_def s2_def s1(2))
  have run: "handleDeviceInterrupt line s =
      (if currentProcess s = NULL then scheduler s5 else Exit (LDST (bios s)) s5)"
  proof -
    have "devsem (device_index line dev st) s1 = a" using a(1) by (simp add: devsem_def s1(2))
    moreover have "mem s1 a = mem s a" using ba by (simp add: s1(2))
    moreover have "sint (mem s a + 1) \<le> 0" using inc v by simp
    moreover have "currentProcess s5 = currentProcess s" "bios s5 = bios s"
      using f4(3,5) s5(3) by (simp_all add: kframe_def)
    ultimately show ?thesis
      using d(1) ack s3(1) s5(1) [unfolded s4_def]
      by (simp add: handleDeviceInterrupt_def Let_def s2_def)
  qed
  have "sems s5 (B(a := ps))"
    unfolding sems_def
  proof (intro conjI allI impI)
    fix c assume "(B(a := ps)) c \<noteq> []"
    then show "RAMSTART \<le> c" using m a(2) by (cases "c = a") (auto simp: sems_def)
  next
    fix c
    have m0: "int (length (B c)) \<le> max 0 (- sint (mem s c))" using m by (simp add: sems_def)
    have m1: "int (length (B c)) \<le> max 0 (- sint (mem s1 c))" using m1 by (simp add: sems_def)
    show "int (length ((B(a := ps)) c)) \<le> max 0 (- sint (mem s5 c))"
    proof (cases "c = a")
      case True
      then show ?thesis using m0 inc v B s5(3) f4(1) mem2 by (simp add: kframe_def)
    next
      case False
      then show ?thesis using m1 s5(3) f4(1) by (simp add: kframe_def s2_def)
    qed
  qed
  moreover have "mem s5 a = mem s a + 1" "\<forall>c. RAMSTART \<le> c \<and> c \<noteq> a \<longrightarrow> mem s5 c = mem s c"
    using s5(3) f4(1) mem2 s1(1) by (auto simp: kframe_def)
  moreover have "same_tree s s3"
    by (rule same_tree_trans [OF same_tree_table same_tree_frames(1) [OF s3(3)]]) (simp add: s2_def s1(2))
  then have "same_tree s s5"
    by (rule same_tree_trans [OF same_tree_trans [OF _ _] same_tree_frames(1) [OF s5(3)]])
       (simp add: same_tree_def s4_def)
  ultimately show ?thesis
    using run k5 f4 st4 kframe_pcb(5) [OF s5(3)] s5(3) by (intro exI [of _ s5]) (simp add: kframe_def)
qed

section \<open>Waiting for a device or the clock\<close>

text \<open>The semaphore is not positive, so the caller blocks.\<close>

lemma wait_run:
  assumes k: "kq s fr rq B L" and m: "sems s B" and c: "currentProcess s = Some c" "c \<in> L"
    and a: "RAMSTART \<le> a" "a < MAXINT" and v: "mem s a = 0"
  shows "\<exists>s'. sysPasseren a s = Exit (next_exit s rq) s' \<and> B a = []
    \<and> kq s' fr (tl rq) (B(a := [c])) (set_option (first_of rq) \<union> (L - {c})) \<and> sems s' (B(a := [c]))
    \<and> mem s' a = - 1 \<and> (\<forall>b. b \<noteq> a \<longrightarrow> mem s' b = mem s b) \<and> p_s (pcbTable s' c) = bios s
    \<and> currentProcess s' = first_of rq \<and> link s' = link s
    \<and> processCount s' = processCount s \<and> softBlockCount s' = softBlockCount s"
proof -
  have "int (length (B a)) \<le> max 0 (- sint (mem s a))" using m by (simp add: sems_def)
  then have Ba: "B a = []" using v by simp
  then have P: "sem_P c (sem_at s B a) = ((- 1, [c]), True)"
    using v by (simp add: sem_P_def sem_at_def)
  have v': "int_min < sint (mem s a)" using v by simp
  obtain s' where s': "sem_step a (- 1, [c]) s B s' (B(a := [c]))" "processCount s' = processCount s"
    "softBlockCount s' = softBlockCount s" "link s' = link s" "sysPasseren a s = Exit (next_exit s rq) s'"
    "kq s' fr (tl rq) (B(a := [c])) (set_option (first_of rq) \<union> (L - {c}))"
    "currentProcess s' = first_of rq" "p_s (pcbTable s' c) = bios s"
    using passeren_step [OF k m c a v' P] by auto
  have "sint (mem s' a) = - 1" using s'(1) by (simp add: sem_step_def sem_at_def)
  then have "mem s' a = - 1" by (intro signed_word_eqI) simp
  then show ?thesis using s' Ba by (auto simp: sem_step_def)
qed

text \<open>What the hardware may change between two handlers: the memory below RAM and the saved state.\<close>

definition hardware :: "(u32 \<Rightarrow> u32) \<Rightarrow> state_t \<Rightarrow> 'z kstate_scheme \<Rightarrow> 'z kstate_scheme" where
  "hardware m b s = s\<lparr>mem := (\<lambda>a. if RAMSTART \<le> a then mem s a else m a), bios := b\<rparr>"

lemma hardware_simps [simp]:
  "kq (hardware m b s) = kq s" "link (hardware m b s) = link s" "bios (hardware m b s) = b"
  "pcbTable (hardware m b s) = pcbTable s" "currentProcess (hardware m b s) = currentProcess s"
  "softBlockCount (hardware m b s) = softBlockCount s" "processCount (hardware m b s) = processCount s"
  "RAMSTART \<le> a \<Longrightarrow> mem (hardware m b s) a = mem s a" "a < RAMSTART \<Longrightarrow> mem (hardware m b s) a = m a"
  by (simp_all add: hardware_def not_le [symmetric])

lemma sems_hardware [simp]:
  assumes "sems s B"
  shows "sems (hardware m b s) B"
proof -
  have "int (length (B a)) \<le> max 0 (- sint (mem (hardware m b s) a))" for a
  proof (cases "RAMSTART \<le> a")
    case True
    then show ?thesis using assms by (simp add: sems_def)
  next
    case False
    then have "B a = []" using assms by (metis sems_def)
    then show ?thesis by simp
  qed
  then show ?thesis using assms by (simp add: sems_def)
qed

lemma waitio_run:
  assumes k: "kq s fr rq B L" and m: "sems s B" and c: "currentProcess s = Some c" "c \<in> L"
    and a: "a = devsem (waitio_index line dev sub) s" "RAMSTART \<le> a" "a < MAXINT" and v: "mem s a = 0"
  shows "\<exists>s'. sysWaitIO line dev sub s =
      Exit (next_exit (s\<lparr>softBlockCount := softBlockCount s + 1\<rparr>) rq) s' \<and> B a = []
    \<and> kq s' fr (tl rq) (B(a := [c])) (set_option (first_of rq) \<union> (L - {c})) \<and> sems s' (B(a := [c]))
    \<and> mem s' a = - 1 \<and> (\<forall>b. b \<noteq> a \<longrightarrow> mem s' b = mem s b) \<and> p_s (pcbTable s' c) = bios s
    \<and> currentProcess s' = first_of rq \<and> link s' = link s
    \<and> processCount s' = processCount s \<and> softBlockCount s' = softBlockCount s + 1"
proof -
  let ?s = "s\<lparr>softBlockCount := softBlockCount s + 1\<rparr>"
  have "sems ?s B" using m by (simp add: sems_def)
  moreover have "kq ?s fr rq B L" using k by simp
  ultimately obtain s' where "sysPasseren a ?s = Exit (next_exit ?s rq) s'" "B a = []"
    "kq s' fr (tl rq) (B(a := [c])) (set_option (first_of rq) \<union> (L - {c}))" "sems s' (B(a := [c]))"
    "mem s' a = - 1" "\<forall>b. b \<noteq> a \<longrightarrow> mem s' b = mem s b" "p_s (pcbTable s' c) = bios s"
    "currentProcess s' = first_of rq" "link s' = link s" "processCount s' = processCount s"
    "softBlockCount s' = softBlockCount s + 1"
    using wait_run [of ?s fr rq B L c a] c a(2,3) v by auto
  then show ?thesis using a(1) by (simp add: sysWaitIO_def Let_def)
qed

lemma waitclock_run:
  assumes k: "kq s fr rq B L" and m: "sems s B" and c: "currentProcess s = Some c" "c \<in> L"
    and a: "a = devsem NUM_DEVICES s" "RAMSTART \<le> a" "a < MAXINT" and v: "mem s a = 0"
  shows "\<exists>s'. sysWaitClock s =
      Exit (next_exit (s\<lparr>softBlockCount := softBlockCount s + 1\<rparr>) rq) s' \<and> B a = []
    \<and> kq s' fr (tl rq) (B(a := [c])) (set_option (first_of rq) \<union> (L - {c})) \<and> sems s' (B(a := [c]))
    \<and> p_s (pcbTable s' c) = bios s \<and> currentProcess s' = first_of rq \<and> link s' = link s
    \<and> softBlockCount s' = softBlockCount s + 1"
proof -
  let ?s = "(charged c s)\<lparr>softBlockCount := softBlockCount s + 1\<rparr>"
  have "sems ?s B" using m by (simp add: sems_def)
  moreover have "kq ?s fr rq B L" using k by simp
  moreover have "next_exit ?s rq = next_exit (s\<lparr>softBlockCount := softBlockCount s + 1\<rparr>) rq"
    by (rule next_exit_cong) simp_all
  moreover have "sysWaitClock s = sysPasseren a ?s"
    using a(1) updateCPUTime_run [OF c(1)] by (simp add: sysWaitClock_def Let_def devsem_def)
  ultimately show ?thesis
    using wait_run [of ?s fr rq B L c a] c a(2,3) v by auto
qed

end
