(* ===== verification/NucleusSpec.thy ===== *)
theory NucleusSpec
  imports Handlers
begin

text \<open>
  What the handlers of the nucleus do together: a process is created, loses the processor at the end
  of its time slice, and waits for a device or the clock until the interrupt wakes it.
\<close>

lemma device_index_same:
  assumes "ack_device line (DEV_REG_ADDR line dev) s = (Some st, s')" and "line = TERMINT \<longrightarrow> sub = 1"
  shows "device_index line dev st = waitio_index line dev sub"
proof (cases "line = TERMINT")
  case True
  then have "st AND 0xFF \<noteq> 0" using assms(1) by (auto simp: ack_device_def split: if_splits)
  then show ?thesis using True assms(2) by (simp add: device_index_def waitio_index_def)
qed (simp add: device_index_def waitio_index_def)

text \<open>C30: Creating a process.  Unless the table of 20 is full, in which case \<open>sysCreateProcess\<close> returns
  - 1 and changes nothing, the new process takes the first free PCB, starts with the given state, the
  given support structure and no processor time, is a child of the caller and has none itself, is
  last in the ready queue, and is counted; every other process stays where it is.\<close>

theorem sysCreateProcess_child:
  assumes k: "kq s fr rq B L" and r: "\<forall>n \<in> set fr. r \<noteq> PcbState n"
    and c: "currentProcess s = Some c" "c \<in> L"
    and ch: "children (pcbTable s) c xs" "set xs \<inter> set fr = {}"
  shows "case fr of
      [] \<Rightarrow> sysCreateProcess r sp s = Ret (- 1) s
    | n # fr' \<Rightarrow> \<exists>s'. sysCreateProcess r sp s = Ret 0 s' \<and> kq s' fr' (rq @ [n]) B L
      \<and> p_s (pcbTable s' n) = load_state r s \<and> p_supportStruct (pcbTable s' n) = sp
      \<and> p_time (pcbTable s' n) = 0
      \<and> children (pcbTable s') c (n # xs) \<and> children (pcbTable s') n []
      \<and> processCount s' = processCount s + 1
      \<and> others_kept (insert c (insert n (set xs))) s s'"
proof (cases fr)
  case Nil
  then show ?thesis using create_full k by simp
next
  case (Cons n fr')
  then have "r \<noteq> PcbState n" "n \<notin> set xs" using r ch(2) by auto
  then show ?thesis
    using create_run [of s n fr' rq B L c xs r sp] load_state_take [of r n s] k c ch(1) Cons by auto
qed

theorem sysCreateProcess_child_witness:
  "\<exists>s'. sysCreateProcess BiosPage NULL example = Ret 0 s' \<and> kq s' [4..<MAXPROC] [1, 3] example_sems {0}
    \<and> children (pcbTable s') 0 [3]"
proof -
  have "[3..<MAXPROC] = 3 # [4..<MAXPROC]" by (simp add: upt_rec [of 3])
  moreover have "children (pcbTable example) 0 []" by (simp add: children_Nil example_kq(9))
  ultimately show ?thesis
    using sysCreateProcess_child [OF example_kq(1) _ example_kq(2), of BiosPage "[]" NULL] by auto
qed

text \<open>C31: Time sharing.  When the local timer runs out, the running process, with its state and the time
  it used saved, goes to the end of the ready queue and the process that was at the head (itself,
  when no other is ready) gets a new time slice: each of \<open>n\<close> ready processes runs again after \<open>n\<close>
  slices.\<close>

theorem time_slice:
  assumes "kq s fr rq B L" and "currentProcess s = Some c" and "c \<in> L" and "rq @ [c] = p # ps"
  shows "\<exists>s'. handlePLTInterrupt s = Exit (LDST (if p = c then bios s else p_s (pcbTable s p))) s'
    \<and> kq s' fr ps B (insert p (L - {c})) \<and> currentProcess s' = Some p
    \<and> p_s (pcbTable s' c) = bios s \<and> timer_reg (cpu s') = 5000
    \<and> p_time (pcbTable s' c) = p_time (pcbTable s c) + (now s - p_startTOD (pcbTable s c))
    \<and> mem s' = mem s \<and> processCount s' = processCount s \<and> softBlockCount s' = softBlockCount s"
proof -
  have "c \<notin> set rq" using placedD(6) [OF kqD(4) [OF assms(1)]] assms(3) by blast
  then have "rq = [] \<longleftrightarrow> p = c" "p = hd (rq @ [c])" "rq \<noteq> [] \<Longrightarrow> p = hd rq" "ps = tl (rq @ [c])"
    using assms(4) by (cases rq; auto)+
  moreover obtain s' where "handlePLTInterrupt s =
      Exit (LDST (if rq = [] then bios s else p_s (pcbTable s (hd rq)))) s'"
    "kq s' fr (tl (rq @ [c])) B (insert (hd (rq @ [c])) (L - {c}))"
    "currentProcess s' = Some (hd (rq @ [c]))" "timer_reg (cpu s') = 5000" "p_s (pcbTable s' c) = bios s"
    "p_time (pcbTable s' c) = p_time (pcbTable s c) + (now s - p_startTOD (pcbTable s c))"
    "mem s' = mem s" "processCount s' = processCount s" "softBlockCount s' = softBlockCount s"
    using plt_run [OF assms(1-3)] by blast
  ultimately show ?thesis by (intro exI [of _ s']) (cases "rq = []"; simp)
qed

theorem time_slice_witness:
  "\<exists>s'. handlePLTInterrupt example = Exit (LDST (p_s (pcbTable example 1))) s'
    \<and> kq s' [3..<MAXPROC] [0] example_sems {1} \<and> currentProcess s' = Some 1"
  using time_slice [OF example_kq(1,2), of 1 "[0]"] by auto


text \<open>C32: Waiting for the clock.  A process that makes system call 7 is blocked on the pseudo-clock's
  semaphore; at the next interval timer interrupt it becomes ready and the semaphore is 0 again, but
  the count of blocked processes stays one higher than before the call: the handler never takes back
  what \<open>sysWaitClock\<close> added.\<close>

theorem clock_roundtrip:
  assumes k: "kq s fr rq B L" and m: "sems s B" and c: "currentProcess s = Some c" "c \<in> L"
    and a: "a = devsem NUM_DEVICES s" "RAMSTART \<le> a" "a < MAXINT" and v: "mem s a = 0"
  shows "\<exists>s1. sysWaitClock s = Exit (next_exit (s\<lparr>softBlockCount := softBlockCount s + 1\<rparr>) rq) s1
    \<and> kq s1 fr (tl rq) (B(a := [c])) (set_option (first_of rq) \<union> (L - {c}))
    \<and> (\<forall>reg b. \<exists>s2. handleIntervalTimerInterrupt (hardware reg b s1) =
            (if rq = [] then scheduler s2 else Exit (LDST b) s2)
          \<and> kq s2 fr (tl rq @ [c]) B (set_option (first_of rq) \<union> (L - {c})) \<and> sems s2 B
          \<and> p_s (pcbTable s2 c) = bios s \<and> mem s2 a = 0
          \<and> softBlockCount s2 = softBlockCount s + 1)"
proof -
  obtain s1 where s1: "sysWaitClock s = Exit (next_exit (s\<lparr>softBlockCount := softBlockCount s + 1\<rparr>) rq) s1"
    "B a = []" "kq s1 fr (tl rq) (B(a := [c])) (set_option (first_of rq) \<union> (L - {c}))"
    "sems s1 (B(a := [c]))" "p_s (pcbTable s1 c) = bios s" "currentProcess s1 = first_of rq"
    "link s1 = link s" "softBlockCount s1 = softBlockCount s + 1"
    using waitclock_run [OF k m c a v] by blast
  have "\<exists>s2. handleIntervalTimerInterrupt (hardware reg b s1) =
            (if rq = [] then scheduler s2 else Exit (LDST b) s2)
          \<and> kq s2 fr (tl rq @ [c]) B (set_option (first_of rq) \<union> (L - {c})) \<and> sems s2 B
          \<and> p_s (pcbTable s2 c) = bios s \<and> mem s2 a = 0
          \<and> softBlockCount s2 = softBlockCount s + 1" for reg b
  proof -
    let ?u = "hardware reg b s1"
    have "a = devsem NUM_DEVICES ?u" using a(1) s1(7) by (simp add: devsem_def)
    moreover have "kq ?u fr (tl rq) (B(a := [c])) (set_option (first_of rq) \<union> (L - {c}))"
      "sems ?u (B(a := [c]))" using s1(3,4) by simp_all
    ultimately obtain s2 where s2: "kq s2 fr (tl rq @ [c]) B (set_option (first_of rq) \<union> (L - {c}))"
      "sems s2 B" "mem s2 a = 0" "handleIntervalTimerInterrupt ?u =
        (if currentProcess ?u \<noteq> NULL then Exit (LDST (bios ?u)) s2 else scheduler s2)"
      "kstep (?u\<lparr>mem := mem s2\<rparr>) s2"
      using clock_run [of ?u fr "tl rq" "B(a := [c])" _ a] a(2,3) fun_upd_idem [of B a "[]"] s1(2) by auto
    moreover have "first_of rq = NULL \<longleftrightarrow> rq = []" by (cases rq) simp_all
    ultimately show ?thesis
      using s1(5,6,8) kstep_pcb(5) [OF s2(5), of c] kstepD(6) [OF s2(5)]
      by (intro exI [of _ s2]) (simp add: kstep_def)
  qed
  then show ?thesis using s1(1,3) by blast
qed


theorem clock_roundtrip_witness:
  "\<exists>s1 s2. sysWaitClock example = Exit (LDST (p_s (pcbTable example 1))) s1
    \<and> handleIntervalTimerInterrupt (hardware (\<lambda>_. 1) zero_state s1) = Exit (LDST zero_state) s2
    \<and> kq s2 [3..<MAXPROC] [0] example_sems {1} \<and> softBlockCount s2 = 1"
proof -
  have a: "(0x200080C0 :: u32) = devsem NUM_DEVICES example"
    by (simp add: devsem_def example_kq(6) zero_link_def)
  show ?thesis
    using clock_roundtrip [OF example_kq(1) example_sems_ok example_kq(2) _ a]
    by (simp add: example_kq next_exit_def) metis
qed

end
