(* ===== verification/BootSpec.thy ===== *)
theory BootSpec
  imports NucleusSpec DelaySpec VmSpec
begin

text \<open>
  What \<open>main\<close> establishes before the first process runs: the invariants of every component, and the
  states of the first process, the delay daemon and the user processes.
\<close>

section \<open>Frames\<close>

lemma sstate_more:
  fixes s s' :: sstate
  assumes "kstate.more s' = kstate.more s"
  shows "swapPool s' = swapPool s" "swapIndex s' = swapIndex s" "delaydTable s' = delaydTable s"
    "delayd_h s' = delayd_h s" "delaydFree_h s' = delaydFree_h s"
    "asidProcessTable s' = asidProcessTable s" "supportFreeList s' = supportFreeList s"
  using assms by (cases s; cases s'; simp)+

lemma kq_support [simp]:
  fixes s :: sstate
  shows "kq (s\<lparr>swapPool := a\<rparr>) = kq s" "kq (s\<lparr>delaydTable := b\<rparr>) = kq s" "kq (s\<lparr>delayd_h := c\<rparr>) = kq s"
    "kq (s\<lparr>delaydFree_h := c\<rparr>) = kq s" "kq (s\<lparr>asidProcessTable := d\<rparr>) = kq s"
    "kq (s\<lparr>supportFreeList := c\<rparr>) = kq s"
  by (intro ext iffI; erule kq_cong; simp)+

lemma support_pool_cong:
  assumes "supportFreeList s' = supportFreeList s" "\<And>k. k \<in> set xs \<Longrightarrow> sup_next (sups s' k) = sup_next (sups s k)"
  shows "support_pool s' xs = support_pool s xs"
proof -
  have "slist (\<lambda>k. sup_next (sups s' k)) p ys = slist (\<lambda>k. sup_next (sups s k)) p ys"
    if "set ys \<subseteq> set xs" for p ys
    using that assms(2) by (induction ys arbitrary: p) auto
  then show ?thesis by (simp add: support_pool_def assms(1))
qed

section \<open>A user process\<close>

definition filled :: "u32 \<Rightarrow> nat list \<Rightarrow> (nat \<Rightarrow> pageTableEntry_t) \<Rightarrow> nat \<Rightarrow> pageTableEntry_t" where
  "filled asid xs t j = (if j \<in> set xs then init_entry asid j else t j)"

lemma initPageTable_eq:
  "initPageTable k s = s\<lparr>sups := (sups s)(k := (sups s k)\<lparr>sup_pageTable :=
     filled (sup_asid (sups s k)) [0..<PAGE_TABLE_SIZE] (sup_pageTable (sups s k))\<rparr>)\<rparr>"
proof -
  let ?step = "\<lambda>asid (s :: sstate) i. s\<lparr>sups := (sups s)(k := (sups s k)
           \<lparr>sup_pageTable := (sup_pageTable (sups s k))(i := init_entry asid i)\<rparr>)\<rparr>"
  have g: "filled asid [] t = t" "filled asid xs (t(x := init_entry asid x)) = filled asid (x # xs) t" for asid xs t x
    by (auto simp: filled_def fun_eq_iff)
  have "foldl (?step asid) s xs = s\<lparr>sups := (sups s)(k := (sups s k)
      \<lparr>sup_pageTable := filled asid xs (sup_pageTable (sups s k))\<rparr>)\<rparr>" for asid s xs
    by (induction xs arbitrary: s) (simp_all add: g fun_upd_same del: fun_upd_apply)
  then show ?thesis by (simp add: initPageTable_def Let_def del: upt.simps upt_rec_numeral)
qed

text \<open>A process without parent and children.\<close>

definition lone :: "pcb_t \<Rightarrow> bool" where
  "lone p \<longleftrightarrow> p_prnt p = NULL \<and> p_child p = NULL"

text \<open>Process \<open>i\<close> of the users, with PCB \<open>n\<close> and support structure \<open>k\<close>, is ready to be started.\<close>

definition uproc_ready :: "sstate \<Rightarrow> nat \<Rightarrow> nat \<Rightarrow> nat \<Rightarrow> bool" where
  "uproc_ready s i n k \<longleftrightarrow>
     asidProcessTable s i = Some n \<and> p_supportStruct (pcbTable s n) = Some k
   \<and> lone (pcbTable s n) \<and> sup_asid (sups s k) = of_nat i
   \<and> (\<forall>j<PAGE_TABLE_SIZE. sup_pageTable (sups s k) j = init_entry (of_nat i) j)
   \<and> c_pc (sup_exceptContext (sups s k) PGFAULTEXCEPT) = pagerHandler_addr (link s)
   \<and> c_pc (sup_exceptContext (sups s k) GENERALEXCEPT) = supportGenExceptionHandler_addr (link s)
   \<and> (let st = p_s (pcbTable s n) in s_pc st = UPROC_START \<and> s_reg st r_t9 = UPROC_START
       \<and> s_reg st r_sp = UPROC_STACK \<and> s_entryHI st = push_bit ASID_SHIFT (of_nat i)
       \<and> s_status st = IEPBITON OR IM OR TEBITON OR KUPBITON)"

text \<open>What the start of user processes changes: the PCBs \<open>N\<close>, the support structures \<open>K\<close> with
  their private semaphores, and the entries \<open>I\<close> of \<open>asidProcessTable\<close>.\<close>

definition uproc_frame :: "nat set \<Rightarrow> nat set \<Rightarrow> nat set \<Rightarrow> sstate \<Rightarrow> sstate \<Rightarrow> bool" where
  "uproc_frame N K I s s' \<longleftrightarrow> link s' = link s
     \<and> (\<forall>m. m \<notin> N \<longrightarrow> pcbTable s' m = pcbTable s m) \<and> (\<forall>m. m \<notin> K \<longrightarrow> sups s' m = sups s m)
     \<and> (\<forall>j. j \<notin> I \<longrightarrow> asidProcessTable s' j = asidProcessTable s j)
     \<and> mem s' = (\<lambda>a. if a \<in> sup_privateSem (link s) ` K then 0 else mem s a)
     \<and> processCount s' = processCount s \<and> softBlockCount s' = softBlockCount s
     \<and> delaydTable s' = delaydTable s \<and> delayd_h s' = delayd_h s \<and> delaydFree_h s' = delaydFree_h s
     \<and> swapPool s' = swapPool s \<and> swapIndex s' = swapIndex s"

lemma uproc_frame_trans:
  assumes "uproc_frame N K I s s'" and "uproc_frame N' K' I' s' s''"
  shows "uproc_frame (N \<union> N') (K \<union> K') (I \<union> I') s s''"
  using assms by (auto simp: uproc_frame_def fun_eq_iff)

lemma uproc_ready_frame:
  assumes "uproc_ready s i n k" and "uproc_frame N K I s s'" and "n \<notin> N" "k \<notin> K" "i \<notin> I"
  shows "uproc_ready s' i n k"
  using assms by (simp add: uproc_ready_def uproc_frame_def)

lemma initUProc_run:
  assumes k: "kq s (n # fr) rq B L" and p: "support_pool s (k # ks)"
  shows "\<exists>s'. initUProc i s = Ret () s' \<and> kq s' fr rq B (insert n L) \<and> support_pool s' ks
    \<and> uproc_ready s' i n k \<and> uproc_frame {n} {k} {i} s s'"
proof -
  note A = kq_alloc [OF k]
  have free: "supportFreeList s = Some k" "k \<notin> set ks" using p by (simp_all add: support_pool_def)
  define st where "st = uproc_state (of_nat i) (p_s (reset_pcb (pcbTable s n)))"
  define sup where "sup = (sups s k)\<lparr>sup_asid := of_nat i,
    sup_pageTable := filled (of_nat i) [0..<PAGE_TABLE_SIZE] (sup_pageTable (sups s k)),
    sup_exceptContext := (sup_exceptContext (sups s k))
      (PGFAULTEXCEPT := handler_context (stack_below (2 * of_nat i - 1) (store_word (sup_privateSem (link s) k) 0 s))
         (pagerHandler_addr (link s)),
       GENERALEXCEPT := handler_context (stack_below (2 * of_nat i) (store_word (sup_privateSem (link s) k) 0 s))
         (supportGenExceptionHandler_addr (link s)))\<rparr>"
  define s' where "s' = (take_pcb n s)\<lparr>mem := (mem s)(sup_privateSem (link s) k := 0),
    sups := (sups s)(k := sup), supportFreeList := sup_next (sups s k),
    asidProcessTable := (asidProcessTable s)(i := Some n),
    pcbTable := (pcbTable s)(n := (reset_pcb (pcbTable s n))\<lparr>p_supportStruct := Some k, p_s := st\<rparr>)\<rparr>"
  have run: "initUProc i s = Ret () s'"
    using A(1) free(1)
    by (simp add: initUProc_def allocSupportStruct_def initPageTable_eq init_contexts_def Let_def
        store_word_def stack_below_def RAMTOP_def s'_def st_def sup_def take_pcb_def fun_upd_same
        del: fun_upd_apply upt.simps upt_rec_numeral)
  let ?t = "(take_pcb n s)\<lparr>mem := (mem s)(sup_privateSem (link s) k := 0), sups := (sups s)(k := sup),
    supportFreeList := sup_next (sups s k), asidProcessTable := (asidProcessTable s)(i := Some n)\<rparr>"
  have "s' = ?t\<lparr>pcbTable := (pcbTable ?t)(n := (pcbTable ?t n)\<lparr>p_supportStruct := Some k, p_s := st\<rparr>)\<rparr>"
    by (simp add: s'_def take_pcb_def)
  moreover have "kq (?t\<lparr>pcbTable := (pcbTable ?t)(n := (pcbTable ?t n)\<lparr>p_supportStruct := Some k, p_s := st\<rparr>)\<rparr>) = kq ?t"
    by (rule kq_pcb) simp_all
  ultimately have "kq s' fr rq B (insert n L)" using A(2) by simp
  moreover have "support_pool s' ks"
  proof -
    have "support_pool (s\<lparr>supportFreeList := sup_next (sups s k)\<rparr>) ks"
      using p by (simp add: support_pool_def)
    moreover have "sup_next (sups s' j) = sup_next (sups s j)" for j
      by (simp add: s'_def sup_def)
    ultimately show ?thesis
      using support_pool_cong [of s' "s\<lparr>supportFreeList := sup_next (sups s k)\<rparr>" ks] by (simp add: s'_def)
  qed
  moreover have "uproc_ready s' i n k"
    by (simp add: uproc_ready_def lone_def s'_def sup_def st_def handler_context_def uproc_state_def Let_def take_pcb_def
        reset_pcb_def filled_def del: upt.simps upt_rec_numeral)
  ultimately show ?thesis using run by (intro exI [of _ s']) (simp add: uproc_frame_def s'_def take_pcb_def fun_eq_iff)
qed

lemma init_uprocs_run:
  assumes "kq s (ns @ fr) rq B L" and "support_pool s (ks @ ks')" and "distinct is"
    and "length is = length ns" and "length ks = length ns"
  shows "\<exists>s'. init_uprocs is s = Ret () s' \<and> kq s' fr rq B (set ns \<union> L) \<and> support_pool s' ks'
    \<and> (\<forall>j<length ns. uproc_ready s' (is ! j) (ns ! j) (ks ! j))
    \<and> uproc_frame (set ns) (set ks) (set is) s s'"
  using assms
proof (induction "is" arbitrary: ns ks s L)
  case Nil
  then show ?case by (intro exI [of _ s]) (simp add: uproc_frame_def)
next
  case (Cons i "is")
  obtain n ns' k ks1 where n: "ns = n # ns'" "ks = k # ks1" "length is = length ns'" "length ks1 = length ns'"
    using Cons.prems(4,5) by (cases ns; cases ks) auto
  have "distinct ((n # ns') @ fr)" "distinct ((k # ks1) @ ks')"
    using placedD(1) [OF kqD(4) [OF Cons.prems(1)]] Cons.prems(2) n(1,2) by (simp_all add: support_pool_def)
  then have new: "n \<notin> set ns'" "k \<notin> set ks1" "i \<notin> set is" using Cons.prems(3) by auto
  obtain s1 where s1: "initUProc i s = Ret () s1" "kq s1 (ns' @ fr) rq B (insert n L)"
    "support_pool s1 (ks1 @ ks')" "uproc_ready s1 i n k" "uproc_frame {n} {k} {i} s s1"
    using initUProc_run [of s n "ns' @ fr" rq B L k "ks1 @ ks'" i] Cons.prems(1,2) n(1,2) by auto
  obtain s2 where s2: "init_uprocs is s1 = Ret () s2" "kq s2 fr rq B (set ns' \<union> insert n L)"
    "support_pool s2 ks'" "\<forall>j<length ns'. uproc_ready s2 (is ! j) (ns' ! j) (ks1 ! j)"
    "uproc_frame (set ns') (set ks1) (set is) s1 s2"
    using Cons.IH [OF s1(2,3)] Cons.prems(3) n(3,4) by auto
  have "uproc_ready s2 i n k" by (rule uproc_ready_frame [OF s1(4) s2(5) new])
  then have "\<forall>j<length ns. uproc_ready s2 ((i # is) ! j) (ns ! j) (ks ! j)"
    using s2(4) by (simp add: n(1,2) less_Suc_eq_0_disj all_conj_distrib) (auto simp: nth_Cons')
  moreover have "uproc_frame (set ns) (set ks) (set (i # is)) s s2"
    using uproc_frame_trans [OF s1(5) s2(5)] n(1,2) by simp
  ultimately show ?case using s1(1) s2(1-3) n(1) by auto
qed

section \<open>Memory and static data\<close>

abbreviation (input) device_sems :: "link_map \<Rightarrow> u32 set" where
  "device_sems l \<equiv> (\<lambda>i. deviceSemaphores l + 4 * of_nat i) ` {..<49}"

definition line_sems :: "link_map \<Rightarrow> nat set \<Rightarrow> u32 set" where
  "line_sems l I = (\<Union>i\<in>I. {printerSem l + 4 * of_nat i, termReadSem l + 4 * of_nat i, termWriteSem l + 4 * of_nat i})"

text \<open>A map that has the value \<open>v\<close> on \<open>A\<close>.\<close>

definition overwrite :: "'k set \<Rightarrow> 'v \<Rightarrow> ('k \<Rightarrow> 'v) \<Rightarrow> 'k \<Rightarrow> 'v" where
  "overwrite A v m a = (if a \<in> A then v else m a)"

lemma overwrite_simps: "overwrite {} v m = m" "overwrite A v (m(x := v)) = overwrite (insert x A) v m"
  by (auto simp: overwrite_def fun_eq_iff)

lemma init_devsems_eq:
  "init_devsems s = s\<lparr>mem := overwrite (device_sems (link s)) 0 (mem s)\<rparr>"
proof -
  have "foldl (\<lambda>s i. store_word (devsem (of_nat i) s) 0 s) s xs =
      s\<lparr>mem := overwrite ((\<lambda>i. deviceSemaphores (link s) + 4 * of_nat i) ` set xs) 0 (mem s)\<rparr>"
    for s :: sstate and xs
    by (induction xs arbitrary: s) (simp_all add: store_word_def devsem_def overwrite_simps)
  then show ?thesis by (simp add: init_devsems_def lessThan_atLeast0 del: upt.simps upt_rec_numeral)
qed

lemma line_sems_simps: "line_sems l {} = {}"
  "line_sems l (insert i I) = insert (termWriteSem l + 4 * of_nat i) (insert (termReadSem l + 4 * of_nat i)
     (insert (printerSem l + 4 * of_nat i) (line_sems l I)))"
  by (auto simp: line_sems_def)

lemma init_device_sems_eq:
  "init_device_sems is s = s\<lparr>mem := overwrite (line_sems (link s) (set is)) 1 (mem s)\<rparr>"
proof (induction "is" arbitrary: s)
  case (Cons i "is")
  have "insert a (insert b (insert c A)) = insert c (insert b (insert a A))" for a b c :: u32 and A by auto
  then show ?case by (simp add: Cons store_word_def Let_def overwrite_simps line_sems_simps)
qed (simp add: line_sems_simps overwrite_simps)

lemma initSwapPool_eq:
  "initSwapPool s = s\<lparr>swapPool := overwrite {..<SWAP_POOL_SIZE} empty_frame (swapPool s)\<rparr>"
proof -
  have "foldl (\<lambda>s i. s\<lparr>swapPool := (swapPool s)(i := empty_frame)\<rparr>) s xs =
      s\<lparr>swapPool := overwrite (set xs) empty_frame (swapPool s)\<rparr>" for s :: sstate and xs
    by (induction xs arbitrary: s) (simp_all add: overwrite_simps)
  then show ?thesis by (simp add: initSwapPool_def lessThan_atLeast0 del: upt.simps upt_rec_numeral)
qed

lemma initSupportStructs_frame:
  "\<exists>u f. initSupportStructs s = s\<lparr>sups := u, supportFreeList := f\<rparr>"
proof -
  have "\<exists>u f. foldl (\<lambda>s i. s\<lparr>sups := (sups s)(i := (sups s i)\<lparr>sup_next := supportFreeList s\<rparr>),
      supportFreeList := Some i\<rparr>) s xs = s\<lparr>sups := u, supportFreeList := f\<rparr>" for s :: sstate and xs
  proof (induction xs arbitrary: s)
    case Nil
    show ?case by (intro exI [of _ "sups s"] exI [of _ "supportFreeList s"]) simp
  next
    case (Cons x xs)
    obtain u f where "foldl (\<lambda>s i. s\<lparr>sups := (sups s)(i := (sups s i)\<lparr>sup_next := supportFreeList s\<rparr>),
        supportFreeList := Some i\<rparr>) (s\<lparr>sups := (sups s)(x := (sups s x)\<lparr>sup_next := supportFreeList s\<rparr>),
        supportFreeList := Some x\<rparr>) xs = (s\<lparr>sups := (sups s)(x := (sups s x)\<lparr>sup_next := supportFreeList s\<rparr>),
        supportFreeList := Some x\<rparr>)\<lparr>sups := u, supportFreeList := f\<rparr>"
      using Cons.IH by blast
    then show ?case by (intro exI [of _ u] exI [of _ f]) (simp del: fun_upd_apply)
  qed
  then show ?thesis unfolding initSupportStructs_def .
qed

lemma init_delayd_frame:
  "\<exists>t h f. init_delayd s = s\<lparr>delaydTable := t, delayd_h := h, delaydFree_h := f\<rparr>"
proof -
  have "\<exists>t f. foldl (\<lambda>s i. (set_d_next i (delaydFree_h s) s)\<lparr>delaydFree_h := Some i\<rparr>) s xs =
      s\<lparr>delaydTable := t, delaydFree_h := f\<rparr>" for s xs
  proof (induction xs arbitrary: s)
    case Nil
    show ?case by (intro exI [of _ "delaydTable s"] exI [of _ "delaydFree_h s"]) simp
  next
    case (Cons x xs)
    obtain t f where "foldl (\<lambda>s i. (set_d_next i (delaydFree_h s) s)\<lparr>delaydFree_h := Some i\<rparr>)
        ((set_d_next x (delaydFree_h s) s)\<lparr>delaydFree_h := Some x\<rparr>) xs =
      ((set_d_next x (delaydFree_h s) s)\<lparr>delaydFree_h := Some x\<rparr>)\<lparr>delaydTable := t, delaydFree_h := f\<rparr>"
      using Cons.IH by blast
    then show ?case by (intro exI [of _ t] exI [of _ f]) (simp add: set_d_next_def del: fun_upd_apply)
  qed
  from this [of "s\<lparr>delayd_h := NULL, delaydFree_h := NULL\<rparr>" "[0..<DELAY_LIST_SIZE - 1]"]
  obtain t f where e: "foldl (\<lambda>s i. (set_d_next i (delaydFree_h s) s)\<lparr>delaydFree_h := Some i\<rparr>)
      (s\<lparr>delayd_h := NULL, delaydFree_h := NULL\<rparr>) [0..<DELAY_LIST_SIZE - 1] =
      s\<lparr>delayd_h := NULL, delaydFree_h := NULL\<rparr>\<lparr>delaydTable := t, delaydFree_h := f\<rparr>"
    by blast
  show ?thesis
    unfolding init_delayd_def Let_def e
    by (intro exI [of _ "t(DELAY_LIST_SIZE - 1 := \<lparr>d_next = NULL, d_wakeTime = MAXINT, d_supStruct = NULL\<rparr>)"]
        exI [of _ "Some (DELAY_LIST_SIZE - 1)"] exI [of _ f]) simp
qed

section \<open>The stages of \<open>main\<close>\<close>

lemma createProcess_run:
  assumes k: "kq s (n # fr) rq B L"
  shows "\<exists>s'. createProcess s = Ret () s' \<and> kq s' fr (rq @ [n]) B L
    \<and> p_s (pcbTable s' n) = first_state (p_s (reset_pcb (pcbTable s n))) s \<and> lone (pcbTable s' n)
    \<and> processCount s' = processCount s + 1 \<and> softBlockCount s' = softBlockCount s
    \<and> mem s' = mem s \<and> link s' = link s \<and> sups s' = sups s \<and> kstate.more s' = kstate.more s"
proof -
  note A = kq_alloc [OF k]
  let ?t = "take_pcb n s"
  define r where "r = (pcbTable ?t n)\<lparr>p_s := first_state (p_s (pcbTable ?t n)) ?t, p_prnt := NULL,
    p_child := NULL, p_sib_left := NULL, p_sib_right := NULL, p_time := 0, p_semAdd := NULL_addr,
    p_supportStruct := NULL\<rparr>"
  define u where "u = ?t\<lparr>pcbTable := (pcbTable ?t)(n := r)\<rparr>"
  have n: "n \<notin> L" using placedD(6) [OF kqD(4) [OF k]] by auto
  have "kq u = kq ?t" unfolding u_def by (rule kq_pcb) (simp_all add: r_def take_pcb_def reset_pcb_def)
  then have "kq u fr rq B (insert n L)" using A(2) by simp
  then obtain s1 where s1: "make_ready (Some n) u = Ret () s1" "kq s1 fr (rq @ [n]) B (insert n L - {n})"
    "kframe u s1"
    using kq_enqueue [of u fr rq B "insert n L" n] by blast
  have st: "first_state x ?t = first_state x s" for x
    by (simp add: first_state_def Let_def RAMTOP_def take_pcb_def)
  have "createProcess s = Ret () (s1\<lparr>processCount := processCount s1 + 1\<rparr>)"
    using A(1) s1(1) by (simp add: createProcess_def Let_def u_def r_def)
  moreover have "lone (pcbTable s1 n)" using kframe_pcb(1,2) [OF s1(3), of n] by (simp add: lone_def u_def r_def)
  moreover have "p_s (pcbTable s1 n) = first_state (p_s (reset_pcb (pcbTable s n))) s"
    using kframe_pcb(5) [OF s1(3), of n] by (simp add: u_def r_def st [unfolded take_pcb_def] take_pcb_def)
  ultimately show ?thesis
    using s1(2,3) n by (intro exI [of _ "s1\<lparr>processCount := processCount s1 + 1\<rparr>"])
      (simp add: kframe_def u_def take_pcb_def)
qed

lemma initADL_run:
  assumes k: "kq s (n # fr) rq B L"
  shows "\<exists>s'. initADL s = Ret () s' \<and> kq s' fr (rq @ [n]) B L \<and> adl s' [] (rev [0..<dummy])
    \<and> s_pc (p_s (pcbTable s' n)) = delayDaemon_addr (link s) \<and> lone (pcbTable s' n)
    \<and> (\<forall>m. m \<noteq> n \<longrightarrow> p_s (pcbTable s' m) = p_s (pcbTable s m)
        \<and> lone (pcbTable s' m) = lone (pcbTable s m))
    \<and> processCount s' = processCount s \<and> softBlockCount s' = softBlockCount s
    \<and> mem s' = mem s \<and> link s' = link s \<and> sups s' = sups s
    \<and> supportFreeList s' = supportFreeList s \<and> swapPool s' = swapPool s \<and> swapIndex s' = swapIndex s"
proof -
  obtain t h f where d: "init_delayd s = s\<lparr>delaydTable := t, delayd_h := h, delaydFree_h := f\<rparr>"
    using init_delayd_frame by blast
  define v where "v = init_delayd s"
  have kv: "kq v (n # fr) rq B L" using k by (simp add: v_def d)
  note A = kq_alloc [OF kv]
  let ?t = "take_pcb n v"
  define st where "st = (set_reg r_sp (stack_below 2 ?t) (set_reg r_t9 (delayDaemon_addr (link ?t))
    ((p_s (pcbTable ?t n))\<lparr>s_pc := delayDaemon_addr (link ?t)\<rparr>)))\<lparr>s_status := KERNEL_STATUS, s_entryHI := 0\<rparr>"
  define u where "u = ?t\<lparr>pcbTable := (pcbTable ?t)(n := (pcbTable ?t n)\<lparr>p_s := st, p_supportStruct := NULL\<rparr>)\<rparr>"
  have n: "n \<notin> L" using placedD(6) [OF kqD(4) [OF k]] by auto
  have "kq u = kq ?t" unfolding u_def by (rule kq_pcb) simp_all
  then have "kq u fr rq B (insert n L)" using A(2) by simp
  then obtain s1 where s1: "make_ready (Some n) u = Ret () s1" "kq s1 fr (rq @ [n]) B (insert n L - {n})"
    "kframe u s1"
    using kq_enqueue [of u fr rq B "insert n L" n] by blast
  have "initADL s = Ret () s1"
    using A(1) s1(1) by (simp add: initADL_def Let_def u_def v_def st_def)
  moreover have m: "kstate.more s1 = kstate.more v" using s1(3) by (simp add: kframe_def u_def take_pcb_def)
  moreover have "adl s1 [] (rev [0..<dummy])"
    using init_delayd_adl [of s] adl_cong [OF sstate_more(3,4,5) [OF m]] by (simp add: v_def)
  ultimately show ?thesis
    using s1(2,3) n kframe_pcb(1,2,5) [OF s1(3)] sstate_more(1,2,7) [OF m]
    by (intro exI [of _ s1]) (simp add: kframe_def lone_def u_def take_pcb_def v_def d st_def)
qed

text \<open>The semaphores that start at 1 are none of those that start at 0, nor a machine register.\<close>

definition sems_apart :: "link_map \<Rightarrow> bool" where
  "sems_apart l \<longleftrightarrow> (device_sems l \<union> sup_privateSem l ` {..<UPROCMAX}) \<inter>
       insert (swapPoolSem l) (line_sems l {..<UPROCMAX}) = {}
     \<and> INTERVALTMR \<notin> device_sems l"

definition boot_mem :: "link_map \<Rightarrow> (u32 \<Rightarrow> u32) \<Rightarrow> bool" where
  "boot_mem l m \<longleftrightarrow> (\<forall>a \<in> device_sems l \<union> sup_privateSem l ` {..<UPROCMAX}. m a = 0)
     \<and> (\<forall>a \<in> insert (swapPoolSem l) (line_sems l {..<UPROCMAX}). m a = 1)"

lemma uproc_ready_kstep:
  assumes "kstep s s'"
  shows "uproc_ready s' i n k = uproc_ready s i n k"
  using kstep_pcb(1,2,5,8) [OF assms, of n] kstepD(1,3) [OF assms] sstate_more(6) [OF kstepD(11) [OF assms]]
  by (simp add: uproc_ready_def lone_def)

text \<open>\<open>main\<close> up to the first process.\<close>

definition boot_start :: "sstate \<Rightarrow> sstate" where
  "boot_start s = LDIT CLOCKINTERVAL (init_devsems (initASL (initPcbs (init_passup
     (s\<lparr>processCount := 0, softBlockCount := 0, readyQueue := mkEmptyProcQ, currentProcess := NULL\<rparr>)))))"

lemma init_passup_eq: "\<exists>m. init_passup s = s\<lparr>mem := m\<rparr>"
  by (simp add: init_passup_def Let_def store_word_def) blast

lemma boot_start_run:
  assumes "sems_apart (link s)"
  shows "kq (boot_start s) [0..<MAXPROC] [] (\<lambda>_. []) {}"
    "\<forall>a \<in> device_sems (link s). mem (boot_start s) a = 0" "link (boot_start s) = link s"
    "processCount (boot_start s) = 0" "softBlockCount (boot_start s) = 0"
    "supportFreeList (boot_start s) = supportFreeList s" "swapIndex (boot_start s) = swapIndex s"
proof -
  let ?s0 = "s\<lparr>processCount := 0, softBlockCount := 0, readyQueue := mkEmptyProcQ, currentProcess := NULL\<rparr>"
  obtain m where m: "init_passup ?s0 = ?s0\<lparr>mem := m\<rparr>" using init_passup_eq by blast
  define t where "t = initASL (initPcbs (init_passup ?s0))"
  have f: "link t = link s" "readyQueue t = mkEmptyProcQ" "processCount t = 0" "softBlockCount t = 0"
    "supportFreeList t = supportFreeList s" "swapIndex t = swapIndex s"
    unfolding t_def m by (simp_all add: initASL_def initPcbs_def Let_def)
  have "t\<lparr>readyQueue := mkEmptyProcQ\<rparr> = t" using f(2) by simp
  then have "kq t [0..<MAXPROC] [] (\<lambda>_. []) {}" using kq_boot [of "init_passup ?s0"] by (simp add: t_def)
  then show "kq (boot_start s) [0..<MAXPROC] [] (\<lambda>_. []) {}"
    by (simp add: boot_start_def t_def [symmetric] init_devsems_eq)
  show "\<forall>a \<in> device_sems (link s). mem (boot_start s) a = 0"
    using assms f(1)
    by (auto simp: boot_start_def t_def [symmetric] init_devsems_eq LDIT_def overwrite_def sems_apart_def)
  show "link (boot_start s) = link s" "processCount (boot_start s) = 0" "softBlockCount (boot_start s) = 0"
    "supportFreeList (boot_start s) = supportFreeList s" "swapIndex (boot_start s) = swapIndex s"
    using f by (simp_all add: boot_start_def t_def [symmetric] init_devsems_eq LDIT_def)
qed

lemma upt_split: "[0..<20] = 0 # 1 # [2..<10] @ [10..<20]"
  by (simp add: upt_rec)

text \<open>The device semaphores and those of the support level, from a state in which the former are 0.\<close>

lemma boot_mem_final:
  assumes "sems_apart l" and "\<forall>a \<in> device_sems l. m a = 0"
  shows "boot_mem l (\<lambda>a. if a \<in> sup_privateSem l ` {..<UPROCMAX} then 0
    else overwrite (line_sems l {..<UPROCMAX}) 1 (m(swapPoolSem l := 1)) a)"
proof -
  have gen: "(\<forall>a\<in>D \<union> P. (if a \<in> P then 0 else overwrite W 1 (m(x := 1)) a) = 0)
      \<and> (\<forall>a\<in>insert x W. (if a \<in> P then 0 else overwrite W 1 (m(x := 1)) a) = 1)"
    if "(D \<union> P) \<inter> insert x W = {}" "\<forall>a\<in>D. m a = 0" for D P W x
    using that by (auto simp: overwrite_def)
  show ?thesis
    unfolding boot_mem_def by (rule gen) (use assms in \<open>unfold sems_apart_def, blast+\<close>)
qed

section \<open>The whole of \<open>main\<close>\<close>

lemma main_run:
  assumes "supportFreeList s = NULL" and "sems_apart (link s)"
  shows "\<exists>s' st. main s = Exit (LDST st) s'
    \<and> s_pc st = test_addr (link s) \<and> s_reg st r_t9 = test_addr (link s)
    \<and> s_status st = IEPBITON OR IM OR TEBITON
    \<and> kq s' [10..<MAXPROC] [1] (\<lambda>_. []) ({0} \<union> {2..<10}) \<and> sems s' (\<lambda>_. [])
    \<and> currentProcess s' = Some 0 \<and> processCount s' = 1 \<and> softBlockCount s' = 0
    \<and> s_pc (p_s (pcbTable s' 1)) = delayDaemon_addr (link s)
    \<and> (\<forall>i\<in>{1..UPROCMAX}. uproc_ready s' i (i + 1) (UPROCMAX - i))
    \<and> support_pool s' [] \<and> adl s' [] (rev [0..<dummy])
    \<and> (\<forall>f<SWAP_POOL_SIZE. swapPool s' f = empty_frame) \<and> boot_mem (link s) (mem s')
    \<and> link s' = link s \<and> (\<forall>n<10. lone (pcbTable s' n)) \<and> swapIndex s' = swapIndex s"
proof -
  let ?s0 = "boot_start s"
  note b = boot_start_run [OF assms(2)]
  obtain s1 where s1: "createProcess ?s0 = Ret () s1" "kq s1 (1 # [2..<10] @ [10..<20]) [0] (\<lambda>_. []) {}"
    "p_s (pcbTable s1 0) = first_state (p_s (reset_pcb (pcbTable ?s0 0))) ?s0"
    "processCount s1 = 1" "softBlockCount s1 = 0" "mem s1 = mem ?s0" "link s1 = link s"
    "kstate.more s1 = kstate.more ?s0" "lone (pcbTable s1 0)"
    using createProcess_run [OF b(1) [unfolded upt_split]] b(3-5) by auto
  have "supportFreeList s1 = NULL" using sstate_more(7) [OF s1(8)] b(6) assms(1) by simp
  then have pool: "support_pool (initSupportStructs s1) (rev [0..<UPROCMAX])" by (rule initSupportStructs_pool)
  obtain u f where uf: "initSupportStructs s1 = s1\<lparr>sups := u, supportFreeList := f\<rparr>"
    using initSupportStructs_frame by blast
  define s2 where "s2 = init_device_sems [0..<UPROCMAX]
      (store_word (swapPoolSem (link s1)) 1 (initSwapPool (initSupportStructs s1)))"
  have s2: "kq s2 (1 # [2..<10] @ [10..<20]) [0] (\<lambda>_. []) {}" "link s2 = link s"
    "mem s2 = overwrite (line_sems (link s) {..<UPROCMAX}) 1 ((mem ?s0)(swapPoolSem (link s) := 1))"
    "processCount s2 = 1" "softBlockCount s2 = 0" "pcbTable s2 = pcbTable s1"
    "\<forall>f<SWAP_POOL_SIZE. swapPool s2 f = empty_frame"
    "sups s2 = sups (initSupportStructs s1)" "supportFreeList s2 = supportFreeList (initSupportStructs s1)"
    "swapIndex s2 = swapIndex s"
    using s1 sstate_more(2) [OF s1(8)] b(7)
    by (simp_all add: s2_def init_device_sems_eq initSwapPool_eq uf store_word_def overwrite_def
        lessThan_atLeast0 del: upt.simps upt_rec_numeral)
  have pool2: "support_pool s2 (rev [0..<UPROCMAX])"
    using pool support_pool_cong [of s2 "initSupportStructs s1"] s2(8,9) by simp
  have "initPhase3Resources (initSupportStructs s1) = initADL s2"
    by (simp add: initPhase3Resources_def s2_def uf initSwapPool_eq Let_def del: upt.simps upt_rec_numeral)
  then obtain s3 where s3: "initPhase3Resources (initSupportStructs s1) = Ret () s3"
    "kq s3 ([2..<10] @ [10..<20]) [0, 1] (\<lambda>_. []) {}" "adl s3 [] (rev [0..<dummy])"
    "s_pc (p_s (pcbTable s3 1)) = delayDaemon_addr (link s)" "p_s (pcbTable s3 0) = p_s (pcbTable s1 0)"
    "processCount s3 = 1" "softBlockCount s3 = 0" "mem s3 = mem s2" "link s3 = link s"
    "sups s3 = sups s2" "supportFreeList s3 = supportFreeList s2" "swapPool s3 = swapPool s2"
    "lone (pcbTable s3 1)" "lone (pcbTable s3 0)" "swapIndex s3 = swapIndex s2"
    using initADL_run [OF s2(1)] s2(2,4-6) s1(9) by auto
  have "support_pool s3 (rev [0..<UPROCMAX] @ [])"
    using pool2 support_pool_cong [of s3 s2] s3(10,11) by simp
  then obtain s4 where s4: "initUProcs s3 = Ret () s4" "kq s4 [10..<20] [0, 1] (\<lambda>_. []) (set [2..<10] \<union> {})"
    "support_pool s4 []"
    "\<forall>j<length [2..<10]. uproc_ready s4 ([1..<9] ! j) ([2..<10] ! j) (rev [0..<8] ! j)"
    "uproc_frame (set [2..<10]) (set (rev [0..<8])) (set [1..<9]) s3 s4"
    using init_uprocs_run [OF s3(2), of "rev [0..<8]" "[]" "[1..<9]"] unfolding initUProcs_def
    by (auto simp del: upt.simps upt_rec_numeral)
  have ready: "uproc_ready s4 i (i + 1) (8 - i)" if "i \<in> {1..8}" for i
  proof -
    have "i - 1 < 8" "Suc (i - 1) = i" using that by auto
    then show ?thesis using s4(4) [rule_format, of "i - 1"] by (simp add: rev_nth del: upt.simps upt_rec_numeral)
  qed
  obtain s5 where s5: "scheduler s4 = Exit (LDST (p_s (pcbTable s4 0))) s5"
    "kq s5 [10..<20] [1] (\<lambda>_. []) (insert 0 (set [2..<10] \<union> {}))" "currentProcess s5 = Some 0" "kstep s4 s5"
    using scheduler_dispatch [of s4 "[10..<20]" 0 "[1]"] s4(2) by blast
  note K = kstepD [OF s5(4)] and M = sstate_more [OF kstepD(11) [OF s5(4)]]
  have fr: "link s4 = link s" "pcbTable s4 0 = pcbTable s3 0" "pcbTable s4 1 = pcbTable s3 1"
    "mem s4 = (\<lambda>a. if a \<in> sup_privateSem (link s) ` {..<8} then 0 else mem s3 a)"
    "processCount s4 = 1" "softBlockCount s4 = 0" "delaydTable s4 = delaydTable s3"
    "delayd_h s4 = delayd_h s3" "delaydFree_h s4 = delaydFree_h s3" "swapPool s4 = swapPool s2"
    "swapIndex s4 = swapIndex s"
    using s4(5) s3 s2(10) by (simp_all add: uproc_frame_def lessThan_atLeast0 del: upt.simps upt_rec_numeral)
  let ?st = "p_s (pcbTable s4 0)"
  have st: "s_pc ?st = test_addr (link s)" "s_reg ?st r_t9 = test_addr (link s)"
    "s_status ?st = IEPBITON OR IM OR TEBITON"
    using fr(2) s3(5) s1(3) b(3) by (simp_all add: first_state_def Let_def)
  have "main s = Exit (LDST ?st) s5"
    using s1(1) s3(1) s4(1) s5(1) by (simp add: main_def Let_def boot_start_def [symmetric])
  moreover have "boot_mem (link s) (mem s5)"
    unfolding K(2) fr(4) s3(8) s2(3) by (rule boot_mem_final [OF assms(2) b(2)])
  moreover have "insert 0 (set [2..<10] \<union> {}) = {0} \<union> {2..<10 :: nat}"
    unfolding set_upt by blast
  moreover have "support_pool s5 []" using s4(3) M(7) by (simp add: support_pool_def)
  moreover have "adl s5 [] (rev [0..<dummy])"
    using s3(3) adl_cong [of s5 s3] M(3-5) fr(7-9) by simp
  moreover have "s_pc (p_s (pcbTable s5 1)) = delayDaemon_addr (link s)"
    using kstep_pcb(5) [OF s5(4), of 1] fr(3) s3(4) by simp
  moreover have "sems s5 (\<lambda>_. [])" by (simp add: sems_def)
  moreover have "\<forall>i\<in>{1..UPROCMAX}. uproc_ready s5 i (i + 1) (UPROCMAX - i)"
    using ready uproc_ready_kstep [OF s5(4)] by simp
  moreover have "lone (pcbTable s5 n)" if "n < 10" for n
  proof -
    have "lone (pcbTable s4 n)"
    proof (cases "n < 2")
      case True
      then have "n = 0 \<or> n = 1" by auto
      then show ?thesis using fr(2,3) s3(13,14) by auto
    next
      case False
      then have "n - 1 \<in> {1..8}" "n - 1 + 1 = n" using that by auto
      then show ?thesis using ready [of "n - 1"] by (simp only: uproc_ready_def)
    qed
    then show ?thesis using kstep_pcb(1,2) [OF s5(4), of n] by (simp add: lone_def)
  qed
  ultimately show ?thesis
    using st s5(2,3) K(1,5,6) fr(1,5,6,10,11) M(1,2) s2(7)
    by (intro exI [of _ s5] exI [of _ ?st]) (simp del: upt.simps upt_rec_numeral)
qed

section \<open>Properties\<close>

text \<open>C19: Booting.  From any memory contents, \<open>main\<close> dispatches the first process, in kernel mode at
  \<open>test\<close>, with every invariant of the kernel established: the 20 PCBs are split into the free list,
  the running process, the delay daemon alone in the ready queue, and the eight templates of the user
  processes, each with its own support structure, page table, address space identifier and exception
  handlers; the pool of support structures is used up, the delay list is empty, the swap pool is
  free, no process waits, and every semaphore that provides mutual exclusion is 1 and every other
  is 0.\<close>

theorem main_boots:
  assumes "supportFreeList s = NULL" and "sems_apart (link s)"
  shows "\<exists>s' st. main s = Exit (LDST st) s'
    \<and> s_pc st = test_addr (link s) \<and> s_reg st r_t9 = test_addr (link s)
    \<and> s_status st = IEPBITON OR IM OR TEBITON
    \<and> kq s' [10..<MAXPROC] [1] (\<lambda>_. []) ({0} \<union> {2..<10}) \<and> sems s' (\<lambda>_. [])
    \<and> currentProcess s' = Some 0 \<and> processCount s' = 1 \<and> softBlockCount s' = 0
    \<and> s_pc (p_s (pcbTable s' 1)) = delayDaemon_addr (link s)
    \<and> (\<forall>i\<in>{1..UPROCMAX}. uproc_ready s' i (i + 1) (UPROCMAX - i))
    \<and> support_pool s' [] \<and> adl s' [] (rev [0..<dummy])
    \<and> (\<forall>f<SWAP_POOL_SIZE. swapPool s' f = empty_frame) \<and> boot_mem (link s) (mem s')"
  using main_run [OF assms] by blast

text \<open>The example link map.\<close>

lemma zero_link_apart: "sems_apart zero_link"
proof -
  have eight: "{..<8 :: nat} = {0, 1, 2, 3, 4, 5, 6, 7}" by auto
  have low: "a < 0x20009000" "0x20008000 \<le> a" if a: "a \<in> device_sems zero_link" for a
  proof -
    obtain i where i: "i < 49" "a = 0x20008000 + 4 * of_nat i" using a by (auto simp: zero_link_def)
    have "a = of_nat (0x20008000 + 4 * i)" using i(2) by simp
    then have "unat a = 0x20008000 + 4 * i" using i(1) by (simp only:) (rule unat_of_nat_small, simp)
    then show "a < 0x20009000" "0x20008000 \<le> a" using i(1) by (simp_all add: word_less_nat_alt word_le_nat_alt)
  qed
  have high: "0x20009000 \<le> a \<and> a < 0x20009100" if "a \<in> insert (swapPoolSem zero_link) (line_sems zero_link {..<8})" for a
    using that by (auto simp: line_sems_def eight zero_link_def)
  have "0x20009100 \<le> a" if "a \<in> sup_privateSem zero_link ` {..<8}" for a
    using that by (auto simp: eight zero_link_def)
  then have "(device_sems zero_link \<union> sup_privateSem zero_link ` {..<8}) \<inter>
      insert (swapPoolSem zero_link) (line_sems zero_link {..<8}) = {}"
    using low(1) high by (metis (no_types, lifting) Int_emptyI UnE not_le)
  moreover have "INTERVALTMR \<notin> device_sems zero_link" using low(2) [of INTERVALTMR] by auto
  ultimately show ?thesis unfolding sems_apart_def by blast
qed

theorem main_boots_witness:
  "\<exists>s' st. main zero_sstate = Exit (LDST st) s' \<and> s_pc st = 0x20010000
    \<and> kq s' [10..<MAXPROC] [1] (\<lambda>_. []) ({0} \<union> {2..<10})"
proof -
  have "supportFreeList zero_sstate = NULL" "link zero_sstate = zero_link" "test_addr zero_link = 0x20010000"
    by (simp_all add: zero_sstate_def zero_link_def)
  then show ?thesis using main_boots [of zero_sstate] zero_link_apart by auto
qed

end
