(* ===== verification/TestSpec.thy ===== *)
theory TestSpec
  imports BootSpec
begin

text \<open>
  The first process, \<open>test\<close>, from the state \<open>main\<close> leaves behind: it starts the user processes, waits
  for all of them, and ends.
\<close>

text \<open>
  What the first process relies on: other processes leave the table of templates alone, and creating
  a process does not fail.
\<close>

definition templates_kept :: "sstate \<Rightarrow> sstate \<Rightarrow> bool" where
  "templates_kept s s' \<longleftrightarrow> link s' = link s \<and> asidProcessTable s' = asidProcessTable s
     \<and> (\<forall>i n. asidProcessTable s i = Some n \<longrightarrow> p_supportStruct (pcbTable s' n) = p_supportStruct (pcbTable s n))"

definition launching :: "env \<Rightarrow> bool" where
  "launching h \<longleftrightarrow> (\<forall>i r s. templates_kept s (snd (h i r s))
     \<and> (fst r = CREATEPROCESS \<longrightarrow> 0 \<le> sint (fst (h i r s))))"

definition create_request :: "sstate \<Rightarrow> nat \<Rightarrow> sysreq" where
  "create_request s i = (case asidProcessTable s i of
     Some n \<Rightarrow> (CREATEPROCESS, state_addr (link s) n, support_addr (link s) (p_supportStruct (pcbTable s n)), 0)
   | None \<Rightarrow> (0, 0, 0, 0))"

lemma create_request_kept: "templates_kept s s' \<Longrightarrow> create_request s' = create_request s"
  by (auto simp: templates_kept_def create_request_def fun_eq_iff split: option.splits)

lemma templates_kept_trans: "templates_kept s s' \<Longrightarrow> templates_kept s' s'' \<Longrightarrow> templates_kept s s''"
  by (simp add: templates_kept_def)

lemma start_uprocs_run:
  assumes h: "launching h" and t: "\<forall>i\<in>set is. asidProcessTable s i \<noteq> NULL"
  shows "\<exists>tr s'. run (start_uprocs is s) h j = (tr, Returned () s') \<and> templates_kept s s'
    \<and> map fst tr = map (create_request s) is"
  using t
proof (induction "is" arbitrary: s j)
  case Nil
  then show ?case by (simp add: templates_kept_def)
next
  case (Cons i "is")
  obtain n where n: "asidProcessTable s i = Some n" using Cons.prems by auto
  let ?r = "(CREATEPROCESS, state_addr (link s) n, support_addr (link s) (p_supportStruct (pcbTable s n)), 0) :: sysreq"
  obtain v s1 where h1: "h j ?r s = (v, s1)" by fastforce
  have "templates_kept s (snd (h j ?r s)) \<and> (fst ?r = CREATEPROCESS \<longrightarrow> 0 \<le> sint (fst (h j ?r s)))"
    using h unfolding launching_def by blast
  then have k: "templates_kept s s1" "0 \<le> sint v" unfolding h1 by simp_all
  then have "\<forall>i\<in>set is. asidProcessTable s1 i \<noteq> NULL" using Cons.prems by (simp add: templates_kept_def)
  then obtain tr s' where r: "run (start_uprocs is s1) h (Suc j) = (tr, Returned () s')" "templates_kept s1 s'"
    "map fst tr = map (create_request s1) is"
    using Cons.IH by blast
  have "run (start_uprocs (i # is) s) h j = ((?r, s) # tr, Returned () s')"
    using n h1 k(2) r(1) by simp
  moreover have "?r = create_request s i" by (simp add: create_request_def n)
  ultimately show ?case
    using r(2,3) templates_kept_trans [OF k(1)] create_request_kept [OF k(1)] by auto
qed

lemma await_uprocs_run:
  assumes h: "launching h"
  shows "\<exists>tr s'. run (await_uprocs n s) h j = (tr, Returned () s') \<and> link s' = link s
    \<and> map fst tr = replicate n (PASSEREN, masterSemaphore (link s), 0, 0)"
proof (induction n arbitrary: s j)
  case (Suc n)
  obtain v s1 where h1: "h j (PASSEREN, masterSemaphore (link s), 0, 0) s = (v, s1)" by fastforce
  have "link s1 = link s" using h unfolding launching_def templates_kept_def by (metis h1 snd_conv)
  moreover obtain tr s' where "run (await_uprocs n s1) h (Suc j) = (tr, Returned () s')" "link s' = link s1"
    "map fst tr = replicate n (PASSEREN, masterSemaphore (link s1), 0, 0)"
    using Suc.IH by blast
  ultimately show ?case using h1 by simp
qed simp

text \<open>C21: The life of the system: the first process creates each of the eight user processes exactly
  once, in order, from the template and with the support structure \<open>main\<close> prepared for it, then waits
  eight times on the master semaphore, which each ending process raises once, and only then
  terminates, which lets the scheduler halt the machine.\<close>

theorem test_runs:
  assumes h: "launching h" and r: "\<forall>i\<in>{1..UPROCMAX}. uproc_ready s i (i + 1) (UPROCMAX - i)"
  shows "\<exists>tr u. run (test s) h 0 = (tr, Terminated u)
    \<and> map fst tr = map (\<lambda>i. (CREATEPROCESS, state_addr (link s) (i + 1),
          support_addr (link s) (Some (UPROCMAX - i)), 0)) [1..<UPROCMAX + 1]
        @ replicate UPROCMAX (PASSEREN, masterSemaphore (link s), 0, 0) @ [(TERMINATEPROCESS, 0, 0, 0)]"
proof -
  have tab: "asidProcessTable s i = Some (i + 1) \<and> p_supportStruct (pcbTable s (i + 1)) = Some (UPROCMAX - i)"
    if "i \<in> {1..UPROCMAX}" for i
    using r that by (simp add: uproc_ready_def)
  then have "\<forall>i\<in>set [1..<UPROCMAX + 1]. asidProcessTable s i \<noteq> NULL"
    unfolding set_upt by auto
  then obtain tr s1 where 1: "run (start_uprocs [1..<UPROCMAX + 1] s) h 0 = (tr, Returned () s1)"
    "templates_kept s s1" "map fst tr = map (create_request s) [1..<UPROCMAX + 1]"
    using start_uprocs_run [OF h] by blast
  obtain tr' s2 where 2: "run (await_uprocs UPROCMAX s1) h (0 + length tr) = (tr', Returned () s2)"
    "map fst tr' = replicate UPROCMAX (PASSEREN, masterSemaphore (link s1), 0, 0)"
    using await_uprocs_run [OF h] by blast
  have "run (abind (await_uprocs UPROCMAX s1) (\<lambda>_ s. abind (SYSCALL TERMINATEPROCESS 0 0 0 s)
      (\<lambda>_ s. Done () s))) h (0 + length tr) = (tr' @ [((TERMINATEPROCESS, 0, 0, 0), s2)], Terminated s2)"
    unfolding run_abind 2(1) by (simp add: after_cons SYSCALL_def)
  then have "run (test s) h 0 = (tr @ tr' @ [((TERMINATEPROCESS, 0, 0, 0), s2)], Terminated s2)"
    unfolding test_def by (rule run_abindI [OF 1(1)])
  moreover have "map (create_request s) [1..<UPROCMAX + 1] = map (\<lambda>i. (CREATEPROCESS, state_addr (link s) (i + 1),
          support_addr (link s) (Some (UPROCMAX - i)), 0)) [1..<UPROCMAX + 1]"
    using tab by (intro map_cong) (auto simp: create_request_def)
  moreover have "link s1 = link s" using 1(2) by (simp add: templates_kept_def)
  ultimately show ?thesis using 1(3) 2(2) by simp
qed

text \<open>The templates after booting, on an otherwise cleared machine.\<close>

definition launch_pad :: sstate where
  "launch_pad = zero_sstate\<lparr>asidProcessTable := (\<lambda>i. Some (i + 1)),
     pcbTable := (\<lambda>n. zero_pcb\<lparr>p_supportStruct := Some (9 - n), p_s := uproc_state (of_nat (n - 1)) zero_state\<rparr>),
     sups := (\<lambda>k. zero_support\<lparr>sup_asid := of_nat (8 - k), sup_pageTable := init_entry (of_nat (8 - k)),
       sup_exceptContext := (\<lambda>j. handler_context 0 (if j = 0 then pagerHandler_addr zero_link
         else supportGenExceptionHandler_addr zero_link))\<rparr>)\<rparr>"

theorem test_runs_witness:
  "\<exists>tr u. run (test launch_pad) (\<lambda>i r s. (0, s)) 0 = (tr, Terminated u)
    \<and> map fst tr = map (\<lambda>i. (1, 0x2000A000 + of_nat (i + 1), of_nat (8 - i), 0)) [1..<9]
        @ replicate 8 (3, 0x20009000, 0, 0) @ [(2, 0, 0, 0)]"
proof -
  have "launching (\<lambda>i r s. (0, s))" by (simp add: launching_def templates_kept_def)
  moreover have "uproc_ready launch_pad i (i + 1) (8 - i)" if "i \<in> {1..8}" for i
    using that by (simp add: uproc_ready_def lone_def launch_pad_def zero_sstate_def handler_context_def uproc_state_def
        Let_def zero_state_def zero_pcb_def)
  ultimately show ?thesis
    using test_runs [of "\<lambda>i r s. (0, s)" launch_pad]
    by (simp add: launch_pad_def zero_sstate_def zero_link_def del: upt.simps upt_rec_numeral)
qed

end
