(* ===== verification/SysSpec.thy ===== *)
theory SysSpec
  imports SupportPool
begin

text \<open>
  The exception handlers of the support level as a whole: they never return, and what they refuse
  ends the process.
\<close>

section \<open>Programs that never return\<close>

definition never_returns :: "'a act \<Rightarrow> bool" where
  "never_returns t \<longleftrightarrow> (\<forall>h i x s. snd (run t h i) \<noteq> Returned x s)"

named_theorems final

lemma never_returns_end [final]:
  "never_returns (Leave e s)" "never_returns Undefined" "never_returns (load_and_leave r s)"
  by (simp_all add: never_returns_def load_and_leave_def)

lemma never_returns_syscall [final]:
  "fst r = TERMINATEPROCESS \<or> (\<forall>v s'. never_returns (k v s')) \<Longrightarrow> never_returns (Syscall r s k)"
  by (auto simp: never_returns_def split: prod.split)
     (metis snd_conv)+

lemma never_returns_first: "never_returns t \<Longrightarrow> never_returns (abind t f)"
  unfolding never_returns_def run_abind after_def
  by (auto split: outcome.splits prod.splits)

lemma never_returns_second: "(\<And>x s. never_returns (f x s)) \<Longrightarrow> never_returns (abind t f)"
  unfolding never_returns_def run_abind after_def
  by (auto split: outcome.splits prod.splits) (metis snd_conv)

lemma never_returns_when [final]: "(\<And>a. x = Some a \<Longrightarrow> never_returns (f a)) \<Longrightarrow> never_returns (when_some x f)"
  by (cases x) (simp_all add: final)

lemma never_returns_terminate [final]: "never_returns (supTerminate s)"
  by (simp add: supTerminate_def final)

lemma never_returns_abort [final]: "never_returns (device_error k sem st s)" "never_returns (device_done k sem n s)"
  by (simp_all add: device_error_def device_done_def final)

lemma never_returns_routines [final]:
  "never_returns (supGetTOD r s)" "never_returns (write_string b c d e s)" "never_returns (supReadTerminal s)"
  "never_returns (supDelay sec s)"
  "never_returns (dmaWriteDisk a b' c' s)" "never_returns (dmaReadDisk a b' c' s)"
  "never_returns (dmaReadFlash a b' c' s)" "never_returns (dmaWriteFlash a b' c' s)"
  unfolding supGetTOD_def write_string_def supReadTerminal_def supDelay_def dmaWriteDisk_def
    dmaReadDisk_def dmaReadFlash_def dmaWriteFlash_def Let_def split_beta leave_ready_def
  by (intro final never_returns_second)+

lemma never_returns_syscalls: "never_returns (supportSyscallHandler r s)"
  unfolding supportSyscallHandler_def Let_def supWriteToPrinter_def supWriteToTerminal_def
  by (simp add: final never_returns_first)

lemma never_returns_handlers: "never_returns (supportGenExceptionHandler s)" "never_returns (pagerHandler s)"
  unfolding supportGenExceptionHandler_def supportProgTrapHandler_def pagerHandler_def Let_def
  by (intro final never_returns_second; simp add: final never_returns_syscalls)
     (intro final never_returns_second)

section \<open>Refused system calls\<close>

text \<open>
  The calls the support level answers by ending the process, read off the saved state: an invalid
  address, length, device number or delay, and every number it has no service for.
\<close>

definition refused :: "state_t \<Rightarrow> bool" where
  "refused st \<longleftrightarrow>
     (let n = s_reg st r_a0; a1 = s_reg st r_a1; a2 = s_reg st r_a2
      in if n = 11 \<or> n = 12 then a1 < KUSEG \<or> sint a2 < 1 \<or> 128 < sint a2
         else if n = 13 then a1 < KUSEG
         else if n \<in> {14, 15, 16, 17} then sint a2 < 0 \<or> 7 < sint a2
         else if n = 18 then sint a1 < 0
         else n \<noteq> 10)"

text \<open>The state with which the handler of system calls works: the program counter has moved on.\<close>

definition advanced :: "nat \<Rightarrow> sstate \<Rightarrow> sstate" where
  "advanced k s = store_state (SupState k GENERALEXCEPT)
     ((sup_exceptState (sups s k) 1)\<lparr>s_pc := s_pc (sup_exceptState (sups s k) 1) + 4\<rparr>) s"

lemma advanced_simps [simp]:
  "link (advanced k s) = link s" "currentProcess (advanced k s) = currentProcess s"
  "current_support (advanced k s) = current_support s" "addressed k (advanced k s) = addressed k s"
  "sup_exceptState (sups (advanced k s) k) (Suc 0) =
     (sup_exceptState (sups s k) 1)\<lparr>s_pc := s_pc (sup_exceptState (sups s k) 1) + 4\<rparr>"
  by (simp_all add: advanced_def store_state_def current_support_def addressed_def rd_def)

lemma check_first:
  "write_string b i q ok s = abind (get_support s) (\<lambda>k s. abind (terminate_if
     (bad_string (s_reg (sup_exceptState (sups s k) 1) r_a1) (s_reg (sup_exceptState (sups s k) 1) r_a2)) s)
     (\<lambda>_ s'. let lineNum = sup_asid (sups s' k) - 1 in
        when_some (read_user (s_reg (sup_exceptState (sups s k) 1) r_a1)
          (unat (s_reg (sup_exceptState (sups s k) 1) r_a2)) s') (\<lambda>buffer.
        let sem = sem_of (b (link s')) lineNum
        in abind (SYSCALL PASSEREN sem 0 0 s') (\<lambda>_ s.
           abind (write_chars (i lineNum) (q lineNum) ok k sem buffer 0 s) (\<lambda>n s. device_done k sem n s)))))"
  "supDelay sec s = abind (get_support s) (\<lambda>k s. abind (terminate_if (sint sec < 0) s) (\<lambda>_ s.
     abind (SYSCALL PASSEREN (ADLsem (link s)) 0 0 s) (\<lambda>_ s.
       let node = delaydFree_h s
       in abind
         (if node = NULL then
            abind (SYSCALL VERHOGEN (ADLsem (link s)) 0 0 s) (\<lambda>_ s. supTerminate s)
          else Done () s) (\<lambda>_ s.
         when_some node (\<lambda>n.
         when_some (schedule_wakeup sec k n s) (\<lambda>s.
         abind (SYSCALL VERHOGEN (ADLsem (link s)) 0 0 s) (\<lambda>_ s.
         abind (SYSCALL PASSEREN (sup_privateSem (link s) k) 0 0 s) (\<lambda>_ s.
           load_and_leave (SupState k GENERALEXCEPT) s))))))))"
  by (simp_all add: write_string_def Let_def supDelay_def terminate_if_def)

lemmas run_checked_final = run_checked [THEN exE]

text \<open>A refused call that starts by asking for the support structure.\<close>

definition ends :: "nat \<Rightarrow> sstate \<Rightarrow> env \<Rightarrow> nat \<Rightarrow> unit act \<Rightarrow> bool" where
  "ends k s h i t \<longleftrightarrow> (\<exists>tr s'. run t h i = (tr, Terminated s')
    \<and> map fst tr = [(GETSUPPORTPTR, 0, 0, 0), (VERHOGEN, masterSemaphore (link s), 0, 0),
        (TERMINATEPROCESS, 0, 0, 0)])"

lemma ends_abind: "ends k s h i t \<Longrightarrow> ends k s h i (abind t f)"
  by (auto simp: ends_def run_abind)

lemma refused_ends:
  assumes h: "cooperative k h" and ad: "addressed k s" and c: "current_support s = Some k"
    and st: "sup_exceptState (sups s k) 1 = st"
  shows "bad_string (s_reg st r_a1) (s_reg st r_a2) \<Longrightarrow> ends k s h i (write_string b is q ok s)"
    and "s_reg st r_a1 < KUSEG \<Longrightarrow> ends k s h i (supReadTerminal s)"
    and "sint num < 0 \<or> 8 \<le> sint num \<Longrightarrow> ends k s h i (dmaReadDisk num x y s)"
    and "sint num < 0 \<or> 8 \<le> sint num \<Longrightarrow> ends k s h i (dmaWriteDisk num x y s)"
    and "sint num < 0 \<or> 8 \<le> sint num \<Longrightarrow> ends k s h i (dmaReadFlash num x y s)"
    and "sint num < 0 \<or> 8 \<le> sint num \<Longrightarrow> ends k s h i (dmaWriteFlash num x y s)"
    and "sint num < 0 \<Longrightarrow> ends k s h i (supDelay num s)"
proof -
  have num: "ends k s h i (abind (get_support s) (\<lambda>k s. abind (terminate_if P s) (f k s)))" if P for P f
    unfolding ends_def using that by (intro run_checked [OF h ad c, where bad = "\<lambda>_ _. P"])
  show "ends k s h i (dmaReadDisk num x y s)" if "sint num < 0 \<or> 8 \<le> sint num"
    unfolding dmaReadDisk_def by (rule num [OF that])
  show "ends k s h i (dmaWriteDisk num x y s)" if "sint num < 0 \<or> 8 \<le> sint num"
    unfolding dmaWriteDisk_def by (rule num [OF that])
  show "ends k s h i (dmaReadFlash num x y s)" if "sint num < 0 \<or> 8 \<le> sint num"
    unfolding dmaReadFlash_def by (rule num [OF that])
  show "ends k s h i (dmaWriteFlash num x y s)" if "sint num < 0 \<or> 8 \<le> sint num"
    unfolding dmaWriteFlash_def by (rule num [OF that])
  show "ends k s h i (supDelay num s)" if "sint num < 0"
    unfolding check_first(2) by (rule num [OF that])
  have st': "sup_exceptState (sups s' k) 1 = st" if "kept k s s'" for s'
    using st keptD(4) [OF that] by simp
  show "s_reg st r_a1 < KUSEG \<Longrightarrow> ends k s h i (supReadTerminal s)"
    unfolding ends_def supReadTerminal_def Let_def load_state_simps
    by (rule run_checked [OF h ad c, where bad = "\<lambda>k s. s_reg (sup_exceptState (sups s k) 1) 4 < 0x80000000"])
       (simp only: st')
  show "bad_string (s_reg st r_a1) (s_reg st r_a2) \<Longrightarrow> ends k s h i (write_string b is q ok s)"
    unfolding ends_def check_first(1)
    by (rule run_checked [OF h ad c, where bad = "\<lambda>k s. bad_string
          (s_reg (sup_exceptState (sups s k) 1) 4) (s_reg (sup_exceptState (sups s k) 1) 5)"])
       (simp only: st')
qed

lemma run_refused:
  assumes h: "cooperative k h" and ad: "addressed k s" and c: "current_support s = Some k"
    and st: "sup_exceptState (sups s k) 1 = st" and r: "refused st"
  shows "\<exists>tr s'. run (supportSyscallHandler (SupState k GENERALEXCEPT) s) h i = (tr, Terminated s')
    \<and> map fst tr = (if 11 \<le> s_reg st r_a0 \<and> s_reg st r_a0 \<le> 18 then [(GETSUPPORTPTR, 0, 0, 0)] else [])
      @ [(VERHOGEN, masterSemaphore (link s), 0, 0), (TERMINATEPROCESS, 0, 0, 0)]"
proof -
  let ?s = "advanced k s" and ?st = "st\<lparr>s_pc := s_pc st + 4\<rparr>"
  have s: "addressed k ?s" "current_support ?s = Some k" "sup_exceptState (sups ?s k) 1 = ?st"
    using ad c st by simp_all
  note E = refused_ends [OF h s]
  define n where "n = s_reg st r_a0"
  have P: "supportSyscallHandler (SupState k GENERALEXCEPT) s =
     (if n = 9 then supTerminate ?s
      else if n = 10 then supGetTOD (SupState k GENERALEXCEPT) ?s
      else if n = 11 then supWriteToPrinter ?s
      else if n = 12 then supWriteToTerminal ?s
      else if n = 13 then supReadTerminal ?s
      else if n = 18 then supDelay (s_reg st r_a1) ?s
      else if n = 14 then abind (dmaReadDisk (s_reg st r_a2) (s_reg st r_a3) (s_reg st r_a1) ?s)
        (\<lambda>_ s. Done () (set_state_reg (SupState k 1) r_v0 1 s))
      else if n = 15 then abind (dmaWriteDisk (s_reg st r_a2) (s_reg st r_a3) (s_reg st r_a1) ?s)
        (\<lambda>_ s. Done () (set_state_reg (SupState k 1) r_v0 1 s))
      else if n = 16 then abind (dmaReadFlash (s_reg st r_a2) (s_reg st r_a3) (s_reg st r_a1) ?s)
        (\<lambda>_ s. Done () (set_state_reg (SupState k 1) r_v0 1 s))
      else if n = 17 then abind (dmaWriteFlash (s_reg st r_a2) (s_reg st r_a3) (s_reg st r_a1) ?s)
        (\<lambda>_ s. Done () (set_state_reg (SupState k 1) r_v0 1 s))
      else supTerminate ?s)"
    using st by (simp add: supportSyscallHandler_def Let_def advanced_def n_def store_state_def)
  have range: "11 \<le> n \<and> n \<le> 18 \<longleftrightarrow> n \<in> {11, 12, 13, 14, 15, 16, 17, 18}"
  proof
    assume "11 \<le> n \<and> n \<le> 18"
    then have "unat n \<in> {11..18}" by (simp add: word_le_nat_alt)
    then have "unat n \<in> unat ` {11, 12, 13, 14, 15, 16, 17, 18 :: u32}" by (auto simp: atLeastAtMost_def)
    then show "n \<in> {11, 12, 13, 14, 15, 16, 17, 18}" by (auto simp: word_unat_eq_iff)
  qed auto
  show ?thesis
  proof (cases "11 \<le> n \<and> n \<le> 18")
    case True
    then have "ends k ?s h i (supportSyscallHandler (SupState k GENERALEXCEPT) s)"
      using r E unfolding P range refused_def n_def [symmetric] Let_def supWriteToPrinter_def supWriteToTerminal_def
      by (auto intro!: ends_abind simp: bad_string_def not_le less_le)
    then show ?thesis using True by (simp add: ends_def n_def)
  next
    case False
    then have "supportSyscallHandler (SupState k GENERALEXCEPT) s = supTerminate ?s"
      using r unfolding P by (auto simp: range refused_def n_def Let_def)
    then show ?thesis using False run_supTerminate [OF h s(2), of i] by (auto simp: n_def)
  qed
qed

text \<open>The general exception handler, for a process whose saved state is \<open>st\<close>.\<close>

lemma run_general:
  assumes h: "cooperative k h" and ad: "addressed k s" and c: "current_support s = Some k"
    and st: "sup_exceptState (sups s k) 1 = st"
  obtains s1 where "addressed k s1" "current_support s1 = Some k" "sup_exceptState (sups s1 k) 1 = st"
    "link s1 = link s"
    "run (supportGenExceptionHandler s) h i = (case run
       (let code = exceptionCode (s_cause st)
        in if code \<in> {4, 5, 6, 7, 9, 10, 11, 12} then supportProgTrapHandler s1
           else if code = 8 then supportSyscallHandler (SupState k GENERALEXCEPT) s1
           else supTerminate s1) h (Suc i) of
       (tr, res) \<Rightarrow> (((GETSUPPORTPTR, 0, 0, 0), s) # tr, res))"
proof -
  obtain s1 where s1: "kept k s s1" "\<And>f :: nat \<Rightarrow> sstate \<Rightarrow> unit act. run (abind (get_support s) f) h i =
      (case run (f k s1) h (Suc i) of (tr, res) \<Rightarrow> (((GETSUPPORTPTR, 0, 0, 0), s) # tr, res))"
    using run_get_support [OF h ad, of i] by blast
  have "sup_exceptState (sups s1 k) 1 = st" using keptD(4) [OF s1(1)] st by simp
  moreover have "addressed k s1" using ad keptD(1) [OF s1(1)] by (simp add: addressed_def)
  ultimately show ?thesis
    using that [of s1] kept_current_support [OF s1(1)] c keptD(1) [OF s1(1)]
    unfolding supportGenExceptionHandler_def s1(2) Let_def load_state_simps by metis
qed

text \<open>A call that the nucleus or the support level has no service for, from the nucleus on.\<close>

lemma kthen_scheduler [simp]: "kthen (scheduler s) f = (case scheduler s of Exit e s' \<Rightarrow> Exit e s' | _ \<Rightarrow> Stuck)"
proof -
  have "scheduler s \<noteq> Ret x s'" for x s'
    by (auto simp: scheduler_def dispatch_def Let_def split: option.splits)
  then show ?thesis by (cases "scheduler s") auto
qed

definition passed_up :: "nat \<Rightarrow> nat \<Rightarrow> state_t \<Rightarrow> 'z kstate_scheme \<Rightarrow> 'z kstate_scheme" where
  "passed_up k j st s = s\<lparr>bios := st, sups := (sups s)(k := (sups s k)
     \<lparr>sup_exceptState := (sup_exceptState (sups s k))(j := st)\<rparr>)\<rparr>"

lemma passUpOrDie_user:
  assumes "currentProcess s = Some c" "p_supportStruct (pcbTable s c) = Some k"
    and "cx = sup_exceptContext (sups s k) j"
  shows "passUpOrDie j (s\<lparr>bios := st\<rparr>) = Exit (LDCXT (c_stackPtr cx) (c_status cx) (c_pc cx)) (passed_up k j st s)"
  using assms by (simp add: passUpOrDie_def rd_def Let_def passed_up_def)

lemma user_syscall_passed_up:
  assumes u: "exceptionCode (s_cause (bios s)) = 8" "s_status (bios s) AND KUPBITON \<noteq> 0"
    and c: "currentProcess s = Some c" "p_supportStruct (pcbTable s c) = Some k"
    and cx: "cx = sup_exceptContext (sups s k) GENERALEXCEPT"
    and st: "st = (if 9 \<le> sint (s_reg (bios s) r_a0) then bios s
      else (bios s)\<lparr>s_pc := s_pc (bios s) + 4\<rparr>)"
  shows "exceptionHandler s = Exit (LDCXT (c_stackPtr cx) (c_status cx) (c_pc cx)) (passed_up k GENERALEXCEPT st s)"
proof (cases "9 \<le> sint (s_reg (bios s) r_a0)")
  case True
  then have st: "st = bios s" by (simp add: st)
  have "s\<lparr>bios := st\<rparr> = s" unfolding st by simp
  then have "exceptionHandler s = passUpOrDie 1 (s\<lparr>bios := st\<rparr>)"
    using u(1) True by (simp add: exceptionHandler_def Let_def)
  then show ?thesis using passUpOrDie_user [OF c cx] by simp
next
  case False
  then have "st = (bios s)\<lparr>s_pc := s_pc (bios s) + 4\<rparr>" by (simp add: st)
  then have "syscallHandler s = kthen (passUpOrDie 1 (s\<lparr>bios := st\<rparr>)) (\<lambda>_ s. kthen (f s) g)" for f g
    using u(2) passUpOrDie_user [OF c cx, of st] by (simp add: syscallHandler_def Let_def)
  then have "syscallHandler s = passUpOrDie 1 (s\<lparr>bios := st\<rparr>)"
    using passUpOrDie_user [OF c cx, of st] by simp
  then show ?thesis using passUpOrDie_user [OF c cx] u(1) False by (simp add: exceptionHandler_def Let_def)
qed

lemma refused_calls:
  assumes h: "cooperative k h" and ad: "addressed k s"
    and u: "exceptionCode (s_cause (bios s)) = 8" "s_status (bios s) AND KUPBITON \<noteq> 0"
    and c: "currentProcess s = Some c" "p_supportStruct (pcbTable s c) = Some k"
    and r: "refused (bios s)" and n: "n = s_reg (bios s) r_a0"
    and cx: "cx = sup_exceptContext (sups s k) GENERALEXCEPT"
  shows "\<exists>s1 tr s'. exceptionHandler s = Exit (LDCXT (c_stackPtr cx) (c_status cx) (c_pc cx)) s1
    \<and> run (supportGenExceptionHandler s1) h 0 = (tr, Terminated s')
    \<and> map fst tr = (GETSUPPORTPTR, 0, 0, 0)
        # (if 11 \<le> n \<and> n \<le> 18 then [(GETSUPPORTPTR, 0, 0, 0)] else [])
        @ [(VERHOGEN, masterSemaphore (link s), 0, 0), (TERMINATEPROCESS, 0, 0, 0)]"
proof -
  define st where "st = (if 9 \<le> sint (s_reg (bios s) r_a0) then bios s
      else (bios s)\<lparr>s_pc := s_pc (bios s) + 4\<rparr>)"
  let ?s1 = "passed_up k GENERALEXCEPT st s"
  have "addressed k ?s1" "current_support ?s1 = Some k" "sup_exceptState (sups ?s1 k) 1 = st"
    using ad c by (simp_all add: passed_up_def addressed_def current_support_def rd_def)
  then obtain s2 where s2: "addressed k s2" "current_support s2 = Some k" "sup_exceptState (sups s2 k) 1 = st"
    "link s2 = link ?s1"
    "run (supportGenExceptionHandler ?s1) h 0 = (case run
       (let code = exceptionCode (s_cause st)
        in if code \<in> {4, 5, 6, 7, 9, 10, 11, 12} then supportProgTrapHandler s2
           else if code = 8 then supportSyscallHandler (SupState k GENERALEXCEPT) s2
           else supTerminate s2) h (Suc 0) of
       (tr, res) \<Rightarrow> (((GETSUPPORTPTR, 0, 0, 0), ?s1) # tr, res))"
    by (rule run_general [OF h, where i = 0])
  have same: "s_cause st = s_cause (bios s)" "s_reg st = s_reg (bios s)" by (simp_all add: st_def)
  then have "refused st" using r by (simp add: refused_def)
  then obtain tr s' where "run (supportSyscallHandler (SupState k GENERALEXCEPT) s2) h (Suc 0) = (tr, Terminated s')"
    "map fst tr = (if 11 \<le> n \<and> n \<le> 18 then [(GETSUPPORTPTR, 0, 0, 0)] else [])
      @ [(VERHOGEN, masterSemaphore (link s), 0, 0), (TERMINATEPROCESS, 0, 0, 0)]"
    using run_refused [OF h s2(1-3), of "Suc 0"] s2(4) same(2) n by (auto simp: passed_up_def)
  then show ?thesis
    using user_syscall_passed_up [OF u c cx st_def] s2(5) same(1) u(1) by simp
qed

lemma program_trap:
  assumes h: "cooperative k h" and ad: "addressed k s" and c: "current_support s = Some k"
    and code: "exceptionCode (s_cause (sup_exceptState (sups s k) GENERALEXCEPT)) \<in> {4, 5, 6, 7, 9, 10, 11, 12}"
  shows "\<exists>tr s'. run (supportGenExceptionHandler s) h 0 = (tr, Terminated s')
    \<and> map fst tr = [(GETSUPPORTPTR, 0, 0, 0), (VERHOGEN, swapPoolSem (link s), 0, 0),
        (VERHOGEN, masterSemaphore (link s), 0, 0), (TERMINATEPROCESS, 0, 0, 0)]"
proof -
  obtain s1 where s1: "addressed k s1" "current_support s1 = Some k" "link s1 = link s"
    "run (supportGenExceptionHandler s) h 0 = (case run (supportProgTrapHandler s1) h (Suc 0) of
       (tr, res) \<Rightarrow> (((GETSUPPORTPTR, 0, 0, 0), s) # tr, res))"
    using run_general [OF h ad c refl, of 0] code by (auto simp: Let_def)
  obtain v t where h1: "h (Suc 0) (VERHOGEN, swapPoolSem (link s1), 0, 0) s1 = (v, t)" by fastforce
  note K = cooperativeD(1) [OF h h1]
  have "current_support t = Some k" using kept_current_support [OF K] s1(2) by simp
  then obtain x y where "run (supTerminate t) h (Suc (Suc 0)) =
      ([((VERHOGEN, masterSemaphore (link t), 0, 0), x), ((TERMINATEPROCESS, 0, 0, 0), y)], Terminated y)"
    using run_supTerminate [OF h, of t "Suc (Suc 0)"] by blast
  then show ?thesis
    using s1(3,4) h1 keptD(1) [OF K] by (simp add: supportProgTrapHandler_def)
qed

section \<open>Properties\<close>

text \<open>C10: A user process cannot reach a service of the nucleus, and a call that is refused ends it,
  from the exception on: a system call made in user mode, by a process with a support structure,
  only saves the processor state there and leaves to the general handler's context; if its number is
  one of the nucleus' or unknown, or its arguments are invalid (an address outside \<open>kuseg\<close>, a length
  outside 1 to 128, a device number outside 0 to 7, a negative delay), the handler's run makes no
  request but those of the end of the process.\<close>

theorem refused_calls_terminate:
  assumes h: "cooperative k h" and ad: "addressed k s"
    and u: "exceptionCode (s_cause (bios s)) = 8" "s_status (bios s) AND KUPBITON \<noteq> 0"
    and c: "currentProcess s = Some c" "p_supportStruct (pcbTable s c) = Some k"
    and r: "refused (bios s)" and n: "n = s_reg (bios s) r_a0"
    and cx: "cx = sup_exceptContext (sups s k) GENERALEXCEPT"
  shows "\<exists>s1 tr s'. exceptionHandler s = Exit (LDCXT (c_stackPtr cx) (c_status cx) (c_pc cx)) s1
    \<and> run (supportGenExceptionHandler s1) h 0 = (tr, Terminated s')
    \<and> map fst tr = (GETSUPPORTPTR, 0, 0, 0)
        # (if 11 \<le> n \<and> n \<le> 18 then [(GETSUPPORTPTR, 0, 0, 0)] else [])
        @ [(VERHOGEN, masterSemaphore (link s), 0, 0), (TERMINATEPROCESS, 0, 0, 0)]"
  by (rule refused_calls [OF assms])

text \<open>C40: A program trap of a user process ends it, after a \<open>V\<close> on the swap pool's semaphore, which
  the handler makes whether the process holds it or not.\<close>

theorem program_trap_terminates:
  assumes h: "cooperative k h" and ad: "addressed k s" and c: "current_support s = Some k"
    and code: "exceptionCode (s_cause (sup_exceptState (sups s k) GENERALEXCEPT)) \<in> {4, 5, 6, 7, 9, 10, 11, 12}"
  shows "\<exists>tr s'. run (supportGenExceptionHandler s) h 0 = (tr, Terminated s')
    \<and> map fst tr = [(GETSUPPORTPTR, 0, 0, 0), (VERHOGEN, swapPoolSem (link s), 0, 0),
        (VERHOGEN, masterSemaphore (link s), 0, 0), (TERMINATEPROCESS, 0, 0, 0)]"
  by (rule program_trap [OF assms])

text \<open>The two handlers of the support level never fall off their end: under every environment a
  run ends by resuming the user process, by \<open>PANIC\<close>, or with the process terminated.\<close>

theorem handlers_never_return:
  "snd (run (supportGenExceptionHandler s) h i) \<noteq> Returned x u
    \<and> snd (run (pagerHandler s) h i) \<noteq> Returned x u"
  using never_returns_handlers by (simp_all add: never_returns_def)

theorem refused_calls_terminate_witness:
  "\<exists>s1 tr s'. exceptionHandler ((user_process zero_state)\<lparr>bios := set_reg r_a0 2 (zero_state\<lparr>s_cause := 32, s_status := 8\<rparr>)\<rparr>) =
      Exit (LDCXT 0 0 0) s1
    \<and> run (supportGenExceptionHandler s1) (alone 0 (\<lambda>_. 1)) 0 = (tr, Terminated s')
    \<and> map fst tr = [(8, 0, 0, 0), (4, 0x20009000, 0, 0), (2, 0, 0, 0)]"
proof -
  let ?b = "set_reg r_a0 2 (zero_state\<lparr>s_cause := 32, s_status := 8\<rparr>)"
  let ?s = "(user_process zero_state)\<lparr>bios := ?b\<rparr>"
  have "addressed 0 ?s" "currentProcess ?s = Some 0" "p_supportStruct (pcbTable ?s 0) = Some 0"
    "sup_exceptContext (sups ?s 0) 1 = \<lparr>c_stackPtr = 0, c_status = 0, c_pc = 0\<rparr>"
    by (simp_all add: user_process_def addressed_def zero_sstate_def zero_link_def zero_support_def)
  then show ?thesis
    using refused_calls_terminate [OF alone_cooperative [of 0 "\<lambda>_. 1"], of ?s 0 2 "\<lparr>c_stackPtr = 0, c_status = 0, c_pc = 0\<rparr>"]
    by (simp add: exceptionCode_def refused_def zero_link_def)
qed

theorem program_trap_terminates_witness:
  "\<exists>tr s'. run (supportGenExceptionHandler (user_process (zero_state\<lparr>s_cause := 40\<rparr>))) (alone 0 (\<lambda>_. 1)) 0 =
      (tr, Terminated s')
    \<and> map fst tr = [(8, 0, 0, 0), (4, 0x20009004, 0, 0), (4, 0x20009000, 0, 0), (2, 0, 0, 0)]"
  using program_trap_terminates [OF alone_cooperative [of 0 "\<lambda>_. 1"], of "user_process (zero_state\<lparr>s_cause := 40\<rparr>)"]
  by (simp add: exceptionCode_def zero_link_def)

end
