(* ===== verification/Forest.thy ===== *)
theory Forest
  imports Handlers
begin

text \<open>
  The processes of the whole system as a forest: every tree's root has no parent.  A new process is
  grafted on its creator's node, a terminated one is pruned with its progeny.
\<close>

section \<open>Subtrees\<close>

fun subtrees :: "ptree \<Rightarrow> ptree list" where
  "subtrees (PNode p ts) = PNode p ts # concat (map subtrees ts)"

lemma self_subtree [simp]: "T \<in> set (subtrees T)"
  by (cases T) simp

lemma subtree_procs: "T' \<in> set (subtrees T) \<Longrightarrow> set (procs T') \<subseteq> set (procs T)"
  by (induction T) fastforce

lemma subtree_is_tree: "T' \<in> set (subtrees T) \<Longrightarrow> is_tree t T \<Longrightarrow> is_tree t T'"
  by (induction T) auto

lemma subtree_distinct: "T' \<in> set (subtrees T) \<Longrightarrow> distinct (procs T) \<Longrightarrow> distinct (procs T')"
proof (induction T)
  case (PNode p ts)
  then show ?case using distinct_concat_kid [of ts] by fastforce
qed

lemma subtree_at: "c \<in> set (procs T) \<Longrightarrow> \<exists>us. PNode c us \<in> set (subtrees T)"
proof (induction T)
  case (PNode p ts)
  show ?case
  proof (cases "c = p")
    case False
    then obtain Ti where "Ti \<in> set ts" "c \<in> set (procs Ti)" using PNode.prems by auto
    then show ?thesis using PNode.IH by fastforce
  qed auto
qed

lemma subtree_parent:
  "c \<in> set (procs T) \<Longrightarrow> c \<noteq> proot T \<Longrightarrow> \<exists>q us Tc. PNode q us \<in> set (subtrees T) \<and> Tc \<in> set us \<and> proot Tc = c"
proof (induction T)
  case (PNode p ts)
  then obtain Ti where Ti: "Ti \<in> set ts" "c \<in> set (procs Ti)" by auto
  show ?case
  proof (cases "c = proot Ti")
    case True
    then show ?thesis using Ti(1) by (intro exI [of _ p] exI [of _ ts] exI [of _ Ti]) simp
  next
    case False
    then show ?thesis using PNode.IH [OF Ti(1,2)] Ti(1) by auto
  qed
qed

lemma distinct_kids:
  assumes "distinct (concat (map procs ts))" "T \<in> set ts" "T' \<in> set ts" "T \<noteq> T'"
  shows "set (procs T) \<inter> set (procs T') = {}"
  using assms
proof (induction ts)
  case (Cons U us)
  have "set (procs U) \<inter> set (procs V) = {}" if "V \<in> set us" for V
    using Cons.prems(1) procs_kid [OF that] by auto
  then show ?case using Cons by auto
qed simp

lemma distinct_roots: "distinct (concat (map procs ts)) \<Longrightarrow> distinct (map proot ts)"
proof (induction ts)
  case (Cons T ts)
  have "proot T \<notin> set (map proot ts)" using Cons.prems proot_in_procs [of T] roots_sub [of ts] by auto
  then show ?case using Cons by simp
qed simp

section \<open>Grafting\<close>

fun graft :: "nat \<Rightarrow> nat \<Rightarrow> ptree \<Rightarrow> ptree" where
  "graft c n (PNode p ts) = PNode p ((if p = c then [PNode n []] else []) @ map (graft c n) ts)"

lemma proot_graft [simp]: "proot (graft c n T) = proot T"
  by (cases T) simp

lemma graft_absent: "c \<notin> set (procs T) \<Longrightarrow> graft c n T = T"
proof (induction T)
  case (PNode p ts)
  then have "map (graft c n) ts = ts" by (intro map_idI) auto
  then show ?case using PNode.prems by simp
qed

lemma graft_kids:
  assumes "distinct (concat (map procs ts))" and "Ti \<in> set ts" and "c \<in> set (procs Ti)" and "T \<in> set ts"
  shows "graft c n T = (if T = Ti then graft c n Ti else T)"
  using assms distinct_kids [OF assms(1,2,4)] graft_absent by auto

lemma procs_graft:
  assumes "c \<in> set (procs T)" and "distinct (procs T)" and "n \<notin> set (procs T)"
  shows "set (procs (graft c n T)) = insert n (set (procs T)) \<and> distinct (procs (graft c n T))"
  using assms
proof (induction T)
  case (PNode p ts)
  show ?case
  proof (cases "p = c")
    case True
    then have "map (graft c n) ts = ts" using PNode.prems(2) by (intro map_idI graft_absent) auto
    then show ?thesis using True PNode.prems by auto
  next
    case False
    then obtain Ti where Ti: "Ti \<in> set ts" "c \<in> set (procs Ti)" using PNode.prems(1) by auto
    then obtain us vs where ts: "ts = us @ Ti # vs" by (meson split_list)
    have d: "distinct (concat (map procs ts))" using PNode.prems(2) by simp
    have "c \<notin> set (procs T)" if "T \<in> set (us @ vs)" for T
      using that d Ti(2) unfolding ts by auto
    then have m: "map (graft c n) us = us" "map (graft c n) vs = vs" by (simp_all add: map_idI graft_absent)
    have i: "set (procs (graft c n Ti)) = insert n (set (procs Ti)) \<and> distinct (procs (graft c n Ti))"
      using PNode.IH [OF Ti] PNode.prems(2,3) distinct_concat_kid [OF d Ti(1)] Ti(1) by auto
    show ?thesis using PNode.prems False i by (auto simp: ts m)
  qed
qed

lemma seg_unique: "seg t q l c xs a NULL \<Longrightarrow> seg t q l c ys b NULL \<Longrightarrow> xs = ys"
proof (induction xs arbitrary: l c ys)
  case Nil
  then show ?case by (cases ys) auto
next
  case (Cons x xs)
  then show ?case by (cases ys) auto
qed

lemma children_unique: "children t q xs \<Longrightarrow> children t q ys \<Longrightarrow> xs = ys"
  unfolding children_def using seg_unique by blast

lemma is_tree_graft:
  assumes "is_tree t T" and "distinct (procs T)" and "n \<notin> set (procs T)"
    and ch: "children t c xs" "children t' c (n # xs)" "children t' n []"
    and child: "\<And>i. i \<noteq> c \<Longrightarrow> i \<noteq> n \<Longrightarrow> p_child (t' i) = p_child (t i)"
    and place: "\<And>i. i \<notin> insert n (set xs) \<Longrightarrow> p_prnt (t' i) = p_prnt (t i)
      \<and> p_sib_left (t' i) = p_sib_left (t i) \<and> p_sib_right (t' i) = p_sib_right (t i)"
  shows "is_tree t' (graft c n T)"
  using assms(1-3)
proof (induction T)
  case (PNode p ts)
  have kids: "children t p (map proot ts)" using PNode.prems(1) by simp
  have sub: "\<forall>T \<in> set (map (graft c n) ts). is_tree t' T"
  proof
    fix U assume "U \<in> set (map (graft c n) ts)"
    then obtain T where T: "T \<in> set ts" "U = graft c n T" by auto
    have "distinct (concat (map procs ts))" using PNode.prems(2) by simp
    then show "is_tree t' U"
      unfolding T(2) using PNode.IH [OF T(1)] PNode.prems(1,3) T(1) distinct_concat_kid [OF _ T(1)] by auto
  qed
  show ?case
  proof (cases "p = c")
    case True
    then have "map proot ts = xs" using children_unique [OF kids] ch(1) by simp
    then show ?thesis using True ch(2,3) sub by (simp add: comp_def)
  next
    case False
    have "children t' p (map proot ts) = children t p (map proot ts)"
    proof (rule children_cong)
      show "p_child (t' p) = p_child (t p)" using PNode.prems(3) False by (intro child) auto
      fix x assume x: "x \<in> set (map proot ts)"
      then have "p_prnt (t x) = Some p" by (rule children_parent [OF kids])
      then have "x \<notin> set xs" using children_parent [OF ch(1), of x] False by auto
      moreover have "x \<noteq> n" using x PNode.prems(3) roots_sub [of ts] by auto
      ultimately show "p_prnt (t' x) = p_prnt (t x) \<and> p_sib_left (t' x) = p_sib_left (t x)
          \<and> p_sib_right (t' x) = p_sib_right (t x)" by (intro place) simp
    qed
    then show ?thesis using False kids sub by (simp add: comp_def)
  qed
qed

section \<open>Pruning\<close>

fun prune :: "nat \<Rightarrow> ptree \<Rightarrow> ptree" where
  "prune c (PNode p ts) = PNode p (map (prune c) (filter (\<lambda>T. proot T \<noteq> c) ts))"

lemma proot_prune [simp]: "proot (prune c T) = proot T"
  by (cases T) simp

lemma prune_absent: "c \<notin> set (procs T) \<Longrightarrow> prune c T = T"
proof (induction T)
  case (PNode p ts)
  have "\<forall>T \<in> set ts. proot T \<noteq> c" using PNode.prems proot_in_procs by fastforce
  then have "filter (\<lambda>T. proot T \<noteq> c) ts = ts" by (simp add: filter_id_conv)
  moreover have "map (prune c) ts = ts" using PNode by (intro map_idI) auto
  ultimately show ?case by simp
qed

text \<open>The tree \<open>Tc\<close> of \<open>c\<close> is a child of the node \<open>q\<close>, which is in the tree \<open>T\<close>.\<close>

lemma prune_node:
  assumes "distinct (procs (PNode q us))" and "Tc \<in> set us" and "proot Tc = c"
  shows "prune c (PNode q us) = PNode q (remove1 Tc us)"
    and "map proot (remove1 Tc us) = remove1 c (map proot us)"
    and "set (procs (PNode q (remove1 Tc us))) = set (procs (PNode q us)) - set (procs Tc)"
    and "distinct (procs (PNode q (remove1 Tc us)))"
proof -
  have d: "distinct (concat (map procs us))" using assms(1) by simp
  obtain as bs where us: "us = as @ Tc # bs" "Tc \<notin> set as" using split_list_first [OF assms(2)] by blast
  have r: "remove1 Tc us = as @ bs" using us by (simp add: remove1_append)
  have no: "c \<notin> set (procs T)" if "T \<in> set (as @ bs)" for T
    using that d assms(3) proot_in_procs [of Tc] unfolding us by auto
  then have n: "proot T \<noteq> c" "prune c T = T" if "T \<in> set (as @ bs)" for T
    using that proot_in_procs prune_absent by metis+
  then have "filter (\<lambda>T. proot T \<noteq> c) us = as @ bs" using assms(3) by (auto simp: us filter_id_conv)
  moreover have "map (prune c) (as @ bs) = as @ bs" using n(2) by (intro map_idI) auto
  ultimately show "prune c (PNode q us) = PNode q (remove1 Tc us)" using r by simp
  have "c \<notin> set (map proot as)" using n(1) by auto
  then show "map proot (remove1 Tc us) = remove1 c (map proot us)"
    unfolding r by (simp add: us assms(3) remove1_append)
  show "set (procs (PNode q (remove1 Tc us))) = set (procs (PNode q us)) - set (procs Tc)"
    "distinct (procs (PNode q (remove1 Tc us)))"
    unfolding r using assms(1) by (auto simp: us)
qed

lemma subtree_below:
  assumes "PNode q us \<in> set (subtrees T)" and "distinct (procs T)"
  shows "proot T \<notin> set (concat (map procs us))"
proof (cases T)
  case (PNode p ts)
  show ?thesis
  proof (cases "PNode q us = T")
    case True
    then show ?thesis using assms(2) PNode by auto
  next
    case False
    then obtain Ti where "Ti \<in> set ts" "PNode q us \<in> set (subtrees Ti)" using assms(1) PNode by auto
    then have "set (concat (map procs us)) \<subseteq> set (concat (map procs ts))"
      using subtree_procs [of "PNode q us" Ti] by fastforce
    then show ?thesis using assms(2) PNode by auto
  qed
qed

lemma prune_sibling:
  assumes d: "distinct (procs (PNode q us))" and Tc: "Tc \<in> set us" and U: "U \<in> set us" "U \<noteq> Tc"
    and t: "is_tree t U"
    and child: "\<And>i. i \<notin> set (procs Tc) \<Longrightarrow> i \<noteq> q \<Longrightarrow> p_child (t' i) = p_child (t i)"
    and place: "\<And>i. i \<notin> set (procs Tc) \<Longrightarrow> i \<notin> set (map proot us) \<Longrightarrow> p_prnt (t' i) = p_prnt (t i)
      \<and> p_sib_left (t' i) = p_sib_left (t i) \<and> p_sib_right (t' i) = p_sib_right (t i)"
  shows "is_tree t' U"
proof -
  have dk: "distinct (concat (map procs us))" using d by simp
  have off: "x \<notin> set (procs Tc)" "x \<noteq> q" if "x \<in> set (procs U)" for x
    using that distinct_kids [OF dk U(1) Tc U(2)] d U(1) by auto
  have "is_tree t' U = is_tree t U"
  proof (rule is_tree_cong)
    fix x assume "x \<in> set (procs U)"
    then show "p_child (t' x) = p_child (t x)" using off by (intro child)
  next
    fix x assume x: "x \<in> set (butlast (procs U))"
    then have xU: "x \<in> set (procs U)" by (rule in_set_butlastD)
    have "distinct (butlast (procs U) @ [proot U])"
      using distinct_concat_kid [OF dk U(1)] procs_last [of U] by simp
    then have "x \<noteq> proot U" using x by auto
    have "x \<notin> set (map proot us)"
    proof
      assume "x \<in> set (map proot us)"
      then obtain V where V: "V \<in> set us" "x = proot V" by auto
      then have "x \<in> set (procs V)" using proot_in_procs by simp
      then have "V = U" using distinct_kids [OF dk U(1) V(1)] xU by blast
      then show False using V(2) \<open>x \<noteq> proot U\<close> by simp
    qed
    then show "p_prnt (t' x) = p_prnt (t x) \<and> p_sib_left (t' x) = p_sib_left (t x)
        \<and> p_sib_right (t' x) = p_sib_right (t x)"
      using off(1) [OF xU] by (intro place)
  qed
  then show ?thesis using t by simp
qed

lemma prune_tree:
  assumes "PNode q us \<in> set (subtrees T)" and Tc: "Tc \<in> set us" "proot Tc = c"
    and "is_tree t T" and "distinct (procs T)"
    and ch: "children t' q (remove1 c (map proot us))"
    and child: "\<And>i. i \<notin> set (procs Tc) \<Longrightarrow> i \<noteq> q \<Longrightarrow> p_child (t' i) = p_child (t i)"
    and place: "\<And>i. i \<notin> set (procs Tc) \<Longrightarrow> i \<notin> set (map proot us) \<Longrightarrow> p_prnt (t' i) = p_prnt (t i)
      \<and> p_sib_left (t' i) = p_sib_left (t i) \<and> p_sib_right (t' i) = p_sib_right (t i)"
  shows "is_tree t' (prune c T) \<and> set (procs (prune c T)) = set (procs T) - set (procs Tc)
    \<and> distinct (procs (prune c T))"
  using assms(1,4,5)
proof (induction T)
  case (PNode p ts)
  show ?case
  proof (cases "PNode q us = PNode p ts")
    case True
    then have d: "distinct (procs (PNode q us))" using PNode.prems(3) by simp
    note N = prune_node [OF d Tc]
    have "is_tree t' U" if U: "U \<in> set (remove1 Tc us)" for U
    proof (rule prune_sibling [OF d Tc(1) _ _ _ child place])
      show "U \<in> set us" using U set_remove1_subset [of Tc us] by blast
      then show "is_tree t U" using PNode.prems(2) True by simp
      have "distinct us" using distinct_map [of proot us] distinct_roots [of us] d by simp
      then show "U \<noteq> Tc" using U by auto
    qed
    then have "is_tree t' (PNode q (remove1 Tc us))" using ch N(2) by simp
    then show ?thesis using N(1,3,4) True by simp
  next
    case False
    then obtain Ti where Ti: "Ti \<in> set ts" "PNode q us \<in> set (subtrees Ti)" using PNode.prems(1) by auto
    have d: "distinct (concat (map procs ts))" using PNode.prems(3) by simp
    have di: "distinct (procs Ti)" by (rule distinct_concat_kid [OF d Ti(1)])
    have us: "set (concat (map procs us)) \<subseteq> set (procs Ti)" "q \<in> set (procs Ti)"
      using subtree_procs [OF Ti(2)] by auto
    have root: "proot Ti \<notin> set (concat (map procs us))" by (rule subtree_below [OF Ti(2) di])
    have Tcus: "set (procs Tc) \<subseteq> set (concat (map procs us))" "set (map proot us) \<subseteq> set (concat (map procs us))"
      "c \<in> set (concat (map procs us))"
      using Tc roots_sub proot_in_procs [of Tc] procs_kid [OF Tc(1)] by auto
    have IH: "is_tree t' (prune c Ti) \<and> set (procs (prune c Ti)) = set (procs Ti) - set (procs Tc)
        \<and> distinct (procs (prune c Ti))"
      using PNode.IH [OF Ti(1,2)] PNode.prems(2) Ti(1) di by simp
    obtain as bs where ts: "ts = as @ Ti # bs" using Ti(1) by (meson split_list)
    have other: "x \<notin> set (procs Ti)" if "x \<in> set (procs T)" "T \<in> set (as @ bs)" for x T
      using that d unfolding ts by auto
    have "prune c T = T" "proot T \<noteq> c" if "T \<in> set (as @ bs)" for T
    proof -
      have "c \<notin> set (procs T)" using other [OF _ that] us(1) Tcus(3) by blast
      then show "prune c T = T" "proot T \<noteq> c" using prune_absent proot_in_procs by metis+
    qed
    moreover have "proot Ti \<noteq> c" using root Tcus(3) by auto
    ultimately have f: "prune c (PNode p ts) = PNode p (as @ prune c Ti # bs)"
      by (auto simp: ts filter_id_conv intro!: map_idI)
    have "children t' p (map proot ts) = children t p (map proot ts)"
    proof (rule children_cong)
      have "p \<notin> set (procs Ti)" using PNode.prems(3) Ti(1) by auto
      then have "p \<notin> set (procs Tc)" "p \<noteq> q" using us Tcus(1) by blast+
      then show "p_child (t' p) = p_child (t p)" by (rule child)
      fix x assume "x \<in> set (map proot ts)"
      then obtain U where U: "U = Ti \<or> U \<in> set (as @ bs)" "x = proot U" unfolding ts by auto
      have x: "x \<notin> set (concat (map procs us))"
      proof (cases "U = Ti")
        case False
        then have "x \<notin> set (procs Ti)" using U proot_in_procs by (intro other) auto
        then show ?thesis using us(1) by blast
      qed (use root U(2) in simp)
      then show "p_prnt (t' x) = p_prnt (t x) \<and> p_sib_left (t' x) = p_sib_left (t x)
          \<and> p_sib_right (t' x) = p_sib_right (t x)"
        using Tcus by (intro place) auto
    qed
    moreover have "is_tree t' T" if T: "T \<in> set (as @ bs)" for T
    proof -
      have "is_tree t' T = is_tree t T"
      proof (rule is_tree_cong)
        fix x assume "x \<in> set (procs T)"
        then show "p_child (t' x) = p_child (t x)" using other [OF _ T] us Tcus(1) by (intro child) blast+
      next
        fix x assume "x \<in> set (butlast (procs T))"
        then have "x \<in> set (procs T)" by (rule in_set_butlastD)
        then show "p_prnt (t' x) = p_prnt (t x) \<and> p_sib_left (t' x) = p_sib_left (t x)
            \<and> p_sib_right (t' x) = p_sib_right (t x)"
          using other [OF _ T] us Tcus by (intro place) blast+
      qed
      then show ?thesis using PNode.prems(2) T ts by auto
    qed
    ultimately have "is_tree t' (prune c (PNode p ts))"
      unfolding f using PNode.prems(2) IH by (auto simp: ts)
    moreover have "set (procs (prune c (PNode p ts))) = set (procs (PNode p ts)) - set (procs Tc)"
      "distinct (procs (prune c (PNode p ts)))"
    proof -
      have X: "set (procs Tc) \<subseteq> set (procs Ti)" using us(1) Tcus(1) by blast
      have p: "p \<notin> set (procs Ti)" using PNode.prems(3) Ti(1) by auto
      show "set (procs (prune c (PNode p ts))) = set (procs (PNode p ts)) - set (procs Tc)"
        unfolding f using IH X p other by (auto simp: ts)
      show "distinct (procs (prune c (PNode p ts)))"
        unfolding f using IH PNode.prems(3) by (auto simp: ts)
    qed
    ultimately show ?thesis by blast
  qed
qed

end
