(* ===== verification/KernelStep.thy ===== *)
theory KernelStep
  imports Forest NucleusSpec
begin

text \<open>
  The invariant of the whole nucleus, \<open>kernel_ok\<close>: every PCB is in one place (\<open>kq\<close>), the semaphores
  obey their law (\<open>sems\<close>), the processes that are not free form a forest, the process count and the
  free list agree, and the current process is not in a queue.  Each handler, entered with the
  invariant, is defined on every path and leaves with it (\<open>fine\<close>, \<open>leaves\<close>).
\<close>

section \<open>The invariant\<close>

definition forest :: "(nat \<Rightarrow> pcb_t) \<Rightarrow> ptree list \<Rightarrow> bool" where
  "forest t ts \<longleftrightarrow> (\<forall>T \<in> set ts. is_tree t T \<and> p_prnt (t (proot T)) = NULL)
     \<and> distinct (concat (map procs ts))"

definition kbase :: "'z kstate_scheme \<Rightarrow> nat list \<Rightarrow> nat list \<Rightarrow> (u32 \<Rightarrow> nat list) \<Rightarrow> nat set
    \<Rightarrow> ptree list \<Rightarrow> bool" where
  "kbase s fr rq B L ts \<longleftrightarrow> kq s fr rq B L \<and> sems s B \<and> forest (pcbTable s) ts
     \<and> set (concat (map procs ts)) = {..<MAXPROC} - set fr \<and> cnt s + length fr \<le> MAXPROC"

definition kernel_ok :: "'z kstate_scheme \<Rightarrow> bool" where
  "kernel_ok s \<longleftrightarrow> (\<exists>fr rq B L ts. kbase s fr rq B L ts \<and> set_option (currentProcess s) \<subseteq> L)"

lemma kernel_okE:
  assumes "kernel_ok s"
  obtains fr rq B L ts where "kbase s fr rq B L ts" "set_option (currentProcess s) \<subseteq> L"
  using assms by (auto simp: kernel_ok_def)

lemma kbaseD:
  assumes "kbase s fr rq B L ts"
  shows "kq s fr rq B L" "sems s B" "forest (pcbTable s) ts"
    "set (concat (map procs ts)) = {..<MAXPROC} - set fr" "cnt s + length fr \<le> MAXPROC"
  using assms by (simp_all add: kbase_def)

text \<open>Where a handler may leave the kernel to: with the invariant, or for good.\<close>

definition good :: "link_map \<Rightarrow> 'z kstate_scheme \<Rightarrow> bool" where
  "good l s \<longleftrightarrow> kernel_ok s \<and> link s = l"

definition fine :: "link_map \<Rightarrow> ('z kstate_scheme, 'a) kres \<Rightarrow> bool" where
  "fine l r \<longleftrightarrow> kpost r (\<lambda>_. good l) (\<lambda>e s. e = HALT \<or> good l s)"

definition leaves :: "link_map \<Rightarrow> ('z kstate_scheme, 'a) kres \<Rightarrow> bool" where
  "leaves l r \<longleftrightarrow> kpost r (\<lambda>_ _. False) (\<lambda>e s. e = HALT \<or> good l s)"

lemma fine_simps [simp]:
  "fine l (Ret x s) = good l s" "fine l (Exit e s) = (e = HALT \<or> good l s)" "\<not> fine l Stuck"
  "leaves l (Exit e s) = (e = HALT \<or> good l s)" "\<not> leaves l (Ret x s)" "\<not> leaves l Stuck"
  by (simp_all add: fine_def leaves_def)

lemma leaves_fine: "leaves l r \<Longrightarrow> fine l r"
  by (cases r) simp_all

lemma fine_kthen: "fine l r \<Longrightarrow> (\<And>x s. good l s \<Longrightarrow> fine l (f x s)) \<Longrightarrow> fine l (kthen r f)"
  by (cases r) simp_all

lemma leaves_kthen: "fine l r \<Longrightarrow> (\<And>x s. good l s \<Longrightarrow> leaves l (f x s)) \<Longrightarrow> leaves l (kthen r f)"
  by (cases r) simp_all

lemma leaves_first: "leaves l r \<Longrightarrow> leaves l (kthen r f)"
  by (cases r) simp_all

lemma leavesD: "leaves l r \<Longrightarrow> \<exists>e s. r = Exit e s \<and> (e = HALT \<or> good l s)"
  by (cases r) simp_all

section \<open>Changes of the invariant's state\<close>

lemma same_treeD:
  assumes "same_tree s s'"
  shows "p_prnt (pcbTable s' i) = p_prnt (pcbTable s i)" "p_child (pcbTable s' i) = p_child (pcbTable s i)"
    "p_sib_right (pcbTable s' i) = p_sib_right (pcbTable s i)"
    "p_sib_left (pcbTable s' i) = p_sib_left (pcbTable s i)"
  using assms by (simp_all add: same_tree_def)

lemma forest_same_tree:
  assumes "same_tree s s'" and "forest (pcbTable s) ts"
  shows "forest (pcbTable s') ts"
proof -
  have "is_tree (pcbTable s') T = is_tree (pcbTable s) T" for T
    by (rule is_tree_cong) (simp_all add: same_treeD [OF assms(1)])
  then show ?thesis using assms(2) same_treeD(1) [OF assms(1)] by (simp add: forest_def)
qed

lemma kbase_step:
  assumes "kbase s fr rq B L ts" and "kq s' fr rq' B' L'" and "sems s' B'" and "same_tree s s'"
    and "processCount s' = processCount s"
  shows "kbase s' fr rq' B' L' ts"
  using assms forest_same_tree [OF assms(4)] by (simp add: kbase_def cnt_def)

lemma goodI:
  "kbase s fr rq B L ts \<Longrightarrow> set_option (currentProcess s) \<subseteq> L \<Longrightarrow> link s = l \<Longrightarrow> good l s"
  unfolding good_def kernel_ok_def by blast

lemma goodE:
  assumes "good l s"
  obtains fr rq B L ts where "kbase s fr rq B L ts" "set_option (currentProcess s) \<subseteq> L" "link s = l"
  using assms by (auto simp: good_def elim: kernel_okE)

text \<open>Changes of the fields that the invariant does not read.\<close>

lemma kbase_rest:
  assumes "kbase s fr rq B L ts" and "kq s' = kq s" and "mem s' = mem s" and "same_tree s s'"
    and "processCount s' = processCount s"
  shows "kbase s' fr rq B L ts"
  by (rule kbase_step [OF assms(1)]) (use assms kbaseD [OF assms(1)] in \<open>simp_all add: sems_def\<close>)

lemma good_rest:
  assumes "good l s" and "kq s' = kq s" and "mem s' = mem s" and "same_tree s s'"
    and "processCount s' = processCount s" and "currentProcess s' = currentProcess s" and "link s' = link s"
  shows "good l s'"
proof -
  obtain fr rq B L ts where g: "kbase s fr rq B L ts" "set_option (currentProcess s) \<subseteq> L" "link s = l"
    using assms(1) by (rule goodE)
  show ?thesis by (rule goodI [OF kbase_rest [OF g(1) assms(2-5)]]) (use g assms(6,7) in simp_all)
qed

lemma good_upd [simp]:
  assumes "good l s"
  shows "good l (s\<lparr>softBlockCount := w\<rparr>)" "good l (s\<lparr>bios := b\<rparr>)" "good l (s\<lparr>sups := u\<rparr>)"
    "good l (set_saved_reg r v s)" "good l (setTIMER v s)" "good l (snd (STCK s))" "good l (charged c s)"
    "good l (s\<lparr>cpu := x, tlb_log := y\<rparr>)"
proof -
  have "kq (s\<lparr>cpu := x, tlb_log := y\<rparr>) = kq s" using kq_rest(3,5) by metis
  then show "good l (s\<lparr>cpu := x, tlb_log := y\<rparr>)" by (intro good_rest [OF assms]) (simp_all add: same_tree_def)
  show "good l (charged c s)" by (rule good_rest [OF assms]) simp_all
qed (rule good_rest [OF assms];
    simp add: same_tree_def set_saved_reg_def setTIMER_def STCK_def; fail)+

section \<open>The scheduler\<close>

lemma scheduler_leaves:
  assumes "kbase s fr rq B L ts"
  shows "leaves (link s) (scheduler s)"
proof -
  obtain s' where s': "scheduler s = Exit (next_exit s rq) s'"
    "kq s' fr (tl rq) B (set_option (first_of rq) \<union> L)" "currentProcess s' = first_of rq" "kstep s s'"
    using scheduler_post [OF kbaseD(1) [OF assms]] by blast
  note K = kstepD [OF s'(4)]
  have "kbase s' fr (tl rq) B (set_option (first_of rq) \<union> L) ts"
    by (rule kbase_step [OF assms s'(2) _ same_tree_frames(2) [OF s'(4)] K(5)])
      (use kbaseD(2) [OF assms] K(2) in \<open>simp add: sems_def\<close>)
  then have "good (link s) s'" using s'(3) K(1) by (intro goodI) auto
  then show ?thesis by (simp add: s'(1))
qed

lemma good_scheduler: "good l s \<Longrightarrow> leaves l (scheduler s)"
  by (auto elim!: goodE dest: scheduler_leaves)

section \<open>Semaphores\<close>

text \<open>An address at which a semaphore may be: a word of RAM.\<close>

definition sem_addr :: "u32 \<Rightarrow> bool" where
  "sem_addr a \<longleftrightarrow> RAMSTART \<le> a \<and> a < MAXINT"

lemma sems_block:
  assumes "sems s B" and "RAMSTART \<le> a" and "int_min < sint (mem s a)" and "sint (mem s a - 1) < 0"
    and "mem s' = (mem s)(a := mem s a - 1)"
  shows "sems s' (B(a := B a @ [c]))"
proof (rule sems_step [OF assms(1,2)])
  have "sint (mem s a - 1) = sint (mem s a) - 1" by (rule sint_dec [OF assms(3)])
  moreover have "int (length (B a)) \<le> max 0 (- sint (mem s a))" using assms(1) by (simp add: sems_def)
  ultimately show "sem_law (sem_at s' (B(a := B a @ [c])) a)"
    using assms(4,5) by (simp add: sem_law_def sem_at_def)
qed (simp add: sem_at_def assms(5))

lemma sems_pass:
  assumes "sems s B" and "0 \<le> sint (v :: u32)" and "0 \<le> sint (mem s a)" and "mem s' = (mem s)(a := v)"
  shows "sems s' B"
proof -
  have "B a = []" using assms(1,3) by (auto simp: sems_def dest: spec [of _ a])
  then show ?thesis using assms(1,4) by (auto simp: sems_def)
qed

lemma passeren_fine:
  assumes g: "good l s" and c: "currentProcess s = Some c" and a: "sem_addr a"
    and v: "int_min < sint (mem s a)"
  shows "fine l (sysPasseren a s)"
proof -
  obtain fr rq B L ts where k: "kbase s fr rq B L ts" "c \<in> L" "link s = l"
    using goodE [OF g] c by (metis (no_types, lifting) option.set_intros subsetD)
  note K = kbaseD [OF k(1)]
  define s1 where "s1 = store_word a (mem s a - 1) (charged c s)"
  have s1: "kq s1 fr rq B L" "mem s1 = (mem s)(a := mem s a - 1)" "same_tree s s1"
    "processCount s1 = processCount s" "currentProcess s1 = Some c" "link s1 = l"
    using K(1) c k(3) same_tree_charged [of s c] by (simp_all add: s1_def same_tree_def)
  have a': "RAMSTART \<le> a" "a < MAXINT" using a by (simp_all add: sem_addr_def)
  note run = sysPasseren_cases [OF K(1) c k(2) a'(2), folded s1_def]
  show ?thesis
  proof (cases "0 \<le> sint (mem s a - 1)")
    case True
    then have "sems s1 B" using sint_dec [OF v] s1(2) by (intro sems_pass [OF K(2)]) auto
    then have "good l s1" using kbase_step [OF k(1) s1(1) _ s1(3,4)] k(2) s1(5,6) by (intro goodI) auto
    then show ?thesis using run(1) True by simp
  next
    case False
    then obtain s2 where s2: "sysPasseren a s = scheduler s2"
      "kq s2 fr rq (B(a := B a @ [c])) (L - {c})" "kframe (parked a c s1) s2"
      using run(2) by auto
    have "same_tree s (parked a c s1)"
      by (rule same_tree_trans [OF s1(3)]) (simp add: same_tree_def parked_def)
    then have t: "same_tree s s2" by (rule same_tree_trans [OF _ same_tree_frames(1) [OF s2(3)]])
    have m: "mem s2 = (mem s)(a := mem s a - 1)" "processCount s2 = processCount s" "link s2 = l"
      using s2(3) s1 by (simp_all add: kframe_def parked_def)
    have "sems s2 (B(a := B a @ [c]))" by (rule sems_block [OF K(2) a'(1) v _ m(1)]) (use False in simp)
    then have "kbase s2 fr rq (B(a := B a @ [c])) (L - {c}) ts" by (rule kbase_step [OF k(1) s2(2) _ t m(2)])
    then show ?thesis using leaves_fine [OF scheduler_leaves] m(3) s2(1) by metis
  qed
qed

text \<open>A semaphore that nobody waits on may be given any value.\<close>

lemma good_store:
  assumes "kbase s fr rq B L ts" and "set_option (currentProcess s) \<subseteq> L" and "B a = []"
  shows "good (link s) (store_word a v s)"
proof -
  have "kbase (store_word a v s) fr rq B L ts"
    by (rule kbase_step [OF assms(1)])
      (use kbaseD [OF assms(1)] assms(3) in \<open>simp_all add: sems_low same_tree_def\<close>)
  then show ?thesis using assms(2) by (intro goodI) simp_all
qed

lemma nobody_waits: "sems s B \<Longrightarrow> 0 \<le> sint (mem s a) \<Longrightarrow> B a = []"
  by (auto simp: sems_def dest: spec [of _ a])

lemma verhogen_fine:
  assumes g: "good l s" and a: "sem_addr a"
  shows "fine l (sysVerhogen a s)"
proof -
  obtain fr rq B L ts where k: "kbase s fr rq B L ts" "set_option (currentProcess s) \<subseteq> L" "link s = l"
    using goodE [OF g] by blast
  note K = kbaseD [OF k(1)]
  have a': "RAMSTART \<le> a" "a < MAXINT" using a by (simp_all add: sem_addr_def)
  show ?thesis
  proof (cases "B a = []")
    case True
    let ?s = "store_word a (mem s a + 1) s"
    have "removeBlocked a ?s = Some (NULL, ?s)"
      using K(1) True a'(2) by (intro removeBlocked_none [where B = B]) (simp_all add: kqD(3) [where s = ?s])
    then have "sysVerhogen a s = Ret () ?s" by (simp add: sysVerhogen_def Let_def)
    then show ?thesis using good_store [OF k(1,2) True] k(3) by simp
  next
    case False
    then have "sint (mem s a) < int_max" using nobody_waits [OF K(2), of a] by fastforce
    moreover obtain sq woken where V: "sem_V (sem_at s B a) = (sq, woken)" by fastforce
    ultimately obtain s' where s': "sysVerhogen a s = Ret () s'" "sem_step a sq s B s' (B(a := snd sq))"
      "kq s' fr (rq @ (case woken of NULL \<Rightarrow> [] | Some p \<Rightarrow> [p])) (B(a := snd sq)) L"
      "currentProcess s' = currentProcess s" "kstep (store_word a (mem s a + 1) s) s'"
      using verhogen_step [OF K(1,2) a'] by blast
    note S = kstepD [OF s'(5)]
    have "same_tree s s'"
      by (rule same_tree_trans [OF same_tree_table same_tree_frames(2) [OF s'(5)]]) simp
    moreover have "sems s' (B(a := snd sq))" using s'(2) by (simp add: sem_step_def)
    ultimately have "kbase s' fr (rq @ (case woken of NULL \<Rightarrow> [] | Some p \<Rightarrow> [p])) (B(a := snd sq)) L ts"
      using S(5) by (intro kbase_step [OF k(1) s'(3)]) simp_all
    then have "good l s'" by (rule goodI) (use s'(4) k(2,3) S(1) in simp_all)
    then show ?thesis by (simp add: s'(1))
  qed
qed

text \<open>The device semaphores are in RAM.\<close>

definition link_ok :: "link_map \<Rightarrow> bool" where
  "link_ok l \<longleftrightarrow> RAMSTART \<le> deviceSemaphores l \<and> unat (deviceSemaphores l) + 192 < 2 ^ 31 - 1"

lemma devsem_addr:
  assumes "link_ok (link s)" and "i \<le> NUM_DEVICES"
  shows "sem_addr (devsem i s)"
proof -
  have "unat i \<le> 48" using assms(2) by (simp add: word_le_nat_alt)
  then have "unat (4 * i) = 4 * unat i" "4 * unat i \<le> 192" by (simp_all add: unat_word_ariths)
  moreover have "unat (deviceSemaphores (link s)) + 192 < 2 ^ 31 - 1" "RAMSTART \<le> deviceSemaphores (link s)"
    using assms(1) by (simp_all add: link_ok_def)
  ultimately have "unat (devsem i s) = unat (deviceSemaphores (link s)) + 4 * unat i"
    by (simp add: devsem_def unat_word_ariths)
  then show ?thesis
    using \<open>4 * unat i \<le> 192\<close> assms(1) by (simp add: sem_addr_def link_ok_def word_le_nat_alt word_less_nat_alt)
qed

lemma waitio_fine:
  assumes g: "good l s" and l: "link_ok l" and c: "currentProcess s = Some c"
    and d: "is_device line dev sub" and v: "int_min < sint (mem s (devsem (waitio_index line dev sub) s))"
  shows "fine l (sysWaitIO line dev sub s)"
proof -
  have "sem_addr (devsem (waitio_index line dev sub) s)"
    using g l waitio_index_less [OF d] by (intro devsem_addr) (auto simp: good_def)
  then have "fine l (sysPasseren (devsem (waitio_index line dev sub) s) (s\<lparr>softBlockCount := softBlockCount s + 1\<rparr>))"
    using g c v by (intro passeren_fine [where c = c]) simp_all
  then show ?thesis unfolding sysWaitIO_def Let_def by (rule fine_kthen) simp
qed

lemma waitclock_fine:
  assumes g: "good l s" and l: "link_ok l" and c: "currentProcess s = Some c"
    and v: "int_min < sint (mem s (devsem NUM_DEVICES s))"
  shows "fine l (sysWaitClock s)"
proof -
  let ?s = "(charged c s)\<lparr>softBlockCount := softBlockCount s + 1\<rparr>"
  have "sysWaitClock s = sysPasseren (devsem NUM_DEVICES s) ?s"
    using updateCPUTime_run [OF c] by (simp add: sysWaitClock_def Let_def devsem_def)
  moreover have "sem_addr (devsem NUM_DEVICES s)" using g l by (intro devsem_addr) (auto simp: good_def)
  ultimately show ?thesis using g c v by (simp add: passeren_fine [where c = c])
qed

section \<open>Interrupts\<close>

lemma plt_leaves:
  assumes g: "good l s"
  shows "leaves l (handlePLTInterrupt s)"
proof (cases "currentProcess s")
  case None
  then have "handlePLTInterrupt s = scheduler (setTIMER 5000 s)"
    by (simp add: handlePLTInterrupt_def Let_def setTIMER_def)
  then show ?thesis using g by (simp add: good_scheduler)
next
  case (Some c)
  obtain fr rq B L ts where k: "kbase s fr rq B L ts" "c \<in> L" "link s = l"
    using goodE [OF g] Some by (metis (no_types, lifting) option.set_intros subsetD)
  obtain s' where s': "\<exists>e. handlePLTInterrupt s = Exit e s'"
    "kq s' fr (tl (rq @ [c])) B (insert (hd (rq @ [c])) (L - {c}))"
    "currentProcess s' = Some (hd (rq @ [c]))" "mem s' = mem s" "processCount s' = processCount s"
    "link s' = link s" "same_tree s s'"
    using plt_run [OF kbaseD(1) [OF k(1)] Some k(2)] by blast
  have "kbase s' fr (tl (rq @ [c])) B (insert (hd (rq @ [c])) (L - {c})) ts"
    by (rule kbase_step [OF k(1) s'(2) _ s'(7,5)]) (use kbaseD(2) [OF k(1)] s'(4) in \<open>simp add: sems_def\<close>)
  then have "good l s'" by (rule goodI) (use s'(3,6) k(3) in simp_all)
  then show ?thesis using s'(1) by auto
qed

lemma clock_leaves:
  assumes g: "good l s" and l: "link_ok l"
  shows "leaves l (handleIntervalTimerInterrupt s)"
proof -
  obtain fr rq B L ts where k: "kbase s fr rq B L ts" "set_option (currentProcess s) \<subseteq> L" "link s = l"
    using goodE [OF g] by blast
  let ?a = "devsem NUM_DEVICES s"
  have "sem_addr ?a" using k(3) l by (intro devsem_addr) simp_all
  then obtain s' where s': "kq s' fr (rq @ B ?a) (B(?a := [])) L" "sems s' (B(?a := []))"
    "handleIntervalTimerInterrupt s =
        (if currentProcess s \<noteq> NULL then Exit (LDST (bios s)) s' else scheduler s')"
    "kstep (s\<lparr>mem := mem s'\<rparr>) s'" "currentProcess s' = currentProcess s"
    using clock_run [OF kbaseD(1,2) [OF k(1)] refl] by (auto simp: sem_addr_def)
  have "same_tree s s'"
    by (rule same_tree_trans [OF same_tree_table same_tree_frames(2) [OF s'(4)]]) simp
  then have "kbase s' fr (rq @ B ?a) (B(?a := [])) L ts"
    using kstepD(5) [OF s'(4)] by (intro kbase_step [OF k(1) s'(1,2)]) simp_all
  then have "good l s'" by (rule goodI) (use s'(5) k(2,3) kstepD(1) [OF s'(4)] in simp_all)
  then show ?thesis using s'(3) by (simp add: good_scheduler)
qed

text \<open>A device that interrupts: the line's bit map names it, and it reports a status.\<close>

definition device_pending :: "u32 \<Rightarrow> 'z kstate_scheme \<Rightarrow> bool" where
  "device_pending line s \<longleftrightarrow> (\<exists>dev st t. getHighestPriorityDevice line s = Some dev \<and> is_device line dev 0
     \<and> ack_device line (DEV_REG_ADDR line dev) s = (Some st, t))"

lemma device_index_le:
  assumes "is_device line dev 0"
  shows "device_index line dev st \<le> NUM_DEVICES"
proof -
  have "is_device line dev (if st AND 0xFF \<noteq> 0 then 1 else 0)" using assms by (simp add: is_device_def)
  then show ?thesis unfolding device_index_waitio by (rule order.strict_implies_order [OF waitio_index_less])
qed

text \<open>When nobody waits for the device, its semaphore is counted up and the interrupted code goes on.\<close>

lemma device_nobody:
  assumes k: "kbase s fr rq B L ts" "set_option (currentProcess s) \<subseteq> L" and l: "link_ok (link s)"
    and d: "getHighestPriorityDevice line s = Some dev" "is_device line dev 0"
    and ack: "ack_device line (DEV_REG_ADDR line dev) s = (Some st, t)"
    and B: "B (devsem (device_index line dev st) s) = []"
  shows "fine (link s) (handleDeviceInterrupt line s)"
proof -
  let ?a = "devsem (device_index line dev st) s"
  have a: "sem_addr ?a" using l device_index_le [OF d(2)] by (rule devsem_addr)
  obtain b w where t: "b < RAMSTART" "t = store_word b w s"
    using ack_store [OF ack] device_register_low [OF d(2)] by auto
  have low: "B b = []" by (rule sems_low_addr [OF kbaseD(2) [OF k(1)] t(1)])
  have kt: "kbase t fr rq B L ts"
    by (rule kbase_step [OF k(1)])
      (use kbaseD [OF k(1)] low in \<open>simp_all add: t(2) sems_low same_tree_def\<close>)
  define u where "u = store_word ?a (mem t ?a + 1) t"
  have g: "good (link s) u"
    using good_store [OF kt _ B] k(2) by (simp add: u_def t(2))
  have ku: "kq u fr rq B L" using kbaseD(1) [OF kt] by (simp add: u_def)
  have none: "removeBlocked ?a u = Some (NULL, u)"
    using B a by (intro removeBlocked_none [OF kqD(3) [OF ku]]) (simp_all add: sem_addr_def)
  have mu: "mem u ?a = mem t ?a + 1" by (simp add: u_def)
  have "devsem (device_index line dev st) t = ?a" by (simp add: devsem_def t(2))
  then have "handleDeviceInterrupt line s = (if sint (mem u ?a) \<le> 0
      then if currentProcess u = NULL then scheduler u else Exit (LDST (bios u)) u else Ret () u)"
    using d(1) ack none by (simp add: handleDeviceInterrupt_def Let_def u_def [symmetric] mu)
  then show ?thesis using g by (simp add: leaves_fine good_scheduler)
qed

lemma device_fine:
  assumes g: "good l s" and l: "link_ok l" and p: "device_pending line s"
  shows "fine l (handleDeviceInterrupt line s)"
proof -
  obtain fr rq B L ts where k: "kbase s fr rq B L ts" "set_option (currentProcess s) \<subseteq> L" "link s = l"
    using goodE [OF g] by blast
  note K = kbaseD [OF k(1)]
  obtain dev st t where d: "getHighestPriorityDevice line s = Some dev" "is_device line dev 0"
    "ack_device line (DEV_REG_ADDR line dev) s = (Some st, t)"
    using p by (auto simp: device_pending_def)
  let ?a = "devsem (device_index line dev st) s"
  have a: "RAMSTART \<le> ?a" "?a < MAXINT"
    using devsem_addr [of s, OF _ device_index_le [OF d(2)]] l k(3) by (simp_all add: sem_addr_def)
  show ?thesis
  proof (cases "B ?a")
    case Nil
    then show ?thesis using device_nobody [OF k(1,2) _ d] l k(3) by simp
  next
    case (Cons q ps)
    then have v: "sint (mem s ?a) < 0" using nobody_waits [OF K(2), of ?a] by fastforce
    obtain s' where s': "handleDeviceInterrupt line s =
        (if currentProcess s = NULL then scheduler s' else Exit (LDST (bios s)) s')"
      "kq s' fr (rq @ [q]) (B(?a := ps)) L" "sems s' (B(?a := ps))"
      "processCount s' = processCount s" "currentProcess s' = currentProcess s" "link s' = link s"
      "same_tree s s'"
      using device_run [OF K(1,2) d refl a v Cons] by blast
    have "kbase s' fr (rq @ [q]) (B(?a := ps)) L ts" by (rule kbase_step [OF k(1) s'(2,3,7,4)])
    then have "good l s'" by (rule goodI) (use s'(5,6) k(2,3) in simp_all)
    then show ?thesis using s'(1) by (simp add: leaves_fine good_scheduler)
  qed
qed

section \<open>Creating a process\<close>

lemma forest_part:
  assumes "forest t (us @ T # vs)" and "U \<in> set (us @ vs)"
  shows "set (procs U) \<inter> set (procs T) = {}"
  using assms by (auto simp: forest_def)

lemma forest_split:
  assumes "forest t ts" and "c \<in> set (concat (map procs ts))"
  obtains us T vs where "ts = us @ T # vs" "c \<in> set (procs T)" "is_tree t T" "distinct (procs T)"
    "p_prnt (t (proot T)) = NULL"
proof -
  obtain T where T: "T \<in> set ts" "c \<in> set (procs T)" using assms(2) by auto
  then obtain us vs where "ts = us @ T # vs" by (meson split_list)
  then show thesis using that [of us T vs] assms(1) T by (auto simp: forest_def)
qed

lemma forest_graft:
  assumes f: "forest t ts" and c: "c \<in> set (concat (map procs ts))" and n: "n \<notin> set (concat (map procs ts))"
    and ch: "children t c xs" "children t' c (n # xs)" "children t' n []"
    and child: "\<And>i. i \<noteq> c \<Longrightarrow> i \<noteq> n \<Longrightarrow> p_child (t' i) = p_child (t i)"
    and place: "\<And>i. i \<notin> insert n (set xs) \<Longrightarrow> p_prnt (t' i) = p_prnt (t i)
      \<and> p_sib_left (t' i) = p_sib_left (t i) \<and> p_sib_right (t' i) = p_sib_right (t i)"
  shows "\<exists>ts'. forest t' ts' \<and> set (concat (map procs ts')) = insert n (set (concat (map procs ts)))"
proof -
  obtain us T vs where ts: "ts = us @ T # vs" "c \<in> set (procs T)" "distinct (procs T)"
    using f c by (rule forest_split)
  have nT: "n \<notin> set (procs T)" using n ts(1) by simp
  note G = procs_graft [OF ts(2,3) nT]
  have old: "is_tree t' U \<and> p_prnt (t' (proot U)) = NULL" if "U \<in> set (us @ vs)" for U
  proof -
    have U: "is_tree t U" "distinct (procs U)" "p_prnt (t (proot U)) = NULL" "n \<notin> set (procs U)"
      using that f n distinct_concat_kid [of ts U] unfolding ts(1) forest_def by auto
    have "c \<notin> set (procs U)" using forest_part [OF _ that] f ts(1,2) by blast
    then have "is_tree t' U" using is_tree_graft [OF U(1,2,4) ch child place] by (simp add: graft_absent)
    moreover have "proot U \<notin> set xs" using children_parent [OF ch(1)] U(3) by auto
    moreover have "proot U \<noteq> n" using U(4) proot_in_procs [of U] by auto
    ultimately show ?thesis using U(3) place [of "proot U"] by simp
  qed
  have T: "is_tree t T" "p_prnt (t (proot T)) = NULL" using f ts(1) by (simp_all add: forest_def)
  have "proot T \<notin> set xs" using children_parent [OF ch(1)] T(2) by auto
  moreover have "proot T \<noteq> n" using nT proot_in_procs [of T] by auto
  ultimately have "p_prnt (t' (proot T)) = NULL" using T(2) place [of "proot T"] by simp
  moreover have "is_tree t' (graft c n T)" by (rule is_tree_graft [OF T(1) ts(3) nT ch child place])
  moreover have "distinct (concat (map procs (us @ graft c n T # vs)))"
    using f n G unfolding ts(1) forest_def by auto
  ultimately have "forest t' (us @ graft c n T # vs)" using old by (auto simp: forest_def)
  moreover have "set (concat (map procs (us @ graft c n T # vs))) = insert n (set (concat (map procs ts)))"
    using G by (auto simp: ts(1))
  ultimately show ?thesis by blast
qed

lemma forest_children:
  assumes "forest t ts" and "c \<in> set (concat (map procs ts))"
  obtains xs where "children t c xs" "set xs \<subseteq> set (concat (map procs ts))"
proof -
  obtain us T vs where T: "ts = us @ T # vs" "c \<in> set (procs T)" "is_tree t T"
    using assms by (rule forest_split)
  obtain ks where ks: "PNode c ks \<in> set (subtrees T)" using subtree_at [OF T(2)] by blast
  have "children t c (map proot ks)" using subtree_is_tree [OF ks T(3)] by simp
  moreover have "set (map proot ks) \<subseteq> set (procs T)" using subtree_procs [OF ks] roots_sub [of ks] by auto
  moreover have "set (procs T) \<subseteq> set (concat (map procs ts))" by (auto simp: T(1))
  ultimately show thesis by (intro that) blast+
qed

lemma current_process:
  assumes "kbase s fr rq B L ts" and "c \<in> L"
  shows "c < MAXPROC" "c \<notin> set fr" "c \<in> set (concat (map procs ts))"
proof -
  note P = placedD [OF kqD(4) [OF kbaseD(1) [OF assms(1)]]]
  show "c < MAXPROC" "c \<notin> set fr" using P(6,7) assms(2) by blast+
  then show "c \<in> set (concat (map procs ts))" by (simp only: kbaseD(4) [OF assms(1)]) simp
qed

lemma create_fine:
  assumes g: "good l s" and c: "currentProcess s = Some c"
  shows "fine l (sysCreateProcess r sp s)"
proof -
  obtain fr rq B L ts where k: "kbase s fr rq B L ts" "c \<in> L" "link s = l"
    using goodE [OF g] c by (metis (no_types, lifting) option.set_intros subsetD)
  note K = kbaseD [OF k(1)] and C = current_process [OF k(1,2)]
  show ?thesis
  proof (cases fr)
    case Nil
    then show ?thesis using create_full [of s rq B L r sp] K(1) g by simp
  next
    case (Cons n fr')
    obtain xs where xs: "children (pcbTable s) c xs" "set xs \<subseteq> set (concat (map procs ts))"
      using K(3) C(3) by (rule forest_children)
    have n: "n \<notin> set (concat (map procs ts))" "n < MAXPROC" "n \<notin> set fr'"
      using K(4) Cons placedD(1,7) [OF kqD(4) [OF K(1)]] by auto
    obtain s' where s': "sysCreateProcess r sp s = Ret 0 s'" "kq s' fr' (rq @ [n]) B L"
      "children (pcbTable s') c (n # xs)" "children (pcbTable s') n []"
      "processCount s' = processCount s + 1" "mem s' = mem s" "currentProcess s' = Some c"
      "others_kept (insert c (insert n (set xs))) s s'" "grafted c n (set xs) s s'"
      using create_run [of s n fr' rq B L c xs r sp] K(1) c k(2) xs n(1) Cons by blast
    obtain ts' where ts': "forest (pcbTable s') ts'"
      "set (concat (map procs ts')) = insert n (set (concat (map procs ts)))"
      using forest_graft [OF K(3) C(3) n(1) xs(1) s'(3,4)] s'(9) by (auto simp: grafted_def same_place_def)
    have "set (concat (map procs ts')) = {..<MAXPROC} - set fr'"
      unfolding ts'(2) K(4) using n(2,3) Cons by auto
    moreover have "cnt s' = cnt s + 1"
      using K(5) Cons s'(5) by (simp add: cnt_def unat_word_ariths)
    moreover have "sems s' B" using K(2) s'(6) by (simp add: sems_def)
    ultimately have "kbase s' fr' (rq @ [n]) B L ts'"
      using s'(2) ts'(1) K(5) Cons by (simp add: kbase_def)
    then have "good l s'" by (rule goodI) (use s'(7,8) k(2,3) in \<open>simp_all add: others_kept_def\<close>)
    then show ?thesis by (simp add: s'(1))
  qed
qed

section \<open>Terminating a process\<close>

text \<open>The free list after a tree of \<open>X\<close> is buried.\<close>

lemma reaped_count:
  assumes r: "reaped A X s fr rq B L s'" and k: "kq s fr rq B L" and X: "distinct X" "set X \<inter> set fr = {}"
    and n: "cnt s + length fr \<le> MAXPROC"
  shows "\<exists>fr'. kq s' fr' (survivors X rq) (\<lambda>a. survivors X (B a)) (L - set X) \<and> set fr' = set X \<union> set fr
    \<and> cnt s' + length fr' \<le> MAXPROC"
proof -
  obtain fr' where fr': "kq s' fr' (survivors X rq) (\<lambda>a. survivors X (B a)) (L - set X)"
    "set fr' = set X \<union> set fr" "cnt s' + length X = cnt s"
    using r by (auto simp: reaped_def)
  have "length fr' = card (set X \<union> set fr)"
    using placedD(1) [OF kqD(4) [OF fr'(1)]] fr'(2) distinct_card by metis
  also have "\<dots> = length X + length fr"
    using X placedD(1) [OF kqD(4) [OF k]] by (simp add: card_Un_disjoint distinct_card)
  finally show ?thesis using fr' n by (intro exI [of _ fr']) simp
qed

lemma forest_drop:
  assumes "forest (pcbTable s) (us @ T # vs)" and r: "reaped (set (procs T)) (procs T) s fr rq B L s'"
  shows "forest (pcbTable s') (us @ vs)"
proof -
  have "is_tree (pcbTable s') U \<and> p_prnt (pcbTable s' (proot U)) = NULL" if "U \<in> set (us @ vs)" for U
  proof -
    have d: "set (procs U) \<inter> set (procs T) = {}" by (rule forest_part [OF assms(1) that])
    then have "proot U \<notin> set (procs T)" using proot_in_procs [of U] by blast
    then show ?thesis
      using that assms(1) is_tree_reaped [OF r d] reaped_pcb(1) [OF r] by (auto simp: forest_def)
  qed
  then show ?thesis using assms(1) by (auto simp: forest_def)
qed

lemma forest_prune:
  assumes f: "forest (pcbTable s) (us @ T # vs)" and q: "PNode q ks \<in> set (subtrees T)" "Tc \<in> set ks"
    and r: "reaped (insert q (set (map proot ks)) \<union> set (procs Tc)) (procs Tc) s fr rq B L s'"
    and ch: "children (pcbTable s') q (remove1 (proot Tc) (map proot ks))"
    and rest: "\<forall>i. i \<notin> set (procs Tc) \<longrightarrow> (i \<noteq> q \<longrightarrow> p_child (pcbTable s' i) = p_child (pcbTable s i))
          \<and> (i \<notin> set (map proot ks) \<longrightarrow> same_place i s s')"
  shows "forest (pcbTable s') (us @ prune (proot Tc) T # vs)"
    and "set (procs (prune (proot Tc) T)) = set (procs T) - set (procs Tc)"
proof -
  have T: "is_tree (pcbTable s) T" "distinct (procs T)" "p_prnt (pcbTable s (proot T)) = NULL"
    using f by (simp_all add: forest_def)
  have P: "is_tree (pcbTable s') (prune (proot Tc) T) \<and> set (procs (prune (proot Tc) T)) = set (procs T) - set (procs Tc)
    \<and> distinct (procs (prune (proot Tc) T))"
    by (rule prune_tree [OF q refl T(1,2) ch]) (use rest in \<open>simp_all add: same_place_def\<close>)
  then show "set (procs (prune (proot Tc) T)) = set (procs T) - set (procs Tc)" by blast
  have below: "proot T \<notin> set (concat (map procs ks))" by (rule subtree_below [OF q(1) T(2)])
  have sub: "insert q (set (map proot ks)) \<union> set (procs Tc) \<subseteq> set (procs T)"
    using subtree_procs [OF q(1)] roots_sub [of ks] procs_kid [OF q(2)] by auto
  have "proot T \<notin> set (procs Tc)" "proot T \<notin> set (map proot ks)"
    using below procs_kid [OF q(2)] roots_sub [of ks] by blast+
  then have "p_prnt (pcbTable s' (proot T)) = NULL" using rest T(3) by (auto simp: same_place_def)
  moreover have "is_tree (pcbTable s') U \<and> p_prnt (pcbTable s' (proot U)) = NULL" if "U \<in> set (us @ vs)" for U
  proof -
    have d: "set (procs U) \<inter> (insert q (set (map proot ks)) \<union> set (procs Tc)) = {}"
      using forest_part [OF f that] sub by blast
    then have "proot U \<notin> insert q (set (map proot ks)) \<union> set (procs Tc)" using proot_in_procs [of U] by blast
    then show ?thesis
      using that f is_tree_reaped [OF r d] reaped_pcb(1) [OF r] by (auto simp: forest_def)
  qed
  moreover have "distinct (concat (map procs (us @ prune (proot Tc) T # vs)))"
    using f P by (auto simp: forest_def)
  ultimately show "forest (pcbTable s') (us @ prune (proot Tc) T # vs)" using P by (auto simp: forest_def)
qed

lemma kbase_reaped:
  assumes k: "kbase s fr rq B L ts" and r: "reaped A X s fr rq B L s'" and X: "distinct X" "set X \<inter> set fr = {}"
    and f: "forest (pcbTable s') ts'" "set (concat (map procs ts')) = set (concat (map procs ts)) - set X"
  shows "link s' = link s \<and> (\<exists>fr rq B L ts. kbase s' fr rq B L ts)"
proof -
  note K = kbaseD [OF k]
  obtain fr' where fr': "kq s' fr' (survivors X rq) (\<lambda>a. survivors X (B a)) (L - set X)"
    "set fr' = set X \<union> set fr" "cnt s' + length fr' \<le> MAXPROC"
    using reaped_count [OF r K(1) X K(5)] by blast
  have "sems s' (\<lambda>a. survivors X (B a))" using sems_swept [OF K(2)] r by (simp add: reaped_def)
  moreover have "set (concat (map procs ts')) = {..<MAXPROC} - set fr'" unfolding f(2) K(4) fr'(2) by blast
  ultimately have "kbase s' fr' (survivors X rq) (\<lambda>a. survivors X (B a)) (L - set X) ts'"
    using fr'(1,3) f(1) by (simp add: kbase_def)
  moreover have "link s' = link s" using r by (simp add: reaped_def others_kept_def)
  ultimately show ?thesis by blast
qed

lemma terminate_kbase:
  assumes k: "kbase s fr rq B L ts" and c: "c \<in> set (concat (map procs ts))"
  shows "kpost (sysTerminate (Some c) s)
    (\<lambda>_ s'. link s' = link s \<and> (\<exists>fr rq B L ts. kbase s' fr rq B L ts)) (\<lambda>e s'. e = HALT)"
proof -
  note K = kbaseD [OF k]
  obtain us T vs where ts: "ts = us @ T # vs" and T: "c \<in> set (procs T)" "is_tree (pcbTable s) T"
    "distinct (procs T)" "p_prnt (pcbTable s (proot T)) = NULL"
    using K(3) c by (rule forest_split)
  have free: "set (procs T) \<subseteq> {..<MAXPROC} - set fr" unfolding K(4) [symmetric] ts by auto
  have n: "cnt s \<le> MAXPROC" using K(5) by simp
  have f: "forest (pcbTable s) (us @ T # vs)" using K(3) ts by simp
  show ?thesis
  proof (cases "c = proot T")
    case True
    have d: "doomed (procs T) s fr rq B L" using K(1) T(3) free n by (simp add: doomed_def)
    show ?thesis
    proof (unfold True, rule kpost_mono [OF terminate_orphan [OF T(2) d T(4), unfolded tree_done_def]])
      fix s' assume "length (procs T) < cnt s \<and> reaped (set (procs T)) (procs T) s fr rq B L s'"
      then have r: "reaped (set (procs T)) (procs T) s fr rq B L s'" by blast
      have "set (concat (map procs (us @ vs))) = set (concat (map procs ts)) - set (procs T)"
        using K(3) unfolding ts forest_def by auto
      then show "link s' = link s \<and> (\<exists>fr rq B L ts. kbase s' fr rq B L ts)"
        using free by (intro kbase_reaped [OF k r T(3) _ forest_drop [OF f r]]) auto
    qed simp
  next
    case False
    obtain q ks Tc where q: "PNode q ks \<in> set (subtrees T)" "Tc \<in> set ks" "proot Tc = c"
      using subtree_parent [OF T(1) False] by blast
    have sub: "set (procs Tc) \<subseteq> set (procs T)" using subtree_procs [OF q(1)] procs_kid [OF q(2)] by auto
    have dk: "distinct (concat (map procs ks))" "q \<notin> set (concat (map procs ks))"
      using subtree_distinct [OF q(1) T(3)] by simp_all
    have Tc: "is_tree (pcbTable s) Tc" "distinct (procs Tc)"
      using subtree_is_tree [OF q(1) T(2)] q(2) distinct_concat_kid [OF dk(1) q(2)] by simp_all
    have d: "doomed (procs Tc) s fr rq B L" using K(1) Tc(2) free sub n by (auto simp: doomed_def)
    have ch: "children (pcbTable s) q (map proot ks)" using subtree_is_tree [OF q(1) T(2)] by simp
    have mem: "proot Tc \<in> set (map proot ks)" "q \<notin> set (procs Tc)" using q(2) dk(2) by auto
    have only: "set (map proot ks) \<inter> set (procs Tc) = {proot Tc}"
    proof -
      have "U = Tc" if "U \<in> set ks" "proot U \<in> set (procs Tc)" for U
        using distinct_kids [OF dk(1) that(1) q(2)] that(2) proot_in_procs [of U] by blast
      then show ?thesis using q(2) proot_in_procs [of Tc] by auto
    qed
    show ?thesis
    proof (fold q(3), rule kpost_mono [OF terminate_child [OF Tc(1) d ch mem only]])
      fix s'
      assume "length (procs Tc) < cnt s
       \<and> reaped (insert q (set (map proot ks)) \<union> set (procs Tc)) (procs Tc) s fr rq B L s'
       \<and> children (pcbTable s') q (remove1 (proot Tc) (map proot ks))
       \<and> (\<forall>i. i \<notin> set (procs Tc) \<longrightarrow> (i \<noteq> q \<longrightarrow> p_child (pcbTable s' i) = p_child (pcbTable s i))
          \<and> (i \<notin> set (map proot ks) \<longrightarrow> same_place i s s'))"
      then have r: "reaped (insert q (set (map proot ks)) \<union> set (procs Tc)) (procs Tc) s fr rq B L s'"
        and P: "children (pcbTable s') q (remove1 (proot Tc) (map proot ks))"
          "\<forall>i. i \<notin> set (procs Tc) \<longrightarrow> (i \<noteq> q \<longrightarrow> p_child (pcbTable s' i) = p_child (pcbTable s i))
            \<and> (i \<notin> set (map proot ks) \<longrightarrow> same_place i s s')" by blast+
      note F = forest_prune [OF f q(1,2) r P]
      have "set (concat (map procs (us @ prune (proot Tc) T # vs))) = set (concat (map procs ts)) - set (procs Tc)"
        using forest_part [OF f] F(2) sub unfolding ts by auto
      then show "link s' = link s \<and> (\<exists>fr rq B L ts. kbase s' fr rq B L ts)"
        using free sub by (intro kbase_reaped [OF k r Tc(2) _ F(1)]) auto
    qed simp
  qed
qed

text \<open>Ending the current process and its progeny, then scheduling.\<close>

lemma die_leaves:
  assumes g: "good l s"
  shows "leaves l (kthen (sysTerminate (currentProcess s) s) (\<lambda>_. scheduler))"
proof (cases "currentProcess s")
  case None
  have "sysTerminate NULL s = Ret () s"
    using sysTerminate_n.simps(2) [of "2 * MAXPROC + 1" NULL s] by (simp add: sysTerminate_def)
  then show ?thesis using None g by (simp add: good_scheduler)
next
  case (Some c)
  obtain fr rq B L ts where k: "kbase s fr rq B L ts" "c \<in> L" "link s = l"
    using goodE [OF g] Some by (metis (no_types, lifting) option.set_intros subsetD)
  have "kpost (sysTerminate (Some c) s)
    (\<lambda>_ s'. link s' = link s \<and> (\<exists>fr rq B L ts. kbase s' fr rq B L ts)) (\<lambda>e s'. e = HALT)"
    by (rule terminate_kbase [OF k(1) current_process(3) [OF k(1,2)]])
  then show ?thesis
    using k(3) by (cases "sysTerminate (Some c) s") (auto simp: Some dest!: scheduler_leaves)
qed

lemma passUpOrDie_leaves:
  assumes g: "good l s" and c: "currentProcess s = Some c"
  shows "leaves l (passUpOrDie x s)"
proof (cases "p_supportStruct (pcbTable s c)")
  case None
  then have "passUpOrDie x s = kthen (sysTerminate (currentProcess s) s) (\<lambda>_. scheduler)"
    using c by (simp add: passUpOrDie_def)
  then show ?thesis using die_leaves [OF g] by simp
next
  case (Some k)
  then show ?thesis using c g by (simp add: passUpOrDie_def Let_def)
qed

section \<open>The system calls and the dispatcher\<close>

text \<open>
  What the kernel takes for granted of a system call made in kernel mode: \<open>P\<close> and \<open>V\<close> are given the
  address of a semaphore, \<open>WAITIO\<close> a device, and no semaphore is counted below the least integer.
\<close>

definition syscall_ok :: "'z kstate_scheme \<Rightarrow> bool" where
  "syscall_ok s \<longleftrightarrow>
     (let n = s_reg (bios s) r_a0; a1 = s_reg (bios s) r_a1; a2 = s_reg (bios s) r_a2; a3 = s_reg (bios s) r_a3
      in (n = 3 \<longrightarrow> sem_addr a1 \<and> int_min < sint (mem s a1)) \<and> (n = 4 \<longrightarrow> sem_addr a1)
       \<and> (n = 5 \<longrightarrow> is_device a1 a2 a3 \<and> int_min < sint (mem s (devsem (waitio_index a1 a2 a3) s)))
       \<and> (n = 7 \<longrightarrow> int_min < sint (mem s (devsem NUM_DEVICES s))))"

lemma syscall_okD:
  assumes "syscall_ok s"
  shows "s_reg (bios s) r_a0 = 3 \<Longrightarrow> sem_addr (s_reg (bios s) r_a1) \<and> int_min < sint (mem s (s_reg (bios s) r_a1))"
    and "s_reg (bios s) r_a0 = 4 \<Longrightarrow> sem_addr (s_reg (bios s) r_a1)"
    and "s_reg (bios s) r_a0 = 5 \<Longrightarrow> is_device (s_reg (bios s) r_a1) (s_reg (bios s) r_a2) (s_reg (bios s) r_a3)
      \<and> int_min < sint (mem s (devsem (waitio_index (s_reg (bios s) r_a1) (s_reg (bios s) r_a2) (s_reg (bios s) r_a3)) s))"
    and "s_reg (bios s) r_a0 = 7 \<Longrightarrow> int_min < sint (mem s (devsem NUM_DEVICES s))"
  using assms by (auto simp: syscall_ok_def Let_def)

lemma getCPUTime_fine: "good l s \<Longrightarrow> currentProcess s = Some c \<Longrightarrow> fine l (sysGetCPUTime s)"
  using good_upd(6) [of l s] by (simp add: sysGetCPUTime_def STCK_def)

lemma syscall_leaves:
  assumes g: "good l s" and l: "link_ok l" and c: "currentProcess s = Some c"
    and ok: "s_status (bios s) AND KUPBITON = 0 \<Longrightarrow> syscall_ok s"
  shows "leaves l (syscallHandler s)"
proof -
  define u where "u = s\<lparr>bios := (bios s)\<lparr>s_pc := s_pc (bios s) + 4\<rparr>\<rparr>"
  have u: "good l u" "currentProcess u = Some c" "s_status (bios u) = s_status (bios s)"
    "s_reg (bios u) = s_reg (bios s)" "mem u = mem s" "link u = link s" "\<And>i. devsem i u = devsem i s"
    using g c by (simp_all add: u_def devsem_def)
  show ?thesis
  proof (cases "s_status (bios s) AND KUPBITON = 0")
    case False
    then show ?thesis
      unfolding syscallHandler_def Let_def u_def [symmetric]
      by (simp add: u leaves_first passUpOrDie_leaves [OF u(1,2)])
  next
    case True
    note ok = syscall_okD [OF ok [OF True]]
    have pass: "fine l (passUpOrDie GENERALEXCEPT u)" by (rule leaves_fine [OF passUpOrDie_leaves [OF u(1,2)]])
    have new: "fine l (kthen (sysCreateProcess r p u) (\<lambda>r s. Ret () (set_saved_reg r_v0 r s)))" for r p
      by (rule fine_kthen [OF create_fine [OF u(1,2)]]) simp
    have die: "fine l (kthen (sysTerminate (currentProcess u) u) (\<lambda>_. scheduler))"
      by (rule leaves_fine [OF die_leaves [OF u(1)]])
    have "sysGetSupportPTR u = Some (p_supportStruct (pcbTable u c))" using u(2) by (simp add: sysGetSupportPTR_def)
    then show ?thesis
      unfolding syscallHandler_def Let_def u_def [symmetric]
      using True u(1,2) ok pass new die
      by (simp add: u leaves_kthen passeren_fine [OF u(1,2)] verhogen_fine [OF u(1)]
          waitio_fine [OF u(1) l u(2)] waitclock_fine [OF u(1) l u(2)] getCPUTime_fine [OF u(1,2)])
  qed
qed

text \<open>
  What the hardware and the processes owe the kernel when they enter it: an exception that is not an
  interrupt comes from a process, a device interrupt from a device, and a system call is well formed.
\<close>

definition admissible :: "'z kstate_scheme \<Rightarrow> bool" where
  "admissible s \<longleftrightarrow>
     (let code = exceptionCode (s_cause (bios s)); line = getHighestPriorityInterrupt (s_cause (bios s))
      in (code = 0 \<and> line \<in> {3, 4, 5, 6, 7} \<longrightarrow> device_pending line s)
       \<and> (code \<noteq> 0 \<longrightarrow> currentProcess s \<noteq> NULL)
       \<and> (code = 8 \<and> s_status (bios s) AND KUPBITON = 0 \<longrightarrow> syscall_ok s))"

lemma interrupt_leaves:
  assumes g: "good l s" and l: "link_ok l"
    and d: "getHighestPriorityInterrupt (s_cause (bios s)) \<in> {3, 4, 5, 6, 7} \<Longrightarrow>
      device_pending (getHighestPriorityInterrupt (s_cause (bios s))) s"
  shows "leaves l (interruptHandler s)"
  unfolding interruptHandler_def Let_def
proof (rule leaves_kthen)
  let ?i = "getHighestPriorityInterrupt (s_cause (bios s))"
  have "?i \<in> {3, 4, 5, 6, 7} \<Longrightarrow> fine l (handleDeviceInterrupt ?i s)" by (rule device_fine [OF g l d])
  then show "fine l (if ?i = 0 then Ret () s else if ?i = 1 then handlePLTInterrupt s
      else if ?i = 2 then handleIntervalTimerInterrupt s
      else if ?i \<in> {3, 4, 5, 6, 7} then handleDeviceInterrupt ?i s else Exit PANIC s)"
    using g leaves_fine [OF plt_leaves [OF g]] leaves_fine [OF clock_leaves [OF g l]] by (auto split: if_splits)
qed simp

lemma exception_leaves:
  assumes g: "good l s" and l: "link_ok l" and a: "admissible s"
  shows "leaves l (exceptionHandler s)"
proof -
  let ?c = "exceptionCode (s_cause (bios s))" and ?i = "getHighestPriorityInterrupt (s_cause (bios s))"
  have a: "?c = 0 \<Longrightarrow> ?i \<in> {3, 4, 5, 6, 7} \<Longrightarrow> device_pending ?i s" "?c \<noteq> 0 \<Longrightarrow> currentProcess s \<noteq> NULL"
    "?c = 8 \<Longrightarrow> s_status (bios s) AND KUPBITON = 0 \<Longrightarrow> syscall_ok s"
    using a unfolding admissible_def Let_def by blast+
  show ?thesis
  proof (cases "?c = 0")
    case True
    then show ?thesis using interrupt_leaves [OF g l a(1)] by (simp add: exceptionHandler_def)
  next
    case False
    then obtain c where c: "currentProcess s = Some c" using a(2) by blast
    have "?c = 8 \<Longrightarrow> leaves l (syscallHandler s)" by (rule syscall_leaves [OF g l c a(3)])
    then show ?thesis
      using False passUpOrDie_leaves [OF g c] die_leaves [OF g]
      by (auto simp: exceptionHandler_def Let_def TLBExceptionHandler_def programTrapHandler_def)
  qed
qed

end
