(* ===== verification/AnswerSpec.thy ===== *)
theory AnswerSpec
  imports SysSpec KernelStep
begin

text \<open>
  The environment that the theorems of the support level assume, and the nucleus that provides it: the
  system calls that come back at once are answered as \<open>cooperative\<close> says.
\<close>

text \<open>The process \<open>c\<close>, with support structure \<open>k\<close>, makes the request \<open>r\<close> in kernel mode.\<close>

definition requests :: "nat \<Rightarrow> nat \<Rightarrow> sysreq \<Rightarrow> sstate \<Rightarrow> bool" where
  "requests c k r s \<longleftrightarrow> currentProcess s = Some c \<and> p_supportStruct (pcbTable s c) = Some k
     \<and> exceptionCode (s_cause (bios s)) = 8 \<and> s_status (bios s) AND KUPBITON = 0
     \<and> (s_reg (bios s) r_a0, s_reg (bios s) r_a1, s_reg (bios s) r_a2, s_reg (bios s) r_a3) = r"

definition resumed :: "sstate \<Rightarrow> state_t" where
  "resumed s = (bios s)\<lparr>s_pc := s_pc (bios s) + 4\<rparr>"

lemma kernel_call:
  assumes "requests c k (n, a1, a2, a3) s"
  shows "n = 3 \<Longrightarrow> exceptionHandler s = kthen (sysPasseren a1 (s\<lparr>bios := resumed s\<rparr>)) (\<lambda>_ s. Exit (LDST (bios s)) s)"
    and "n = 4 \<Longrightarrow> exceptionHandler s = kthen (sysVerhogen a1 (s\<lparr>bios := resumed s\<rparr>)) (\<lambda>_ s. Exit (LDST (bios s)) s)"
    and "n = 8 \<Longrightarrow> exceptionHandler s =
      Exit (LDST (set_reg r_v0 (support_addr (link s) (Some k)) (resumed s)))
        (set_saved_reg r_v0 (support_addr (link s) (Some k)) (s\<lparr>bios := resumed s\<rparr>))"
  using assms
  by (auto simp: requests_def exceptionHandler_def syscallHandler_def Let_def resumed_def sysGetSupportPTR_def rd_def)

lemma kept_kstep:
  assumes "kstep (store_word a v (s\<lparr>bios := b\<rparr>)) s'" and "currentProcess s' = currentProcess s"
  shows "kept k s s'"
proof -
  have "p_supportStruct (pcbTable s' c) = p_supportStruct (pcbTable s c)" for c
    using kstep_pcb(8) [OF assms(1), of c] by simp
  moreover have "bytes s' = bytes s" using kstepD(11) [OF assms(1)] by (cases s; cases s') (simp add: store_word_def)
  ultimately show ?thesis using kstepD(1,3) [OF assms(1)] assms(2) by (simp add: kept_def)
qed

text \<open>C22: The nucleus keeps the contract the support level relies on: a kernel-mode process that asks for
  its support structure gets exactly its address, and one that makes a \<open>V\<close>, or a \<open>P\<close> on a semaphore
  that is free, is resumed at once after the call with the same registers; in each case it is still
  the running process, with its saved exception states, address space and memory untouched, and no
  process has been lost.\<close>

theorem nucleus_answers:
  assumes k: "kq s fr rq B L" and m: "sems s B" and c: "c \<in> L"
    and r: "requests c k (n, a1, a2, a3) s"
    and n: "n = GETSUPPORTPTR \<or> (n = VERHOGEN \<and> RAMSTART \<le> a1 \<and> a1 < MAXINT \<and> sint (mem s a1) < int_max)
      \<or> (n = PASSEREN \<and> RAMSTART \<le> a1 \<and> a1 < MAXINT \<and> 0 < sint (mem s a1))"
  shows "\<exists>st s' rq' B'. exceptionHandler s = Exit (LDST st) s' \<and> kept k s s'
    \<and> kq s' fr rq' B' L \<and> sems s' B'
    \<and> st = (if n = GETSUPPORTPTR then set_reg r_v0 (support_addr (link s) (Some k)) (resumed s) else resumed s)
    \<and> mem s' = (mem s)(a1 := if n = VERHOGEN then mem s a1 + 1 else if n = PASSEREN then mem s a1 - 1 else mem s a1)"
proof -
  let ?s = "s\<lparr>bios := resumed s\<rparr>"
  have cur: "currentProcess s = Some c" using r by (simp add: requests_def)
  have k': "kq ?s fr rq B L" and m': "sems ?s B" using k m by (simp_all add: sems_def)
  consider (sup) "n = 8" | (v) "n = 4" "RAMSTART \<le> a1" "a1 < MAXINT" "sint (mem s a1) < int_max"
    | (p) "n = 3" "RAMSTART \<le> a1" "a1 < MAXINT" "0 < sint (mem s a1)"
    using n by blast
  then show ?thesis
  proof cases
    case sup
    let ?t = "set_saved_reg r_v0 (support_addr (link s) (Some k)) ?s"
    have "kept k s ?t" by (simp add: kept_def set_saved_reg_def)
    moreover have "kq ?t fr rq B L" "sems ?t B" using k m by (simp_all add: sems_def)
    ultimately show ?thesis using kernel_call(3) [OF r sup] sup by (auto simp: fun_upd_idem)
  next
    case v
    obtain sq w where V: "sem_V (sem_at ?s B a1) = (sq, w)" by fastforce
    have "sint (mem ?s a1) < int_max" using v(4) by simp
    then obtain t where t: "sysVerhogen a1 ?s = Ret () t" "sem_step a1 sq ?s B t (B(a1 := snd sq))"
      "kq t fr (rq @ (case w of NULL \<Rightarrow> [] | Some p \<Rightarrow> [p])) (B(a1 := snd sq)) L"
      "currentProcess t = currentProcess ?s" "kstep (store_word a1 (mem ?s a1 + 1) ?s) t"
      using verhogen_step [OF k' m' v(2,3) _ V] by blast
    have "bios t = resumed s" "mem t = (mem s)(a1 := mem s a1 + 1)" using kstepD(2,4) [OF t(5)] by simp_all
    moreover have "kept k s t" using kept_kstep [OF t(5)] t(4) by simp
    moreover have "sems t (B(a1 := snd sq))" using t(2) by (simp add: sem_step_def)
    ultimately show ?thesis using kernel_call(2) [OF r v(1)] t(1,3) v(1) by auto
  next
    case p
    let ?t = "store_word a1 (mem ?s a1 - 1) (charged c ?s)"
    have pos: "sint (mem s a1 - 1) = sint (mem s a1) - 1" using p(4) by (intro sint_dec) simp
    then have "sysPasseren a1 ?s = Ret () ?t"
      using sysPasseren_cases(1) [OF k' _ c p(3)] cur p(4) by simp
    moreover have "kept k s ?t" using cur by (simp add: kept_def charged_def)
    moreover have "kq ?t fr rq B L" using k by simp
    moreover have "sems ?t B" by (rule sems_pass [OF m, where a = a1 and v = "mem s a1 - 1"]) (use p(4) pos in simp_all)
    ultimately show ?thesis using kernel_call(1) [OF r p(1)] p(1) by auto
  qed
qed

text \<open>A process alone on a booted nucleus, about to make a \<open>V\<close>.\<close>

definition lone_process :: sstate where
  "lone_process = (take_pcb 0 ((initASL (initPcbs zero_sstate))\<lparr>readyQueue := mkEmptyProcQ\<rparr>))
     \<lparr>currentProcess := Some 0, bios := set_reg r_a0 4 (set_reg r_a1 0x20009000 (zero_state\<lparr>s_cause := 32\<rparr>))\<rparr>"

definition lone_caller :: sstate where
  "lone_caller = lone_process\<lparr>pcbTable := (pcbTable lone_process)(0 :=
     (pcbTable lone_process 0)\<lparr>p_supportStruct := Some 0\<rparr>)\<rparr>"

lemma lone_caller_kq: "kq lone_caller [1..<MAXPROC] [] (\<lambda>_. []) {0}"
proof -
  let ?s = "(initASL (initPcbs zero_sstate))\<lparr>readyQueue := mkEmptyProcQ\<rparr>"
  have "[0..<MAXPROC] = 0 # [1..<MAXPROC]" by (simp add: upt_rec [of 0])
  then have "kq ?s (0 # [1..<MAXPROC]) [] (\<lambda>_. []) {}" using kq_boot [of zero_sstate] by metis
  then have "kq (take_pcb 0 ?s) [1..<MAXPROC] [] (\<lambda>_. []) {0}" by (rule kq_alloc(2))
  then have "kq lone_process [1..<MAXPROC] [] (\<lambda>_. []) {0}" unfolding lone_process_def by (simp only: kq_rest)
  moreover have "kq lone_caller = kq lone_process" unfolding lone_caller_def by (rule kq_pcb) simp_all
  ultimately show ?thesis by simp
qed

theorem nucleus_answers_witness:
  "\<exists>st s'. exceptionHandler lone_caller = Exit (LDST st) s' \<and> kept 0 lone_caller s' \<and> mem s' 0x20009000 = 1"
proof -
  have f: "currentProcess lone_caller = Some 0" "p_supportStruct (pcbTable lone_caller 0) = Some 0"
    "bios lone_caller = set_reg r_a0 4 (set_reg r_a1 0x20009000 (zero_state\<lparr>s_cause := 32\<rparr>))"
    "mem lone_caller = (\<lambda>_. 0)"
    by (simp_all add: lone_caller_def lone_process_def take_pcb_def initASL_def initPcbs_def Let_def zero_sstate_def)
  have "requests 0 0 (4, 0x20009000, 0, 0) lone_caller"
    by (simp add: requests_def f exceptionCode_def zero_state_def)
  moreover have "sems lone_caller (\<lambda>_. [])" by (simp add: sems_def)
  ultimately show ?thesis
    using nucleus_answers [OF lone_caller_kq _ _ , of 0 0 4 "0x20009000" 0 0] by (auto simp: f(4))
qed

end
