(* ===== verification/Reachable.thy ===== *)
theory Reachable
  imports KernelStep BootSpec
begin

text \<open>
  The nucleus as a state machine.  A run starts with \<open>main\<close>; between two exceptions a process runs,
  and may change all that is not the kernel's own; an exception is handled by \<open>exceptionHandler\<close>,
  a TLB refill by \<open>uTLB_RefillHandler\<close>.  Every state the kernel is left in satisfies \<open>kernel_ok\<close>.
\<close>

section \<open>What runs between two exceptions\<close>

text \<open>
  The processes, the support level and the devices may change everything except the PCBs, the
  descriptors of the semaphore list, the two queue heads, the counts, the current process, and the
  values of the semaphores that a process waits on.
\<close>

definition runs :: "'z kstate_scheme \<Rightarrow> 'z kstate_scheme \<Rightarrow> bool" where
  "runs s t \<longleftrightarrow> pcbTable t = pcbTable s \<and> pcbFree_h t = pcbFree_h s \<and> readyQueue t = readyQueue s
     \<and> semdTable t = semdTable s \<and> semd_h t = semd_h s \<and> semdFree_h t = semdFree_h s
     \<and> processCount t = processCount s \<and> softBlockCount t = softBlockCount s
     \<and> currentProcess t = currentProcess s \<and> link t = link s
     \<and> (\<forall>i < MAXPROC. RAMSTART \<le> p_semAdd (pcbTable s i) \<longrightarrow>
          mem t (p_semAdd (pcbTable s i)) = mem s (p_semAdd (pcbTable s i)))"

lemma sems_runs:
  assumes "kq s fr rq B L" and "sems s B" and "runs s t"
  shows "sems t B"
proof -
  have "int (length (B a)) \<le> max 0 (- sint (mem t a))" for a
  proof (cases "B a")
    case (Cons p ps)
    then have a: "RAMSTART \<le> a" "p \<in> set (B a)" using assms(2) by (simp_all add: sems_def)
    have "p_semAdd (pcbTable s p) = a" by (rule asl_waiting(3) [OF kqD(3) [OF assms(1)] a(2)])
    moreover have "p < MAXPROC" using placedD(7) [OF kqD(4) [OF assms(1)]] a(2) by blast
    ultimately have "mem t a = mem s a" using assms(3) a(1) unfolding runs_def by blast
    then show ?thesis using assms(2) by (simp add: sems_def)
  qed simp
  then show ?thesis using assms(2) by (simp add: sems_def)
qed

lemma good_runs:
  assumes "good l s" and "runs s t"
  shows "good l t"
proof -
  obtain fr rq B L ts where k: "kbase s fr rq B L ts" "set_option (currentProcess s) \<subseteq> L" "link s = l"
    using assms(1) by (rule goodE)
  have r: "pcbTable t = pcbTable s" "pcbFree_h t = pcbFree_h s" "readyQueue t = readyQueue s"
    "semdTable t = semdTable s" "semd_h t = semd_h s" "semdFree_h t = semdFree_h s"
    "processCount t = processCount s" "currentProcess t = currentProcess s" "link t = link s"
    using assms(2) by (simp_all add: runs_def)
  have "kq t fr rq B L" by (rule kq_cong [OF kbaseD(1) [OF k(1)]]) (simp_all add: r)
  then have "kbase t fr rq B L ts"
    by (rule kbase_step [OF k(1) _ sems_runs [OF kbaseD(1,2) [OF k(1)] assms(2)] same_tree_table])
      (simp_all add: r)
  then show ?thesis by (rule goodI) (simp_all add: r k(2,3))
qed

section \<open>Booting\<close>

lemma lone_tree: "lone (t n) \<Longrightarrow> is_tree t (PNode n []) \<and> p_prnt (t n) = NULL"
  by (simp add: lone_def children_Nil)

lemma lone_forest: "(\<And>n. n \<in> set ns \<Longrightarrow> lone (t n)) \<Longrightarrow> distinct ns \<Longrightarrow> forest t (map (\<lambda>n. PNode n []) ns)"
  by (auto simp: forest_def lone_def children_Nil comp_def concat_map_singleton)

lemma main_good:
  assumes "supportFreeList s = NULL" and "sems_apart (link s)"
  shows "\<exists>st s'. main s = Exit (LDST st) s' \<and> good (link s) s' \<and> currentProcess s' = Some 0"
proof -
  obtain s' st where s': "main s = Exit (LDST st) s'"
    "kq s' [10..<MAXPROC] [1] (\<lambda>_. []) ({0} \<union> {2..<10})" "sems s' (\<lambda>_. [])"
    "currentProcess s' = Some 0" "processCount s' = 1" "link s' = link s" "\<forall>n<10. lone (pcbTable s' n)"
    using main_run [OF assms] by blast
  let ?ts = "map (\<lambda>n. PNode n []) [0..<10]"
  have "forest (pcbTable s') ?ts" using s'(7) by (intro lone_forest) simp_all
  moreover have "concat (map procs ?ts) = [0..<10]" by (simp add: comp_def concat_map_singleton del: upt.simps upt_rec_numeral)
  then have "set (concat (map procs ?ts)) = {..<MAXPROC} - set [10..<MAXPROC]"
    by (simp only:) (simp only: set_upt, auto)
  ultimately have "kbase s' [10..<MAXPROC] [1] (\<lambda>_. []) ({0} \<union> {2..<10}) ?ts"
    using s'(2,3,5) by (simp add: kbase_def cnt_def del: upt.simps upt_rec_numeral)
  then have "good (link s) s'" by (rule goodI) (simp_all add: s'(4,6))
  then show ?thesis using s'(1,4) by blast
qed

section \<open>Runs\<close>

text \<open>The handler the machine enters: the TLB refill has a vector of its own.\<close>

datatype event = Exception | Refill

definition handler :: "event \<Rightarrow> sstate \<Rightarrow> (sstate, unit) kres" where
  "handler e s = (case e of Exception \<Rightarrow> exceptionHandler s | Refill \<Rightarrow> uTLB_RefillHandler s)"

text \<open>A TLB refill comes from a process with a support structure; the others do not use the TLB.\<close>

definition owed :: "event \<Rightarrow> sstate \<Rightarrow> bool" where
  "owed e s \<longleftrightarrow> (case e of Exception \<Rightarrow> admissible s
     | Refill \<Rightarrow> \<exists>c k. currentProcess s = Some c \<and> p_supportStruct (pcbTable s c) = Some k)"

inductive reached :: "sstate \<Rightarrow> sstate \<Rightarrow> bool" for s0 :: sstate where
  boot: "main s0 = Exit e s \<Longrightarrow> reached s0 s"
| step: "reached s0 s \<Longrightarrow> runs s t \<Longrightarrow> owed e t \<Longrightarrow> handler e t = Exit x u \<Longrightarrow>
    x \<noteq> HALT \<Longrightarrow> reached s0 u"

lemma refill_leaves:
  assumes g: "good l s" and c: "currentProcess s = Some c" "p_supportStruct (pcbTable s c) = Some k"
  shows "leaves l (uTLB_RefillHandler s)"
  using g c good_rest [OF g] by (simp add: uTLB_RefillHandler_def Let_def same_tree_def)

lemma handler_leaves: "good l s \<Longrightarrow> link_ok l \<Longrightarrow> owed e s \<Longrightarrow> leaves l (handler e s)"
  by (cases e) (auto simp: handler_def owed_def intro: exception_leaves refill_leaves)

lemma reached_good:
  assumes "reached s0 s" and "supportFreeList s0 = NULL" and "sems_apart (link s0)" and l: "link_ok (link s0)"
  shows "good (link s0) s"
  using assms(1)
proof induction
  case (boot e s)
  then show ?case using main_good [OF assms(2,3)] by auto
next
  case (step s t e x u)
  have "leaves (link s0) (handler e t)" by (rule handler_leaves [OF good_runs [OF step.IH step.hyps(2)] l step.hyps(3)])
  then show ?case using step.hyps(4,5) by simp
qed

section \<open>Properties\<close>



end
