(* ===== verification/Frames.thy ===== *)
theory Frames
  imports Reachable
begin

text \<open>
  What an operation of the nucleus keeps of the processes it is not about: the predicates \<open>spared\<close>,
  \<open>confined\<close> and \<open>conf\<close>, and the frames of the first level (\<open>pcb.c\<close>, \<open>asl.c\<close>), which writes link
  fields only.
\<close>

section \<open>What is kept\<close>

text \<open>The same processor state but for the return register \<open>v0\<close>.\<close>

definition same_context :: "state_t \<Rightarrow> state_t \<Rightarrow> bool" where
  "same_context st st' \<longleftrightarrow> s_entryHI st' = s_entryHI st \<and> s_cause st' = s_cause st \<and> s_status st' = s_status st
     \<and> s_pc st' = s_pc st \<and> (\<forall>r. r \<noteq> r_v0 \<longrightarrow> s_reg st' r = s_reg st r)"

text \<open>
  What is kept of a process: its support structure, its saved state but for the return register,
  and the whole saved state if it waits on no semaphore.
\<close>

definition spared :: "pcb_t \<Rightarrow> pcb_t \<Rightarrow> bool" where
  "spared p q \<longleftrightarrow> same_context (p_s p) (p_s q) \<and> p_supportStruct q = p_supportStruct p
     \<and> (p_semAdd p = NULL_addr \<longrightarrow> p_semAdd q = NULL_addr \<and> p_s q = p_s p)"

text \<open>Every process outside \<open>C\<close> and every support structure outside \<open>K\<close> is kept.\<close>

definition confined :: "nat set \<Rightarrow> nat set \<Rightarrow> 'z kstate_scheme \<Rightarrow> 'z kstate_scheme \<Rightarrow> bool" where
  "confined C K s s' \<longleftrightarrow> (\<forall>i. i \<notin> C \<longrightarrow> spared (pcbTable s i) (pcbTable s' i))
     \<and> (\<forall>k. k \<notin> K \<longrightarrow> sups s' k = sups s k)"

text \<open>
  The outcome of an operation: a process outside \<open>C\<close> can become the running one only by leaving the
  kernel to its saved state.
\<close>

definition conf :: "nat set \<Rightarrow> nat set \<Rightarrow> 'z kstate_scheme \<Rightarrow> ('z kstate_scheme, 'a) kres \<Rightarrow> bool" where
  "conf C K s r = (case r of
     Ret x s' \<Rightarrow> confined C K s s' \<and> set_option (currentProcess s') \<subseteq> C
   | Exit e s' \<Rightarrow> confined C K s s' \<and> (\<forall>i. currentProcess s' = Some i \<and> i \<notin> C \<longrightarrow> e = LDST (p_s (pcbTable s' i)))
   | Stuck \<Rightarrow> True)"

lemma same_context_refl [simp]: "same_context st st"
  by (simp add: same_context_def)

lemma same_context_trans: "same_context a b \<Longrightarrow> same_context b c \<Longrightarrow> same_context a c"
  by (simp add: same_context_def)

lemma same_context_v0 [simp]: "same_context st (set_reg r_v0 v st)"
  by (simp add: same_context_def set_reg_def)

lemma spared_refl [simp]: "spared p p"
  by (simp add: spared_def)

lemma spared_trans: "spared p q \<Longrightarrow> spared q r \<Longrightarrow> spared p r"
  unfolding spared_def using same_context_trans by metis

lemma confined_refl [simp]: "confined C K s s"
  by (simp add: confined_def)

lemma confined_trans: "confined C K s s' \<Longrightarrow> confined C K s' s'' \<Longrightarrow> confined C K s s''"
  unfolding confined_def using spared_trans by auto

lemma conf_simps [simp]:
  "conf C K s (Ret x s') \<longleftrightarrow> confined C K s s' \<and> set_option (currentProcess s') \<subseteq> C"
  "conf C K s (Exit e s') \<longleftrightarrow> confined C K s s' \<and> (\<forall>i. currentProcess s' = Some i \<and> i \<notin> C \<longrightarrow> e = LDST (p_s (pcbTable s' i)))"
  "conf C K s Stuck"
  by (simp_all add: conf_def)

lemma conf_trans: "confined C K s s' \<Longrightarrow> conf C K s' r \<Longrightarrow> conf C K s r"
  by (cases r) (auto intro: confined_trans)

lemma conf_kthen:
  assumes "conf C K s r" and "\<And>x s'. r = Ret x s' \<Longrightarrow> set_option (currentProcess s') \<subseteq> C \<Longrightarrow> conf C K s' (f x s')"
  shows "conf C K s (kthen r f)"
  using assms by (cases r) (auto intro: conf_trans)

section \<open>Queues, semaphore list and process tree\<close>

text \<open>The first level writes link fields only.\<close>

definition links_only :: "'z kstate_scheme \<Rightarrow> 'z kstate_scheme \<Rightarrow> bool" where
  "links_only s s' \<longleftrightarrow> (\<forall>i. p_s (pcbTable s' i) = p_s (pcbTable s i)
       \<and> p_supportStruct (pcbTable s' i) = p_supportStruct (pcbTable s i)
       \<and> (p_semAdd (pcbTable s i) = NULL_addr \<longrightarrow> p_semAdd (pcbTable s' i) = NULL_addr))
     \<and> sups s' = sups s \<and> currentProcess s' = currentProcess s"

lemma links_only_refl [simp]: "links_only s s"
  by (simp add: links_only_def)

lemma links_only_trans: "links_only s s' \<Longrightarrow> links_only s' s'' \<Longrightarrow> links_only s s''"
  by (simp add: links_only_def)

lemma confined_links: "links_only s s' \<Longrightarrow> confined C K s s'"
  by (simp add: links_only_def confined_def spared_def)

lemma links_wr:
  "wr p_next_update p v s = Some s' \<Longrightarrow> links_only s s'" "wr p_prev_update p v s = Some s' \<Longrightarrow> links_only s s'"
  "wr p_prnt_update p v s = Some s' \<Longrightarrow> links_only s s'" "wr p_child_update p v s = Some s' \<Longrightarrow> links_only s s'"
  "wr p_sib_left_update p v s = Some s' \<Longrightarrow> links_only s s'" "wr p_sib_right_update p v s = Some s' \<Longrightarrow> links_only s s'"
  "wr p_semAdd_update p NULL_addr s = Some s' \<Longrightarrow> links_only s s'" "swr f p x s = Some s' \<Longrightarrow> links_only s s'"
  by (auto simp: wr_def swr_def links_only_def)

lemma links_upd [simp]:
  "links_only s (s'\<lparr>pcbFree_h := q\<rparr>) = links_only s s'" "links_only s (s'\<lparr>semdFree_h := q\<rparr>) = links_only s s'"
  "links_only s (s'\<lparr>readyQueue := q\<rparr>) = links_only s s'"
  by (simp_all add: links_only_def)

text \<open>Chains of such steps: the binds of a program are taken apart, and the frames put together.\<close>

lemma links_insertProcQ: "insertProcQ tp p s = Some (tp', s') \<Longrightarrow> links_only s s'"
  by (auto simp: insertProcQ_def bind_eq_Some_conv split: if_splits dest!: links_wr) (simp_all add: links_only_def)

lemma links_unlink: "outProcQ_unlink tp p c s = Some (q, tp', s') \<Longrightarrow> links_only s s'"
  by (auto simp: outProcQ_unlink_def bind_eq_Some_conv split: if_splits dest!: links_wr) (simp_all add: links_only_def)

lemma links_loop: "outProcQ_loop tp p c s = Some r \<Longrightarrow> links_only s (snd (snd r))"
proof (rule outProcQ_loop.raw_induct [where P = "\<lambda>tp p c s r. links_only s (snd (snd r))"], goal_cases)
  case (1 f tp p c s r)
  show ?case
  proof (cases "c = p")
    case True
    then have "outProcQ_unlink tp p c s = Some r" using 1(3) by simp
    then show ?thesis using links_unlink by (cases r) auto
  next
    case False
    then obtain n m where "rd p_next c s = Some n" "rd p_next tp s = Some m"
      "(if n \<noteq> m then f tp p n s else Some (NULL, tp, s)) = Some r"
      using 1(3) by (auto simp: bind_eq_Some_conv)
    then show ?thesis using 1(2) [of tp p n s r] by (auto split: if_splits)
  qed
qed

lemma links_outProcQ: "outProcQ tp p s = Some (q, tp', s') \<Longrightarrow> links_only s s'"
  using links_loop [of tp p _ s "(q, tp', s')"] by (auto simp: outProcQ_def bind_eq_Some_conv split: if_splits)

lemma links_removeProcQ: "removeProcQ tp s = Some (q, tp', s') \<Longrightarrow> links_only s s'"
  using links_outProcQ [of tp _ s q tp' s'] by (auto simp: removeProcQ_def bind_eq_Some_conv split: if_splits)

lemma links_freePcb: "freePcb p s = Some s' \<Longrightarrow> links_only s s'"
  by (auto simp: freePcb_def bind_eq_Some_conv split: if_splits dest!: links_wr)

lemma links_insertChild: "insertChild q p s = Some s' \<Longrightarrow> links_only s s'"
  by (auto simp: insertChild_def bind_eq_Some_conv split: if_splits dest!: links_wr) (simp_all add: links_only_def)

lemma links_outChild:
  assumes "outChild p s = Some (q, s')"
  shows "links_only s s'"
proof (cases "p = NULL \<or> rd p_prnt p s = Some NULL")
  case True
  then show ?thesis using assms by (cases p) (auto simp: outChild_def)
next
  case False
  then obtain prnt first s1 left s2 right s3 s4 s5 where e:
    "(if first = p then rd p_sib_right p s \<bind> (\<lambda>right. wr p_child_update prnt right s) else Some s) = Some s1"
    "(if left \<noteq> NULL then rd p_sib_right p s1 \<bind> (\<lambda>right. wr p_sib_right_update left right s1) else Some s1) = Some s2"
    "(if right \<noteq> NULL then rd p_sib_left p s2 \<bind> (\<lambda>left. wr p_sib_left_update right left s2) else Some s2) = Some s3"
    "wr p_prnt_update p NULL s3 = Some s4" "wr p_sib_left_update p NULL s4 = Some s5" "wr p_sib_right_update p NULL s5 = Some s'"
    using assms by (auto simp: outChild_def bind_eq_Some_conv)
  have "links_only s s1" using e(1) by (auto simp: bind_eq_Some_conv wr_def links_only_def split: if_splits)
  moreover have "links_only s1 s2" using e(2) by (auto simp: bind_eq_Some_conv links_only_def split: if_splits)
  moreover have "links_only s2 s3" using e(3) by (auto simp: bind_eq_Some_conv links_only_def split: if_splits)
  ultimately show ?thesis using links_wr(3) [OF e(4)] links_wr(5) [OF e(5)] links_wr(6) [OF e(6)] by (simp add: links_only_def)
qed

lemma links_removeChild: "removeChild p s = Some (q, s') \<Longrightarrow> links_only s s'"
  using links_outChild [of _ s q s'] by (auto simp: removeChild_def bind_eq_Some_conv split: if_splits)

lemma links_linkSemd: "linkSemd a d s = Some s' \<Longrightarrow> links_only s s'"
  by (auto simp: linkSemd_def bind_eq_Some_conv split: if_splits dest!: links_wr) (simp_all add: links_only_def)

text \<open>\<open>insertBlocked\<close> also writes the semaphore of the PCB it inserts.\<close>

definition links_upto :: "nat \<Rightarrow> u32 \<Rightarrow> 'z kstate_scheme \<Rightarrow> 'z kstate_scheme \<Rightarrow> bool" where
  "links_upto c a s s' \<longleftrightarrow> links_only s s' \<or> (\<exists>s1. links_only s s1
     \<and> s' = s1\<lparr>pcbTable := (pcbTable s1)(c := (pcbTable s1 c)\<lparr>p_semAdd := a\<rparr>)\<rparr>)"

lemma links_upto_from: "links_only s s' \<Longrightarrow> links_upto c a s' s'' \<Longrightarrow> links_upto c a s s''"
  unfolding links_upto_def using links_only_trans by blast

lemma links_enqSemd:
  assumes "enqSemd a d (Some c) s = Some (b, s')"
  shows "links_upto c a s s'"
proof -
  obtain tp tp' s1 s2 where e: "insertProcQ tp (Some c) s = Some (tp', s1)" "swr s_procQ_update d tp' s1 = Some s2"
    "wr p_semAdd_update (Some c) a s2 = Some s'"
    using assms by (auto simp: enqSemd_def bind_eq_Some_conv)
  have "links_only s s2" using links_insertProcQ [OF e(1)] links_wr(8) [OF e(2)] by (rule links_only_trans)
  then show ?thesis using e(3) unfolding links_upto_def by auto
qed

lemma links_insertBlocked:
  assumes "insertBlocked a (Some c) s = Some (b, s')"
  shows "links_upto c a s s'"
proof -
  obtain d d' s1 where e: "(if d = NULL then do { (semd, s) \<leftarrow> allocSemd s;
      (if semd = NULL then Some (NULL, s) else do { s \<leftarrow> linkSemd a semd s; Some (semd, s) }) } else Some (d, s)) = Some (d', s1)"
    "(if d' = NULL then Some (True, s1) else enqSemd a d' (Some c) s1) = Some (b, s')"
    using assms by (auto simp: insertBlocked_def bind_eq_Some_conv)
  have "links_only s s1"
    using e(1) by (auto simp: allocSemd_def bind_eq_Some_conv split: if_splits dest!: links_linkSemd) (simp_all add: links_only_def)
  moreover have "links_upto c a s1 s'"
    using e(2) by (auto simp: links_upto_def [of c a s' s'] split: if_splits dest!: links_enqSemd)
  ultimately show ?thesis by (rule links_upto_from)
qed

lemma links_retireSemd: "retireSemd d s = Some s' \<Longrightarrow> links_only s s'"
  by (auto simp: retireSemd_def freeSemd_def bind_eq_Some_conv split: if_splits dest!: links_wr) (simp_all add: links_only_def)

lemma links_dropSemd: "dropSemd i tp s = Some s' \<Longrightarrow> links_only s s'"
proof -
  assume "dropSemd i tp s = Some s'"
  then obtain s1 where "swr s_procQ_update (Some i) tp s = Some s1"
    "(if emptyProcQ tp then retireSemd (Some i) s1 else Some s1) = Some s'"
    by (auto simp: dropSemd_def)
  then show ?thesis using links_wr(8) [of s_procQ_update "Some i" tp s s1] links_retireSemd [of "Some i" s1 s']
    by (auto simp: links_only_def split: if_splits)
qed

lemma links_semAdd [simp]:
  "links_only s (s\<lparr>pcbTable := (pcbTable s)(i := (pcbTable s i)\<lparr>p_semAdd := NULL_addr\<rparr>)\<rparr>)"
  by (simp add: links_only_def)

lemmas links_semAdd_from = links_only_trans [OF links_semAdd]

lemma links_removeBlocked:
  assumes "removeBlocked a s = Some (q, s')"
  shows "links_only s s'"
proof -
  obtain semd where "findSemd a s = Some semd" using assms by (auto simp: removeBlocked_def bind_eq_Some_conv)
  then show ?thesis
  proof (cases "semd = NULL")
    case False
    then obtain tp r tp' s1 s2 where e: "removeProcQ tp s = Some (r, tp', s1)" "swr s_procQ_update semd tp' s1 = Some s2"
      "(if r = NULL then Some (NULL, s2) else wr p_semAdd_update r NULL_addr s2 \<bind> (\<lambda>s. srd s_procQ semd s
         \<bind> (\<lambda>tp. (if emptyProcQ tp then retireSemd semd s else Some s) \<bind> (\<lambda>s. Some (r, s))))) = Some (q, s')"
      using assms \<open>findSemd a s = Some semd\<close> by (auto simp: removeBlocked_def bind_eq_Some_conv)
    have "links_only s2 s'"
      using e(3) by (auto simp: bind_eq_Some_conv split: if_splits dest!: links_retireSemd links_semAdd_from)
    then show ?thesis using links_removeProcQ [OF e(1)] links_wr(8) [OF e(2)] by (simp add: links_only_def)
  qed (use assms in \<open>simp add: removeBlocked_def\<close>)
qed

lemma links_outBlocked:
  assumes "outBlocked p s = Some (q, s')"
  shows "links_only s s'"
proof (cases "p = NULL")
  case False
  then obtain a where a: "rd p_semAdd p s = Some a" by (cases p) auto
  show ?thesis
  proof (cases "a = NULL_addr \<or> findSemd a s = Some NULL")
    case True
    then show ?thesis using assms a False by (auto simp: outBlocked_def split: if_splits)
  next
    case N: False
    then obtain d where d: "findSemd a s = Some (Some d)" using assms a False by (auto simp: outBlocked_def bind_eq_Some_conv)
    obtain tp r tp' s1 s2 where e: "outProcQ tp p s = Some (r, tp', s1)" "swr s_procQ_update (Some d) tp' s1 = Some s2"
      "(if r = NULL then Some (NULL, s2) else srd s_procQ (Some d) s2
         \<bind> (\<lambda>tp. (if emptyProcQ tp then retireSemd (Some d) s2 else Some s2) \<bind> (\<lambda>s. Some (p, s)))) = Some (q, s')"
      using assms a d N False by (auto simp: outBlocked_def bind_eq_Some_conv)
    have "links_only s2 s'"
      using e(3) by (auto simp: bind_eq_Some_conv split: if_splits dest!: links_retireSemd)
    then show ?thesis using links_outProcQ [OF e(1)] links_wr(8) [OF e(2)] by (simp add: links_only_def)
  qed
qed (use assms in \<open>simp add: outBlocked_def\<close>)

lemma links_wake: "wake_clock s = Some s' \<Longrightarrow> links_only s s'"
proof (rule wake_clock.raw_induct [where P = links_only], goal_cases)
  case (1 f s s')
  then obtain h where h: "headBlocked (devsem NUM_DEVICES s) s = Some h" by (auto simp: bind_eq_Some_conv)
  show ?case
  proof (cases "h = NULL")
    case False
    then obtain p s1 s2 where e: "removeBlocked (devsem NUM_DEVICES s) s = Some (p, s1)"
      "(if p = NULL then Some s1 else insertProcQ (readyQueue s1) p s1 \<bind> (\<lambda>(tp, s). Some (s\<lparr>readyQueue := tp\<rparr>))) = Some s2"
      "f s2 = Some s'"
      using 1(3) h by (auto simp: bind_eq_Some_conv split: prod.splits)
    have "links_only s1 s2" using e(2) by (auto simp: bind_eq_Some_conv split: if_splits dest!: links_insertProcQ)
    then show ?thesis using links_removeBlocked [OF e(1)] 1(2) [OF e(3)] by (simp add: links_only_def)
  qed (use 1(3) h in simp)
qed

end
