(* ===== verification/Isolation.thy ===== *)
theory Isolation
  imports Frames
begin

text \<open>
  What a handler of the nucleus does to the processes that are not running: nothing but to set the
  return value of one that a device has woken.  A process that is switched out is resumed exactly
  where it was.  The lemmas \<open>conf_*\<close> are about the operations of the nucleus, \<open>isolating_*\<close> about
  its handlers.
\<close>

section \<open>The operations of the nucleus\<close>

text \<open>The rules: a call of the first level, a change of one PCB in \<open>C\<close>, a change of what is not framed.\<close>

lemma confined_rest:
  assumes "\<And>i. i \<notin> C \<Longrightarrow> pcbTable s' i = pcbTable s i" and "\<And>k. k \<notin> K \<Longrightarrow> sups s' k = sups s k"
  shows "confined C K s s'"
  using assms by (simp add: confined_def)

lemma conf_links:
  assumes "links_only s s'" and "conf C K s' r"
  shows "conf C K s r"
  by (rule conf_trans [OF confined_links [OF assms(1)] assms(2)])

lemma conf_lift:
  assumes "\<And>x s'. r = Some (x, s') \<Longrightarrow> links_only s s'" and "set_option (currentProcess s) \<subseteq> C"
  shows "conf C K s (lift r)"
proof (cases r)
  case (Some y)
  then show ?thesis using assms(1) [of "fst y" "snd y"] assms(2) by (cases y) (auto simp: links_only_def confined_def spared_def)
qed simp

lemma conf_lift_unit:
  assumes "\<And>s'. r = Some s' \<Longrightarrow> links_only s s'" and "set_option (currentProcess s) \<subseteq> C"
  shows "conf C K s (lift_unit r)"
  using assms by (cases r) (auto simp: links_only_def confined_def spared_def)

lemma conf_scheduler: "conf C K s (scheduler s)"
proof (cases "removeProcQ (readyQueue s) s")
  case (Some y)
  obtain p tp s1 where y: "y = (p, tp, s1)" by (cases y)
  have "links_only s s1" by (rule links_removeProcQ) (use Some y in simp)
  then show ?thesis
    using Some y by (cases p) (auto simp: scheduler_def dispatch_def Let_def links_only_def confined_def spared_def setTIMER_def setSTATUS_def)
qed (simp add: scheduler_def)

lemma conf_make_ready:
  assumes "set_option (currentProcess s) \<subseteq> C"
  shows "conf C K s (make_ready p s)"
proof (cases "insertProcQ (readyQueue s) p s")
  case (Some y)
  then show ?thesis using links_insertProcQ [of "readyQueue s" p s "fst y" "snd y"] assms
    by (cases y) (auto simp: make_ready_def links_only_def confined_def spared_def)
qed (simp add: make_ready_def)

lemma conf_updateCPUTime:
  assumes "set_option (currentProcess s) \<subseteq> C"
  shows "conf C K s (updateCPUTime s)"
  using assms by (cases "currentProcess s") (auto simp: updateCPUTime_def STCK_def Let_def confined_def)

section \<open>Termination\<close>

lemma conf_unblock_dead:
  assumes "set_option (currentProcess s) \<subseteq> C"
  shows "conf C K s (unblock_dead p s)"
proof -
  let ?s = "if is_devsem (p_semAdd (pcbTable s p)) s then s
    else store_word (p_semAdd (pcbTable s p)) (mem s (p_semAdd (pcbTable s p)) + 1) s"
  have "links_only s ?s" by (simp add: links_only_def)
  then have "conf C K s (kthen (lift (outBlocked (Some p) ?s)) (\<lambda>_ s'.
      Ret () (if is_devsem (p_semAdd (pcbTable s p)) s' then s'\<lparr>softBlockCount := softBlockCount s' - 1\<rparr> else s')))"
    by (rule conf_links) (intro conf_kthen conf_lift links_outBlocked; use assms in \<open>auto simp: confined_def\<close>)
  then show ?thesis using assms by (simp add: unblock_dead_def Let_def)
qed

lemma conf_unqueue_dead:
  assumes "set_option (currentProcess s) \<subseteq> C"
  shows "conf C K s (unqueue_dead p s)"
proof (cases "outProcQ (readyQueue s) (Some p) s")
  case (Some y)
  then show ?thesis using links_outProcQ [of "readyQueue s" "Some p" s "fst y" "fst (snd y)" "snd (snd y)"] assms
    by (cases y) (auto simp: unqueue_dead_def links_only_def confined_def spared_def)
qed (simp add: unqueue_dead_def)

lemma conf_detach_dead:
  assumes "set_option (currentProcess s) \<subseteq> C"
  shows "conf C K s (detach_dead p s)"
  unfolding detach_dead_def using assms by (auto intro!: conf_kthen conf_lift links_outChild)

lemma conf_free_dead:
  assumes "set_option (currentProcess s) \<subseteq> C"
  shows "conf C K s (free_dead p s)"
proof -
  let ?s = "if Some p = currentProcess s then s\<lparr>currentProcess := NULL\<rparr> else s"
  have "confined C K s ?s" and s: "set_option (currentProcess ?s) \<subseteq> C" using assms by (auto simp: confined_def)
  moreover have "conf C K ?s (kthen (lift_unit (freePcb (Some p) ?s)) (\<lambda>_ s'.
      let s'' = (if 0 < sint (processCount s') then s'\<lparr>processCount := processCount s' - 1\<rparr> else s')
      in if processCount s'' = 0 then Exit HALT s'' else Ret () s''))"
    by (intro conf_kthen conf_lift_unit links_freePcb s) (auto simp: Let_def confined_def)
  ultimately show ?thesis unfolding free_dead_def by (simp add: Let_def conf_trans)
qed

lemma conf_bury: "set_option (currentProcess s) \<subseteq> C \<Longrightarrow> conf C K s (bury p s)"
  unfolding bury_def by (intro conf_kthen conf_unblock_dead conf_unqueue_dead conf_detach_dead conf_free_dead)

lemma conf_terminate_n:
  "set_option (currentProcess s) \<subseteq> C \<Longrightarrow> conf C K s (sysTerminate_n n p s)"
  "set_option (currentProcess s) \<subseteq> C \<Longrightarrow> conf C K s (kill_children n i s)"
proof (induction n p s and n i s rule: sysTerminate_n_kill_children.induct)
  case (2 n p s)
  then show ?case by (cases p) (auto intro!: conf_kthen conf_bury)
next
  case (4 n p s)
  show ?case
  proof (cases "emptyChild (Some p) s")
    case (Some b)
    then show ?thesis
      using 4 by (cases b) (auto intro!: conf_kthen conf_lift links_removeChild)
  qed simp
qed simp_all

lemma conf_terminate: "set_option (currentProcess s) \<subseteq> C \<Longrightarrow> conf C K s (sysTerminate p s)"
  unfolding sysTerminate_def by (rule conf_terminate_n)

lemma conf_kill:
  "set_option (currentProcess s) \<subseteq> C \<Longrightarrow> conf C K s (kthen (sysTerminate p s) (\<lambda>_ s. scheduler s))"
  by (intro conf_kthen conf_terminate conf_scheduler)

section \<open>System calls\<close>

lemma confined_upto: "links_upto c a s s' \<Longrightarrow> c \<in> C \<Longrightarrow> confined C K s s' \<and> currentProcess s' = currentProcess s"
  by (auto simp: links_upto_def links_only_def confined_def spared_def)

lemma conf_insertBlocked:
  assumes "c \<in> C" and "set_option (currentProcess s) \<subseteq> C"
  shows "conf C K s (lift (insertBlocked a (Some c) s))"
proof (cases "insertBlocked a (Some c) s")
  case (Some y)
  then show ?thesis
    using confined_upto [OF links_insertBlocked [of a c s "fst y" "snd y"] assms(1)] assms(2) by (cases y) simp
qed simp

lemma conf_block_current:
  assumes "c \<in> C" and "set_option (currentProcess s) \<subseteq> C"
  shows "conf C K s (block_current a c s)"
  unfolding block_current_def Let_def
  by (rule conf_trans [OF confined_rest,
        where s' = "s\<lparr>pcbTable := (pcbTable s)(c := (pcbTable s c)\<lparr>p_s := bios s, p_semAdd := a\<rparr>)\<rparr>"])
    (use assms in \<open>auto intro!: conf_kthen conf_insertBlocked conf_scheduler\<close>)

lemma conf_store: "conf C K (store_word a v s) r \<Longrightarrow> conf C K s r"
  by (rule conf_trans [OF confined_rest]) simp_all

lemma conf_passeren:
  assumes "set_option (currentProcess s) \<subseteq> C"
  shows "conf C K s (sysPasseren a s)"
  unfolding sysPasseren_def Let_def
  by (intro conf_kthen conf_updateCPUTime assms, rule conf_store [of _ _ a])
    (auto split: option.splits intro!: conf_block_current)

lemma conf_verhogen:
  assumes "set_option (currentProcess s) \<subseteq> C"
  shows "conf C K s (sysVerhogen a s)"
proof -
  have ready: "conf C K s (make_ready p (s\<lparr>pcbTable := (pcbTable s)(i := (pcbTable s i)\<lparr>p_semAdd := NULL_addr\<rparr>)\<rparr>))"
    if "set_option (currentProcess s) \<subseteq> C" for p i and s :: "'a kstate_scheme"
    by (rule conf_links [where s' = "s\<lparr>pcbTable := (pcbTable s)(i := (pcbTable s i)\<lparr>p_semAdd := NULL_addr\<rparr>)\<rparr>"])
      (use that in \<open>auto intro: conf_make_ready\<close>)
  show ?thesis
    unfolding sysVerhogen_def Let_def
    by (rule conf_store [of _ _ a]) (use assms in \<open>auto split: option.splits intro!: conf_kthen conf_lift links_removeBlocked ready\<close>)
qed

lemma conf_waitio:
  assumes "set_option (currentProcess s) \<subseteq> C"
  shows "conf C K s (sysWaitIO l d w s)"
  unfolding sysWaitIO_def Let_def
  by (rule conf_trans [OF confined_rest, where s' = "s\<lparr>softBlockCount := softBlockCount s + 1\<rparr>"])
    (use assms in \<open>auto intro!: conf_kthen conf_passeren simp: set_saved_reg_def confined_def\<close>)

lemma conf_waitclock:
  assumes "set_option (currentProcess s) \<subseteq> C"
  shows "conf C K s (sysWaitClock s)"
proof -
  have "conf C K s (sysPasseren b (s\<lparr>softBlockCount := n\<rparr>))"
    if "set_option (currentProcess s) \<subseteq> C" for b n and s :: "'a kstate_scheme"
    by (rule conf_trans [OF confined_rest, where s' = "s\<lparr>softBlockCount := n\<rparr>"]) (use that in \<open>simp_all add: conf_passeren\<close>)
  then show ?thesis unfolding sysWaitClock_def Let_def by (intro conf_kthen conf_updateCPUTime assms) simp
qed

lemma links_allocPcb:
  assumes "allocPcb s = Some (q, s')"
  shows "confined (set_option q) {} s s' \<and> currentProcess s' = currentProcess s \<and> (q = NULL \<or> q = pcbFree_h s)"
  using assms by (auto simp: allocPcb_def confined_def bind_eq_Some_conv split: if_splits)

lemma confined_mono: "confined C K s s' \<Longrightarrow> C \<subseteq> C' \<Longrightarrow> K \<subseteq> K' \<Longrightarrow> confined C' K' s s'"
  by (auto simp: confined_def)

lemma conf_create:
  assumes c: "set_option (currentProcess s) \<subseteq> C" and f: "set_option (pcbFree_h s) \<subseteq> C"
  shows "conf C K s (sysCreateProcess r sp s)"
proof (cases "allocPcb s")
  case (Some y)
  then obtain q s1 where y: "allocPcb s = Some (q, s1)" by (cases y) auto
  note A = links_allocPcb [OF y]
  have s1: "confined C K s s1" by (rule confined_mono [of "set_option q" "{}"]) (use A f in auto)
  show ?thesis
  proof (cases q)
    case None
    then show ?thesis using y s1 A c by (simp add: sysCreateProcess_def)
  next
    case q: (Some n)
    then have n: "n \<in> C" using A f by auto
    let ?s = "s1\<lparr>pcbTable := (pcbTable s1)(n := (pcbTable s1 n)\<lparr>p_s := load_state r s1, p_supportStruct := sp,
      p_time := 0, p_semAdd := NULL_addr\<rparr>)\<rparr>"
    have "confined C K s1 ?s" by (rule confined_rest) (use n in auto)
    then have "confined C K s ?s" by (rule confined_trans [OF s1])
    moreover have "conf C K ?s (kthen (lift_unit (insertChild (currentProcess ?s) q ?s)) (\<lambda>_ s.
        kthen (make_ready q s) (\<lambda>_ s. Ret 0 (s\<lparr>processCount := processCount s + 1\<rparr>))))"
      by (intro conf_kthen conf_lift_unit conf_make_ready links_insertChild) (use A c in \<open>auto simp: confined_def\<close>)
    ultimately have "conf C K s (kthen (lift_unit (insertChild (currentProcess ?s) q ?s)) (\<lambda>_ s.
        kthen (make_ready q s) (\<lambda>_ s. Ret 0 (s\<lparr>processCount := processCount s + 1\<rparr>))))" by (rule conf_trans)
    then show ?thesis using y q by (simp add: sysCreateProcess_def Let_def)
  qed
qed (simp add: sysCreateProcess_def)

lemma conf_passUp:
  assumes "set_option (currentProcess s) \<subseteq> C"
    and "\<And>c. currentProcess s = Some c \<Longrightarrow> set_option (p_supportStruct (pcbTable s c)) \<subseteq> K"
  shows "conf C K s (passUpOrDie n s)"
proof (cases "currentProcess s")
  case (Some c)
  show ?thesis
  proof (cases "p_supportStruct (pcbTable s c)")
    case None
    then show ?thesis using Some assms(1) by (simp add: passUpOrDie_def conf_kill)
  next
    case (Some k)
    then show ?thesis using assms \<open>currentProcess s = Some c\<close>
      by (auto simp: passUpOrDie_def Let_def confined_def)
  qed
qed (simp add: passUpOrDie_def)

lemma conf_bios: "conf C K (s\<lparr>bios := b\<rparr>) r \<Longrightarrow> conf C K s r"
  by (rule conf_trans [OF confined_rest]) simp_all

lemma scheduler_no_Ret: "scheduler s \<noteq> Ret x s'" "kthen r (\<lambda>_ s. scheduler s) \<noteq> Ret x s'"
proof -
  show *: "scheduler s \<noteq> Ret x s'" for s :: "'a kstate_scheme" and x s'
    by (auto simp: scheduler_def dispatch_def Let_def split: option.splits)
  show "kthen r (\<lambda>_ s. scheduler s) \<noteq> Ret x s'" by (cases r) (simp_all add: *)
qed

lemma passUp_no_Ret: "passUpOrDie n s \<noteq> Ret x s'"
  by (auto simp: passUpOrDie_def Let_def scheduler_no_Ret split: option.splits)

section \<open>The handlers\<close>

text \<open>What a handler entered in the state \<open>s\<close> may change.\<close>

definition touched :: "'z kstate_scheme \<Rightarrow> nat set" where
  "touched s = set_option (currentProcess s) \<union> set_option (pcbFree_h s)"

definition own_support :: "'z kstate_scheme \<Rightarrow> nat set" where
  "own_support s = (case currentProcess s of None \<Rightarrow> {} | Some c \<Rightarrow> set_option (p_supportStruct (pcbTable s c)))"

abbreviation (input) isolating :: "'z kstate_scheme \<Rightarrow> ('z kstate_scheme, 'a) kres \<Rightarrow> bool" where
  "isolating s r \<equiv> conf (touched s) (own_support s) s r"

lemma touched_current [simp]: "set_option (currentProcess s) \<subseteq> touched s"
  by (simp add: touched_def)

lemma isolating_passUp: "isolating s (passUpOrDie n s)"
  by (rule conf_passUp) (auto simp: own_support_def)

lemma conf_if: "(b \<Longrightarrow> conf C K s r) \<Longrightarrow> (\<not> b \<Longrightarrow> conf C K s r') \<Longrightarrow> conf C K s (if b then r else r')"
  by simp

lemma conf_leave: "set_option (currentProcess s) \<subseteq> C \<Longrightarrow> conf C K s (Exit (LDST (bios s)) s)"
  by auto

lemma isolating_syscall: "isolating s (syscallHandler s)"
proof -
  define t where "t = s\<lparr>bios := (bios s)\<lparr>s_pc := s_pc (bios s) + 4\<rparr>\<rparr>"
  have same: "touched t = touched s" "own_support t = own_support s" "confined (touched s) (own_support s) s t"
    by (simp_all add: t_def touched_def own_support_def confined_def cong: option.case_cong)
  have cur: "set_option (currentProcess t) \<subseteq> touched t" "set_option (pcbFree_h t) \<subseteq> touched t"
    by (auto simp: touched_def)
  have pass: "kthen (passUpOrDie n t) f = passUpOrDie n t" for n and f :: "unit \<Rightarrow> 'a kstate_scheme \<Rightarrow> _"
    by (cases "passUpOrDie n t") (metis passUp_no_Ret, simp_all)
  have "isolating t (syscallHandler s)"
  proof (cases "s_status (bios t) AND KUPBITON \<noteq> 0")
    case True
    then have "syscallHandler s = passUpOrDie GENERALEXCEPT t"
      unfolding syscallHandler_def by (simp only: Let_def t_def [symmetric] if_True not_False_eq_True pass)
    then show ?thesis by (simp only: isolating_passUp)
  next
    case False
    have create: "isolating t (kthen (sysCreateProcess a b t) (\<lambda>x s. Ret () (set_saved_reg r_v0 x s)))" for a b
      by (rule conf_kthen [OF conf_create [OF cur]]) (simp add: set_saved_reg_def confined_def)
    have time: "isolating t (sysGetCPUTime t)"
      by (auto simp: sysGetCPUTime_def STCK_def Let_def set_saved_reg_def confined_def touched_def split: option.splits)
    have sup: "isolating t (case sysGetSupportPTR t of None \<Rightarrow> Stuck | Some k \<Rightarrow> Ret () (set_saved_reg r_v0 (f k) t))" for f
      by (auto simp: set_saved_reg_def confined_def touched_def split: option.splits)
    show ?thesis
      using False unfolding syscallHandler_def
      by (simp only: Let_def t_def [symmetric] if_False kthen.simps)
        (rule conf_kthen [OF _ conf_leave],
          auto simp only: create time sup conf_kill conf_passeren conf_verhogen conf_waitio conf_waitclock
            isolating_passUp cur split: if_split)
  qed
  then show ?thesis unfolding same(1,2) by (rule conf_trans [OF same(3)])
qed


lemma isolating_plt: "isolating s (handlePLTInterrupt s)"
proof -
  have keep: "confined C K s (setTIMER v s)" for C K v by (simp add: confined_def)
  show ?thesis
  proof (cases "currentProcess s")
    case None
    have "handlePLTInterrupt s = scheduler (setTIMER 5000 s)" using None by (simp add: handlePLTInterrupt_def Let_def)
    then show ?thesis using conf_trans [OF keep conf_scheduler] by metis
  next
    case (Some c)
    let ?t = "setTIMER 5000 s"
    let ?s = "?t\<lparr>pcbTable := (pcbTable ?t)(c := (pcbTable ?t c)\<lparr>p_s := bios ?t\<rparr>)\<rparr>"
    have "handlePLTInterrupt s = kthen (kthen (updateCPUTime ?s) (\<lambda>_ s. make_ready (currentProcess s) s)) (\<lambda>_ s. scheduler s)"
      using Some by (simp add: handlePLTInterrupt_def Let_def)
    moreover have "conf (touched s) (own_support s) ?s
        (kthen (kthen (updateCPUTime ?s) (\<lambda>_ s. make_ready (currentProcess s) s)) (\<lambda>_ s. scheduler s))"
      by (intro conf_kthen conf_updateCPUTime conf_make_ready conf_scheduler) simp_all
    moreover have "confined (touched s) (own_support s) s ?s" using Some by (intro confined_rest) (auto simp: touched_def)
    ultimately show ?thesis by (simp only: conf_trans)
  qed
qed

lemma isolating_clock: "isolating s (handleIntervalTimerInterrupt s)"
proof -
  let ?t = "LDIT CLOCKINTERVAL s"
  have t: "confined (touched s) (own_support s) s ?t" "set_option (currentProcess ?t) \<subseteq> touched s"
    by (simp_all add: LDIT_def confined_def)
  have "conf (touched s) (own_support s) s' (let s = store_word (devsem NUM_DEVICES s') 0 s'
      in if currentProcess s \<noteq> NULL then Exit (LDST (bios s)) s else scheduler s)"
    if "set_option (currentProcess s') \<subseteq> touched s" for s' :: "'a kstate_scheme"
    unfolding Let_def by (rule conf_store [of _ _ "devsem NUM_DEVICES s'" 0]) (use that in \<open>auto simp: conf_scheduler\<close>)
  then show ?thesis
    unfolding handleIntervalTimerInterrupt_def by (intro conf_trans [OF t(1)] conf_kthen conf_lift_unit links_wake t(2)) assumption+
qed

text \<open>The only change of a process that waits: the value its \<open>SYS5\<close> returns.\<close>

definition asleep_on :: "u32 \<Rightarrow> 'z kstate_scheme \<Rightarrow> bool" where
  "asleep_on a s \<longleftrightarrow> (\<forall>i s'. removeBlocked a s = Some (Some i, s') \<longrightarrow> p_semAdd (pcbTable s i) \<noteq> NULL_addr)"

lemma asleep_inv:
  assumes "asl_inv s B" and "a < MAXINT"
  shows "asleep_on a s"
proof (cases "B a")
  case Nil
  then show ?thesis using removeBlocked_none [OF assms(1) _ assms(2)] by (simp add: asleep_on_def)
next
  case (Cons p q)
  have "p_semAdd (pcbTable s p) = a" by (rule asl_waiting(3) [OF assms(1)]) (simp add: Cons)
  then show ?thesis using removeBlocked_spec [OF assms(1) Cons] assms(2) by (auto simp: asleep_on_def)
qed

lemma conf_woken:
  assumes a: "asleep_on a s" and r: "removeBlocked a s = Some (Some i, s1)" and c: "set_option (currentProcess s) \<subseteq> C"
  shows "conf C K s (make_ready p (s1\<lparr>pcbTable := (pcbTable s1)(i := (pcbTable s1 i)
    \<lparr>p_s := set_reg r_v0 v (p_s (pcbTable s1 i))\<rparr>), softBlockCount := n\<rparr>))"
proof -
  have "links_only s s1" by (rule links_removeBlocked [OF r])
  moreover have "p_semAdd (pcbTable s i) \<noteq> NULL_addr" using a r by (auto simp: asleep_on_def)
  ultimately have "confined C K s (s1\<lparr>pcbTable := (pcbTable s1)(i := (pcbTable s1 i)
      \<lparr>p_s := set_reg r_v0 v (p_s (pcbTable s1 i))\<rparr>), softBlockCount := n\<rparr>)" and "currentProcess s1 = currentProcess s"
    using same_context_v0 by (auto simp: confined_def spared_def links_only_def)
  then show ?thesis using c by (intro conf_trans [OF _ conf_make_ready]) simp_all
qed

lemma conf_wake_device:
  assumes a: "asleep_on a s" and c: "set_option (currentProcess s) \<subseteq> C"
  shows "conf C K s (kthen (lift (removeBlocked a s)) (\<lambda>p s. kthen (case p of None \<Rightarrow> Ret () s
      | Some i \<Rightarrow> let s = s\<lparr>pcbTable := (pcbTable s)(i := (pcbTable s i)\<lparr>p_s := set_reg r_v0 v (p_s (pcbTable s i))\<rparr>)\<rparr>;
            s = s\<lparr>softBlockCount := softBlockCount s - 1\<rparr>
          in make_ready p s)
    (\<lambda>_ s. if currentProcess s = NULL then scheduler s else Exit (LDST (bios s)) s)))"
proof (cases "removeBlocked a s")
  case (Some y)
  obtain p s1 where y: "y = (p, s1)" by (cases y)
  have l: "links_only s s1" by (rule links_removeBlocked) (use Some y in simp)
  show ?thesis unfolding Some y lift_simps kthen.simps
  proof (rule conf_kthen, goal_cases)
    case 1
    show ?case
    proof (cases p)
      case None
      then show ?thesis using l c confined_links [OF l] by (simp add: links_only_def)
    next
      case (Some i)
      then show ?thesis using conf_woken [OF a _ c, of i s1] \<open>removeBlocked a s = Some y\<close> y by (simp add: Let_def)
    qed
  qed (auto simp: conf_scheduler)
qed simp

lemma isolating_device:
  assumes "\<And>d st s1 v. getHighestPriorityDevice l s = Some d \<Longrightarrow> ack_device l (DEV_REG_ADDR l d) s = (Some st, s1) \<Longrightarrow>
    asleep_on (devsem (device_index l d st) s) (store_word (devsem (device_index l d st) s) v s1)"
  shows "isolating s (handleDeviceInterrupt l s)"
proof (cases "getHighestPriorityDevice l s")
  case (Some d)
  let ?C = "touched s" and ?K = "own_support s"
  obtain st s1 where s1: "ack_device l (DEV_REG_ADDR l d) s = (st, s1)" by (cases "ack_device l (DEV_REG_ADDR l d) s")
  then have "s1 = s \<or> (\<exists>a v. s1 = store_word a v s)" by (auto simp: ack_device_def split: if_splits)
  then have c: "confined ?C ?K s s1" "set_option (currentProcess s1) \<subseteq> ?C" "devsem i s1 = devsem i s" for i
    by (auto simp: confined_def touched_def devsem_def)
  show ?thesis
  proof (cases st)
    case (Some status)
    let ?a = "devsem (device_index l d status) s1"
    have asleep: "asleep_on ?a (store_word ?a v s1)" for v
      using assms [OF \<open>getHighestPriorityDevice l s = Some d\<close>] s1 Some c(3) by simp
    have "conf ?C ?K s1 (let s2 = store_word ?a (mem s1 ?a + 1) s1
      in if sint (mem s2 ?a) \<le> 0 then kthen (lift (removeBlocked ?a s2)) (\<lambda>p s. kthen (case p of None \<Rightarrow> Ret () s
          | Some i \<Rightarrow> let s = s\<lparr>pcbTable := (pcbTable s)(i := (pcbTable s i)\<lparr>p_s := set_reg r_v0 status (p_s (pcbTable s i))\<rparr>)\<rparr>;
                s = s\<lparr>softBlockCount := softBlockCount s - 1\<rparr>
              in make_ready p s)
        (\<lambda>_ s. if currentProcess s = NULL then scheduler s else Exit (LDST (bios s)) s)) else Ret () s2)"
      by (subst Let_def, rule conf_store [of _ _ ?a "mem s1 ?a + 1"], rule conf_if, rule conf_wake_device) (use asleep c(2) in simp_all)
    then have "conf ?C ?K s (handleDeviceInterrupt l s)"
      using \<open>getHighestPriorityDevice l s = Some d\<close> s1 Some
      by (intro conf_trans [OF c(1)]) (simp only: handleDeviceInterrupt_def option.case prod.case Let_def)
    then show ?thesis .
  qed (use Some s1 in \<open>simp add: handleDeviceInterrupt_def\<close>)
qed (simp add: handleDeviceInterrupt_def)

lemma isolating_pending:
  assumes g: "good l s" and l: "link_ok l" and p: "device_pending line s"
  shows "isolating s (handleDeviceInterrupt line s)"
proof (rule isolating_device)
  fix d st s1 v assume d: "getHighestPriorityDevice line s = Some d" "ack_device line (DEV_REG_ADDR line d) s = (Some st, s1)"
  then have dev: "is_device line d 0" using p by (auto simp: device_pending_def)
  obtain fr rq B L ts where k: "kbase s fr rq B L ts" "link s = l" using g by (rule goodE)
  let ?a = "devsem (device_index line d st) s"
  have "sem_addr ?a" by (rule devsem_addr [OF _ device_index_le [OF dev]]) (use k(2) l in simp)
  moreover have "s1 = s \<or> (\<exists>a v. s1 = store_word a v s)" using d(2) by (auto simp: ack_device_def split: if_splits)
  then have "kq (store_word ?a v s1) fr rq B L" using kbaseD(1) [OF k(1)] by auto
  ultimately show "asleep_on ?a (store_word ?a v s1)" by (intro asleep_inv [OF kqD(3)]) (simp_all add: sem_addr_def)
qed

lemma isolating_exception:
  assumes g: "good l s" and l: "link_ok l" and a: "admissible s"
  shows "isolating s (exceptionHandler s)"
proof -
  have "isolating s (handleDeviceInterrupt n s)"
    if "exceptionCode (s_cause (bios s)) = 0" "getHighestPriorityInterrupt (s_cause (bios s)) = n" "n \<in> {3, 4, 5, 6, 7}" for n
    by (rule isolating_pending [OF g l]) (use a that in \<open>auto simp: admissible_def Let_def\<close>)
  then have "isolating s (interruptHandler s)" if "exceptionCode (s_cause (bios s)) = 0"
    unfolding interruptHandler_def Let_def using that isolating_plt isolating_clock
    by (intro conf_kthen [OF _ conf_leave] conf_if) (simp_all add: touched_def)
  then show ?thesis
    unfolding exceptionHandler_def Let_def TLBExceptionHandler_def programTrapHandler_def
    by (intro conf_if isolating_passUp isolating_syscall conf_kill touched_current) simp
qed

lemma isolating_refill: "isolating s (uTLB_RefillHandler s)"
  by (auto simp: uTLB_RefillHandler_def Let_def confined_def touched_def split: option.splits)

lemma isolating_handler: "good l s \<Longrightarrow> link_ok l \<Longrightarrow> owed e s \<Longrightarrow> isolating s (handler e s)"
  by (cases e) (auto simp: handler_def owed_def isolating_refill isolating_exception)

section \<open>Runs in which a process is away\<close>

text \<open>From \<open>s\<close> to \<open>t\<close> the process \<open>i\<close> did not run, and its PCB was not given to a new process.\<close>

inductive away :: "nat \<Rightarrow> sstate \<Rightarrow> sstate \<Rightarrow> bool" for i s where
  leave: "away i s s"
| run: "away i s t \<Longrightarrow> runs t t' \<Longrightarrow> away i s t'"
| step: "away i s t \<Longrightarrow> currentProcess t \<noteq> Some i \<Longrightarrow> pcbFree_h t \<noteq> Some i \<Longrightarrow> owed e t \<Longrightarrow>
    handler e t = Exit x u \<Longrightarrow> x \<noteq> HALT \<Longrightarrow> away i s u"

lemma runs_table: "runs s t \<Longrightarrow> pcbTable t = pcbTable s"
  by (simp add: runs_def)

lemma handler_spared:
  assumes g: "good l t" "link_ok l" "owed e t" and h: "handler e t = Exit x u"
    and i: "currentProcess t \<noteq> Some i" "pcbFree_h t \<noteq> Some i"
  shows "spared (pcbTable t i) (pcbTable u i)" and "currentProcess u = Some i \<Longrightarrow> x = LDST (p_s (pcbTable u i))"
proof -
  have "isolating t (Exit x u)" using isolating_handler [OF g] h by simp
  moreover have "i \<notin> touched t" using i by (auto simp: touched_def)
  ultimately show "spared (pcbTable t i) (pcbTable u i)" "currentProcess u = Some i \<Longrightarrow> x = LDST (p_s (pcbTable u i))"
    by (simp_all add: confined_def)
qed

lemma away_spared:
  assumes "away i s t" and "good l s" and l: "link_ok l"
  shows "good l t \<and> spared (pcbTable s i) (pcbTable t i)"
  using assms(1)
proof induction
  case (run t t')
  then show ?case using good_runs runs_table by metis
next
  case (step t e x u)
  have "good l u" using handler_leaves [of l t e] step.IH step.hyps(4-6) l by simp
  moreover have "spared (pcbTable t i) (pcbTable u i)" by (rule handler_spared) (use step l in auto)
  ultimately show ?case using step.IH spared_trans by blast
qed (simp add: assms(2))

text \<open>The end of a time slice saves the state of the running process.\<close>

lemma timer_run:
  assumes k: "kq t fr rq B L" and c: "currentProcess t = Some i" "i \<in> L"
    and cause: "exceptionCode (s_cause (bios t)) = 0" "getHighestPriorityInterrupt (s_cause (bios t)) = 1"
  shows "\<exists>u. exceptionHandler t = Exit (LDST (if rq = [] then bios t else p_s (pcbTable t (hd rq)))) u
    \<and> kq u fr (tl (rq @ [i])) B (insert (hd (rq @ [i])) (L - {i})) \<and> currentProcess u = Some (hd (rq @ [i]))
    \<and> p_s (pcbTable u i) = bios t \<and> p_semAdd (pcbTable u i) = NULL_addr"
proof -
  obtain u where u: "handlePLTInterrupt t = Exit (LDST (if rq = [] then bios t else p_s (pcbTable t (hd rq)))) u"
    "kq u fr (tl (rq @ [i])) B (insert (hd (rq @ [i])) (L - {i}))" "currentProcess u = Some (hd (rq @ [i]))"
    "p_s (pcbTable u i) = bios t"
    using plt_run [OF k c] by blast
  have "i \<in> set (tl (rq @ [i])) \<or> i \<in> insert (hd (rq @ [i])) (L - {i})" by (cases rq) simp_all
  then have "p_semAdd (pcbTable u i) = NULL_addr" using kqD(5,6) [OF u(2)] by blast
  moreover have "exceptionHandler t = handlePLTInterrupt t"
    using cause u(1) by (simp add: exceptionHandler_def interruptHandler_def Let_def)
  ultimately show ?thesis using u by auto
qed

lemma timer_parks:
  assumes g: "good l t" and c: "currentProcess t = Some i"
    and cause: "exceptionCode (s_cause (bios t)) = 0" "getHighestPriorityInterrupt (s_cause (bios t)) = 1"
  shows "\<exists>x u. exceptionHandler t = Exit (LDST x) u \<and> p_s (pcbTable u i) = bios t
    \<and> p_semAdd (pcbTable u i) = NULL_addr"
proof -
  obtain fr rq B L ts where k: "kbase t fr rq B L ts" "set_option (currentProcess t) \<subseteq> L" using g by (rule goodE)
  show ?thesis using timer_run [OF kbaseD(1) [OF k(1)] c _ cause] k(2) c by auto
qed

text \<open>The first process and the delay daemon, each interrupted once by the local timer.\<close>

definition interrupted :: "u32 \<Rightarrow> state_t" where
  "interrupted pc = zero_state\<lparr>s_cause := 0x200, s_pc := pc\<rparr>"

lemma interrupted_timer:
  "exceptionCode (s_cause (interrupted pc)) = 0" "getHighestPriorityInterrupt (s_cause (interrupted pc)) = 1"
  by (simp_all add: interrupted_def exceptionCode_def getHighestPriorityInterrupt_def lowest_line.simps)

lemma owed_timer: "owed Exception (s\<lparr>bios := interrupted pc\<rparr>)"
  using interrupted_timer [of pc] by (simp add: owed_def admissible_def Let_def)

lemma zero_boot: "supportFreeList zero_sstate = NULL" "link zero_sstate = zero_link" "sems_apart (link zero_sstate)"
    "link_ok (link zero_sstate)"
  using zero_link_apart by (simp_all add: zero_sstate_def link_ok_def zero_link_def)

lemma ten: "[10..<MAXPROC] = 10 # [11..<MAXPROC]"
  by (simp add: upt_rec [of 10])

lemma slice:
  assumes "kq s [10..<MAXPROC] [j] (\<lambda>_. []) L" and "currentProcess s = Some i" and "i \<in> L" and "i < 10" and "j < 10"
  shows "\<exists>u. handler Exception (s\<lparr>bios := interrupted pc\<rparr>) = Exit (LDST (p_s (pcbTable s j))) u
    \<and> kq u [10..<MAXPROC] [i] (\<lambda>_. []) (insert j (L - {i})) \<and> currentProcess u = Some j \<and> pcbFree_h u = Some 10"
proof -
  let ?t = "s\<lparr>bios := interrupted pc\<rparr>"
  have t: "kq ?t [10..<MAXPROC] [j] (\<lambda>_. []) L" "currentProcess ?t = Some i" using assms(1,2) by simp_all
  have c: "exceptionCode (s_cause (bios ?t)) = 0" "getHighestPriorityInterrupt (s_cause (bios ?t)) = 1"
    by (simp_all add: interrupted_timer)
  obtain u where u: "exceptionHandler ?t = Exit (LDST (p_s (pcbTable s j))) u"
    "kq u [10..<MAXPROC] [i] (\<lambda>_. []) (insert j (L - {i}))" "currentProcess u = Some j"
    using timer_run [OF t assms(3) c] by auto
  have "pcbFree_h u = Some 10" using kqD(1) [OF u(2)] by (simp add: pcb_pool_def ten)
  then show ?thesis using u by (auto simp: handler_def)
qed

lemma zero_slices:
  "\<exists>s u w st. reached zero_sstate s \<and> currentProcess s = Some 0
    \<and> handler Exception (s\<lparr>bios := interrupted a\<rparr>) = Exit (LDST (p_s (pcbTable s 1))) u \<and> currentProcess u = Some 1
    \<and> handler Exception (u\<lparr>bios := interrupted b\<rparr>) = Exit (LDST st) w \<and> currentProcess w = Some 0
    \<and> pcbFree_h s = Some 10 \<and> pcbFree_h u = Some 10"
proof -
  obtain s e where s: "main zero_sstate = Exit e s" "kq s [10..<MAXPROC] [1] (\<lambda>_. []) ({0} \<union> {2..<10})" "currentProcess s = Some 0"
    using main_run [OF zero_boot(1,3)] by blast
  have free: "pcbFree_h s = Some 10" using kqD(1) [OF s(2)] by (simp add: pcb_pool_def ten)
  obtain u where u: "handler Exception (s\<lparr>bios := interrupted a\<rparr>) = Exit (LDST (p_s (pcbTable s 1))) u"
    "kq u [10..<MAXPROC] [0] (\<lambda>_. []) (insert 1 (({0} \<union> {2..<10}) - {0}))" "currentProcess u = Some 1" "pcbFree_h u = Some 10"
    using slice [OF s(2,3)] by auto
  obtain w where "handler Exception (u\<lparr>bios := interrupted b\<rparr>) = Exit (LDST (p_s (pcbTable u 0))) w" "currentProcess w = Some 0"
    using slice [OF u(2,3)] by auto
  then show ?thesis using reached.boot [OF s(1)] s(3) free u by blast
qed

section \<open>Properties\<close>

text \<open>C9: Isolation.  Every exception and TLB refill handled in a run of the kernel, interrupts,
  system calls and the termination of whole process trees included, leaves every process but the
  current one and the one created from the head of the free list as it was: its support structure
  and its saved processor state are kept, except that \<open>v0\<close> of a process waiting on a semaphore can
  be set (by the interrupt of the device it waits for); no support structure but the current
  process's own is written; and when another process becomes the current one, the kernel is left
  with exactly that process's saved state.\<close>

theorem handlers_isolate:
  assumes "reached s0 s" and "supportFreeList s0 = NULL" and "sems_apart (link s0)" and "link_ok (link s0)"
    and "runs s t" and "owed e t" and "handler e t = Exit x u"
    and "currentProcess t \<noteq> Some i" and "pcbFree_h t \<noteq> Some i"
  shows "p_supportStruct (pcbTable u i) = p_supportStruct (pcbTable t i)
    \<and> same_context (p_s (pcbTable t i)) (p_s (pcbTable u i))
    \<and> (p_semAdd (pcbTable t i) = NULL_addr \<longrightarrow> p_s (pcbTable u i) = p_s (pcbTable t i))
    \<and> (\<forall>k. k \<notin> own_support t \<longrightarrow> sups u k = sups t k)
    \<and> (currentProcess u = Some i \<longrightarrow> x = LDST (p_s (pcbTable u i)))"
proof -
  have g: "good (link s0) t" by (rule good_runs [OF reached_good [OF assms(1-4)] assms(5)])
  have "isolating t (Exit x u)" using isolating_handler [OF g assms(4,6)] assms(7) by simp
  then have "\<forall>k. k \<notin> own_support t \<longrightarrow> sups u k = sups t k" by (simp add: confined_def)
  then show ?thesis using handler_spared [OF g assms(4,6,7,8,9)] by (auto simp: spared_def)
qed

text \<open>The first process is interrupted: the delay daemon continues where it was.\<close>

theorem handlers_isolate_witness:
  "\<exists>s u. reached zero_sstate s \<and> currentProcess s = Some 0
    \<and> handler Exception (s\<lparr>bios := interrupted 0x20001000\<rparr>) = Exit (LDST (p_s (pcbTable u 1))) u
    \<and> currentProcess u = Some 1 \<and> same_context (p_s (pcbTable s 1)) (p_s (pcbTable u 1))"
proof -
  obtain s u where r: "reached zero_sstate s" "currentProcess s = Some 0" "pcbFree_h s = Some 10"
    "handler Exception (s\<lparr>bios := interrupted 0x20001000\<rparr>) = Exit (LDST (p_s (pcbTable s 1))) u" "currentProcess u = Some 1"
    using zero_slices by blast
  let ?t = "s\<lparr>bios := interrupted 0x20001000\<rparr>"
  have "runs s ?t" by (simp add: runs_def)
  then show ?thesis
    using handlers_isolate [OF r(1) zero_boot(1,3,4) _ owed_timer r(4), of 1] r by auto
qed

text \<open>C2: Preemption is transparent.  A process interrupted at the end of its time slice in a run of
  the kernel is later resumed with exactly the processor state it was interrupted in, however many
  exceptions of other processes the kernel handles in between and whatever these do, as long as the
  process is not terminated.\<close>

theorem preemption_transparent:
  assumes "reached s0 s" and "supportFreeList s0 = NULL" and "sems_apart (link s0)" and "link_ok (link s0)"
    and "runs s t" and "currentProcess t = Some i" and "exceptionCode (s_cause (bios t)) = 0"
    and "getHighestPriorityInterrupt (s_cause (bios t)) = 1" and "handler Exception t = Exit x u"
    and "away i u v" and "currentProcess v \<noteq> Some i" and "pcbFree_h v \<noteq> Some i" and "owed e v"
    and "handler e v = Exit y w" and "currentProcess w = Some i"
  shows "y = LDST (bios t)"
proof -
  have g: "good (link s0) t" by (rule good_runs [OF reached_good [OF assms(1-4)] assms(5)])
  obtain x' u' where u': "exceptionHandler t = Exit (LDST x') u'" "p_s (pcbTable u' i) = bios t"
    "p_semAdd (pcbTable u' i) = NULL_addr"
    using timer_parks [OF g assms(6-8)] by blast
  then have u: "u' = u" "x = LDST x'" using assms(9) by (simp_all add: handler_def)
  have "owed Exception t" using assms(6-8) by (simp add: owed_def admissible_def)
  then have "good (link s0) u" using handler_leaves [OF g assms(4)] assms(9) u(2) by fastforce
  then have v: "good (link s0) v" "spared (pcbTable u i) (pcbTable v i)" using away_spared [OF assms(10) _ assms(4)] by auto
  note h = handler_spared [OF v(1) assms(4,13,14,11,12)]
  have "spared (pcbTable u i) (pcbTable w i)" by (rule spared_trans [OF v(2) h(1)])
  then show ?thesis using h(2) [OF assms(15)] u(1) u'(2,3) by (simp add: spared_def)
qed

theorem preemption_transparent_witness:
  "\<exists>s x u w. reached zero_sstate s \<and> currentProcess s = Some 0
    \<and> handler Exception (s\<lparr>bios := interrupted 0x20001000\<rparr>) = Exit x u \<and> currentProcess u = Some 1
    \<and> handler Exception (u\<lparr>bios := interrupted 0x20002000\<rparr>) = Exit (LDST (interrupted 0x20001000)) w
    \<and> currentProcess w = Some 0"
proof -
  obtain s u w st where r: "reached zero_sstate s" "currentProcess s = Some 0"
    "handler Exception (s\<lparr>bios := interrupted 0x20001000\<rparr>) = Exit (LDST (p_s (pcbTable s 1))) u" "currentProcess u = Some 1"
    "handler Exception (u\<lparr>bios := interrupted 0x20002000\<rparr>) = Exit (LDST st) w" "currentProcess w = Some 0"
    "pcbFree_h u = Some 10"
    using zero_slices by blast
  let ?t = "s\<lparr>bios := interrupted 0x20001000\<rparr>" and ?v = "u\<lparr>bios := interrupted 0x20002000\<rparr>"
  have "runs s ?t" and u: "runs u ?v" by (simp_all add: runs_def)
  moreover have "away 0 u ?v" by (rule away.run [OF away.leave u])
  ultimately have "LDST st = LDST (bios ?t)"
    by (intro preemption_transparent [OF r(1) zero_boot(1,3,4), of ?t 0 _ u ?v Exception _ w])
      (use r interrupted_timer owed_timer in simp_all)
  then show ?thesis using r by auto
qed

end
