(* ===== verification/FrameOwners.thy ===== *)
theory FrameOwners
  imports VmSpec BootSpec
begin

text \<open>
  The invariant of virtual memory: the swap pool and the page tables of all processes agree, so that
  no two pages are in one frame.  The pager keeps it, under the lock, whatever other processes do
  meanwhile, as long as they keep it too (a rely condition); \<open>main\<close> establishes it, and the end of a
  process keeps it for the others.
\<close>

section \<open>The frames of the swap pool\<close>

lemma unat_frame_addr:
  assumes "f < 16"
  shows "unat (frame_addr (of_nat f)) = 0x20020000 + f * 0x1000"
proof -
  have "unat (of_nat f :: u32) = f" using assms by (simp add: unat_of_nat_small)
  then show ?thesis using assms by (simp add: frame_addr_def unat_word_ariths)
qed

lemma frame_addr_inj: "frame_addr (of_nat f) = frame_addr (of_nat g) \<Longrightarrow> f < 16 \<Longrightarrow> g < 16 \<Longrightarrow> f = g"
proof -
  assume "frame_addr (of_nat f) = frame_addr (of_nat g)" and "f < 16" "g < 16"
  then have "0x20020000 + f * 0x1000 = 0x20020000 + g * (0x1000 :: nat)" using unat_frame_addr by metis
  then show "f = g" by simp
qed

lemma frame_16: "f < 16 \<Longrightarrow> f \<in> {0, 1, 2, 3, 4, 5, 6, 7, 8, 9, 10, 11, 12, 13, 14, 15}" for f :: nat
  unfolding insert_iff empty_iff by presburger

lemma frame_number:
  assumes "f < 16"
  shows "(frame_addr (of_nat f) OR ENTRYLO_VALID OR ENTRYLO_DIRTY) AND VPN_MASK = frame_addr (of_nat f)"
    and "(frame_addr (of_nat f) OR ENTRYLO_VALID OR ENTRYLO_DIRTY) AND ENTRYLO_VALID \<noteq> 0"
  using frame_16 [OF assms] by (auto simp: frame_addr_def)

text \<open>A page table entry is valid, and it names the frame \<open>f\<close> of the swap pool.\<close>

definition valid :: "pageTableEntry_t \<Rightarrow> bool" where
  "valid e \<longleftrightarrow> entryLo e AND ENTRYLO_VALID \<noteq> 0"

definition names :: "pageTableEntry_t \<Rightarrow> nat \<Rightarrow> bool" where
  "names e f \<longleftrightarrow> valid e \<and> entryLo e AND VPN_MASK = frame_addr (of_nat f)"

lemma names_unique: "names e f \<Longrightarrow> names e g \<Longrightarrow> f < 16 \<Longrightarrow> g < 16 \<Longrightarrow> f = g"
  using frame_addr_inj by (simp add: names_def)

lemma names_installed:
  assumes "f < 16" and "entryLo e = frame_addr (of_nat f) OR ENTRYLO_VALID OR ENTRYLO_DIRTY"
  shows "names e f"
  using frame_number [OF assms(1)] by (simp add: names_def valid_def assms(2))

lemma not_valid_cleared: "entryLo e = lo AND NOT ENTRYLO_VALID \<Longrightarrow> \<not> valid e"
proof -
  have "(lo AND NOT ENTRYLO_VALID) AND ENTRYLO_VALID = 0" by (rule bit_word_eqI) (auto simp: bit_simps)
  then show "entryLo e = lo AND NOT ENTRYLO_VALID \<Longrightarrow> \<not> valid e" by (simp add: valid_def)
qed

section \<open>The invariant\<close>

text \<open>
  \<open>A\<close> maps the address space identifiers of the live processes to their support structures.  An
  occupied frame belongs to a page of a live process, and a valid entry of a live process names a
  frame that is entered for its page, with one exception: page 1, which \<open>initPageTable\<close> marks valid
  without a frame.
\<close>

abbreviation (input) page :: "sstate \<Rightarrow> nat \<Rightarrow> nat \<Rightarrow> pageTableEntry_t" where
  "page s k j \<equiv> sup_pageTable (sups s k) j"

definition live :: "(u32 \<rightharpoonup> nat) \<Rightarrow> sstate \<Rightarrow> bool" where
  "live A s \<longleftrightarrow> (\<forall>a k. A a = Some k \<longrightarrow> getSupportStruct a s = Some (Some k) \<and> sup_asid (sups s k) = a)"

definition entered :: "sstate \<Rightarrow> nat \<Rightarrow> u32 \<Rightarrow> nat \<Rightarrow> bool" where
  "entered s f a j \<longleftrightarrow> sw_occupied (swapPool s f) \<noteq> 0 \<and> sw_asid (swapPool s f) = a
     \<and> unat (pte_index (sw_vpn (swapPool s f))) = j"

definition frames_owned :: "(u32 \<rightharpoonup> nat) \<Rightarrow> sstate \<Rightarrow> bool" where
  "frames_owned A s \<longleftrightarrow> live A s \<and> unat (swapIndex s) < SWAP_POOL_SIZE
     \<and> (\<forall>f < SWAP_POOL_SIZE. sw_occupied (swapPool s f) \<noteq> 0 \<longrightarrow>
          (\<exists>a \<in> dom A. \<exists>j < PAGE_TABLE_SIZE. entered s f a j))
     \<and> (\<forall>a k j. A a = Some k \<and> j < PAGE_TABLE_SIZE \<and> valid (page s k j) \<longrightarrow>
          (\<exists>f < SWAP_POOL_SIZE. names (page s k j) f \<and> entered s f a j)
          \<or> (j = 1 \<and> entryLo (page s k j) AND VPN_MASK = 0))"

definition unclaimed :: "(u32 \<rightharpoonup> nat) \<Rightarrow> nat \<Rightarrow> sstate \<Rightarrow> bool" where
  "unclaimed A f s \<longleftrightarrow> (\<forall>a k j. A a = Some k \<and> j < PAGE_TABLE_SIZE \<longrightarrow> \<not> names (page s k j) f)"

lemma frames_ownedD:
  assumes "frames_owned A s"
  shows "live A s" "unat (swapIndex s) < 16"
    "f < 16 \<Longrightarrow> sw_occupied (swapPool s f) \<noteq> 0 \<Longrightarrow> \<exists>a \<in> dom A. \<exists>j < 32. entered s f a j"
    "A a = Some k \<Longrightarrow> j < 32 \<Longrightarrow> valid (page s k j) \<Longrightarrow>
      (\<exists>f < 16. names (page s k j) f \<and> entered s f a j) \<or> (j = 1 \<and> entryLo (page s k j) AND VPN_MASK = 0)"
  using assms unfolding frames_owned_def by blast+

lemma liveD: "live A s \<Longrightarrow> A a = Some k \<Longrightarrow> getSupportStruct a s = Some (Some k) \<and> sup_asid (sups s k) = a"
  by (simp add: live_def)

lemma live_inj: "live A s \<Longrightarrow> A a = Some k \<Longrightarrow> A b = Some k \<Longrightarrow> a = b"
  by (metis liveD)

text \<open>A frame that a live page names is entered for that page.\<close>

lemma named_entered:
  assumes "frames_owned A s" and "A a = Some k" and "j < 32" and "f < 16" and "names (page s k j) f"
  shows "entered s f a j"
proof -
  have "entryLo (page s k j) AND VPN_MASK = frame_addr (of_nat f)" "valid (page s k j)"
    using assms(5) by (simp_all add: names_def)
  moreover have "frame_addr (of_nat f) \<noteq> 0" using unat_frame_addr [OF assms(4)] by (intro notI) simp
  ultimately obtain g where "g < 16" "names (page s k j) g" "entered s g a j"
    using frames_ownedD(4) [OF assms(1-3)] by auto
  then show ?thesis using names_unique assms(4,5) by blast
qed

lemma frame_of_one_page:
  assumes "frames_owned A s" and "A a = Some k" "A b = Some l" and "i < 32" "j < 32" and "f < 16"
    and "names (page s k i) f" "names (page s l j) f"
  shows "k = l \<and> i = j"
  using named_entered [OF assms(1,2,4,6,7)] named_entered [OF assms(1,3,5,6,8)] assms(2,3)
  by (simp add: entered_def)

text \<open>What the invariant depends on.\<close>

lemma getSupportStruct_cong:
  "pcbTable t = pcbTable s \<Longrightarrow> asidProcessTable t = asidProcessTable s \<Longrightarrow> getSupportStruct a t = getSupportStruct a s"
  by (simp add: getSupportStruct_def rd_def)

lemma frames_cong:
  assumes "sups t = sups s" and "pcbTable t = pcbTable s" and "asidProcessTable t = asidProcessTable s"
    and "swapPool t = swapPool s" and "swapIndex t = swapIndex s"
  shows "frames_owned A t = frames_owned A s" and "unclaimed A f t = unclaimed A f s"
proof -
  have "live A t = live A s" using getSupportStruct_cong [OF assms(2,3)] by (simp add: live_def assms(1))
  then show "frames_owned A t = frames_owned A s" by (simp add: frames_owned_def entered_def assms)
  show "unclaimed A f t = unclaimed A f s" by (simp add: unclaimed_def assms)
qed

section \<open>Changes of one entry\<close>

text \<open>The state \<open>t\<close> is \<open>s\<close> with another low word in the entry \<open>j\<close> of the page table of \<open>k\<close>.\<close>

definition entry_set :: "nat \<Rightarrow> nat \<Rightarrow> u32 \<Rightarrow> sstate \<Rightarrow> sstate \<Rightarrow> bool" where
  "entry_set k j lo s t \<longleftrightarrow> sups t = sups (set_entryLo k j lo s) \<and> pcbTable t = pcbTable s
     \<and> asidProcessTable t = asidProcessTable s \<and> swapIndex t = swapIndex s"

lemma entry_setD:
  assumes "entry_set k j lo s t"
  shows "page t l i = (if l = k \<and> i = j then (page s k j)\<lparr>entryLo := lo\<rparr> else page s l i)"
    "live A t = live A s" "swapIndex t = swapIndex s"
proof -
  show "page t l i = (if l = k \<and> i = j then (page s k j)\<lparr>entryLo := lo\<rparr> else page s l i)"
    using assms by (simp add: entry_set_def)
  have "sup_asid (sups t l) = sup_asid (sups s l)" for l using assms by (simp add: entry_set_def)
  then show "live A t = live A s" using getSupportStruct_cong [of t s] assms by (simp add: live_def entry_set_def)
qed (use assms in \<open>simp add: entry_set_def\<close>)

lemma frames_cleared:
  assumes F: "frames_owned A s" and e: "entry_set k j lo s t" and lo: "lo AND ENTRYLO_VALID = 0"
    and p: "swapPool t = swapPool s"
  shows "frames_owned A t" and "unclaimed A f s \<Longrightarrow> unclaimed A f t"
    and "\<And>f. \<forall>a l i. A a = Some l \<and> i < 32 \<and> names (page s l i) f \<longrightarrow> l = k \<and> i = j \<Longrightarrow> unclaimed A f t"
proof -
  note D = entry_setD [OF e] and E = frames_ownedD [OF F]
  have bad: "\<not> valid (page t k j)" using D(1) lo by (simp add: valid_def)
  have "entered t = entered s" by (simp add: entered_def p fun_eq_iff)
  then show "frames_owned A t"
    unfolding frames_owned_def D(2,3) p using bad D(1) E by (metis (full_types))
  show "unclaimed A f s \<Longrightarrow> unclaimed A f t" using bad D(1) by (auto simp: unclaimed_def names_def)
  show "unclaimed A f t" if "\<forall>a l i. A a = Some l \<and> i < 32 \<and> names (page s l i) f \<longrightarrow> l = k \<and> i = j" for f
    using bad D(1) that unfolding unclaimed_def names_def by metis
qed

lemma frames_installed:
  assumes F: "frames_owned A s" and U: "unclaimed A f s" and a: "A a = Some k" and j: "j < 32" "f < 16"
    and e: "entry_set k j (frame_addr (of_nat f) OR ENTRYLO_VALID OR ENTRYLO_DIRTY) s t"
    and p: "swapPool t = (swapPool s)(f := \<lparr>sw_asid = a, sw_vpn = vpn, sw_occupied = 1\<rparr>)"
    and v: "unat (pte_index vpn) = j"
  shows "frames_owned A t" and "names (page t k j) f"
proof -
  note D = entry_setD [OF e] and E = frames_ownedD [OF F]
  show n: "names (page t k j) f" using D(1) by (intro names_installed [OF j(2)]) simp
  have new: "entered t f a j" by (simp add: entered_def p v)
  have old: "entered t g b i = entered s g b i" if "g \<noteq> f" for g b i using that by (simp add: entered_def p)
  have occ: "\<exists>b \<in> dom A. \<exists>i < 32. entered t g b i" if g: "g < 16" "sw_occupied (swapPool t g) \<noteq> 0" for g
  proof (cases "g = f")
    case True
    then show ?thesis using new a j by blast
  next
    case False
    then show ?thesis using E(3) [OF g(1)] g(2) old by (simp add: p)
  qed
  have val: "(\<exists>g < 16. names (page t l i) g \<and> entered t g b i) \<or> (i = 1 \<and> entryLo (page t l i) AND VPN_MASK = 0)"
    if b: "A b = Some l" "i < 32" "valid (page t l i)" for b l i
  proof (cases "l = k \<and> i = j")
    case True
    then have "b = a" using live_inj [OF E(1)] a b(1) by simp
    then show ?thesis using True new n j by auto
  next
    case False
    then have same: "page t l i = page s l i" using D(1) by auto
    then have "\<not> names (page s l i) f" using U b(1,2) by (auto simp: unclaimed_def)
    then show ?thesis using E(4) [OF b(1,2)] b(3) old same by metis
  qed
  show "frames_owned A t" unfolding frames_owned_def D(2,3) using E(1,2) occ val by blast
qed

text \<open>Freeing the frames of a process that ends.\<close>

lemma frames_released:
  assumes F: "frames_owned A s" and s1: "s1 = s\<lparr>swapPool := disowned a {..<SWAP_POOL_SIZE} (swapPool s)\<rparr>"
  shows "frames_owned (A(a := None)) s1" and "unclaimed A f s \<Longrightarrow> unclaimed (A(a := None)) f s1"
proof -
  note E = frames_ownedD [OF F]
  have l: "live (A(a := None)) s1" using E(1) getSupportStruct_cong [of s1 s] by (simp add: live_def s1)
  have same: "entered s1 f b i = entered s f b i" if "b \<noteq> a" for f b i
    using that by (auto simp: entered_def s1 disowned_def owned_def empty_frame_def)
  have occ: "\<exists>b \<in> dom (A(a := None)). \<exists>i < 32. entered s1 g b i" if g: "g < 16" "sw_occupied (swapPool s1 g) \<noteq> 0" for g
  proof -
    have o: "sw_occupied (swapPool s g) \<noteq> 0" "sw_asid (swapPool s g) \<noteq> a"
      using g by (auto simp: s1 disowned_def owned_def empty_frame_def split: if_splits)
    then obtain b i where "b \<in> dom A" "i < 32" "entered s g b i" using E(3) [OF g(1)] by blast
    then show ?thesis using o(2) same [of b g i] by (auto simp: entered_def)
  qed
  have val: "(\<exists>g < 16. names (page s1 l i) g \<and> entered s1 g b i) \<or> (i = 1 \<and> entryLo (page s1 l i) AND VPN_MASK = 0)"
    if b: "(A(a := None)) b = Some l" "i < 32" "valid (page s1 l i)" for b l i
  proof -
    have "A b = Some l" "b \<noteq> a" using b(1) by (auto split: if_splits)
    then show ?thesis using E(4) [of b l i] b(2,3) same by (simp add: s1)
  qed
  have "swapIndex s1 = swapIndex s" by (simp add: s1)
  then show "frames_owned (A(a := None)) s1" unfolding frames_owned_def using l occ val E(2) by metis
  show "unclaimed A f s \<Longrightarrow> unclaimed (A(a := None)) f s1" by (auto simp: unclaimed_def s1 split: if_splits)
qed

section \<open>What others do meanwhile\<close>

text \<open>
  Other processes may end, and then take their frames with them; they keep the invariant, do not end
  the process \<open>a\<close>, and do not map the frame that \<open>a\<close>, which holds the lock, has in hand.
\<close>

definition others :: "u32 \<Rightarrow> (u32 \<rightharpoonup> nat) \<Rightarrow> sstate \<Rightarrow> (u32 \<rightharpoonup> nat) \<Rightarrow> sstate \<Rightarrow> bool" where
  "others a A s A' t \<longleftrightarrow> A' \<subseteq>\<^sub>m A \<and> A' a = A a \<and> frames_owned A' t
     \<and> (\<forall>f < SWAP_POOL_SIZE. unclaimed A f s \<longrightarrow> unclaimed A' f t)"

definition considerate :: "u32 \<Rightarrow> env \<Rightarrow> bool" where
  "considerate a h \<longleftrightarrow> (\<forall>i r s A. frames_owned A s \<longrightarrow> (\<exists>A'. others a A s A' (snd (h i r s))))"

lemma others_trans: "others a A s A' t \<Longrightarrow> others a A' t A'' u \<Longrightarrow> others a A s A'' u"
  unfolding others_def using map_le_trans by auto

lemma others_refl: "frames_owned A s \<Longrightarrow> others a A s A s"
  by (simp add: others_def)

lemma considerateD:
  assumes "considerate a h" and "h i r s = (v, t)" and "frames_owned A s"
  obtains A' where "others a A s A' t"
  using assms unfolding considerate_def by (metis snd_conv)

lemma others_cong:
  assumes "others a A s A' t" and "sups u = sups t" and "pcbTable u = pcbTable t"
    and "asidProcessTable u = asidProcessTable t" and "swapPool u = swapPool t" and "swapIndex u = swapIndex t"
  shows "others a A s A' u"
  using assms(1) frames_cong [OF assms(2-6)] by (simp add: others_def)

section \<open>The steps of the pager\<close>

lemma flash_transfer_frames:
  assumes h: "cooperative k h" "considerate a h" and r: "flash_ready h i b" and F: "frames_owned A s"
  obtains q t A' where "run (flash_transfer c b vpn f s) h i = ([((WAITIO, FLASHINT, b - 1, 0), q)], Returned () t)"
    and "others a A s A' t" and "kept k s t"
proof -
  let ?s = "setENTRYHI ((entryHi_reg (cpu s) AND VPN_MASK) OR push_bit ASID_SHIFT b)
    (disable_interrupts (store_word (d_data0 (flash_dev b)) (frame_addr f) s))"
  let ?q = "store_word (d_command (flash_dev b)) (push_bit COMMAND_SHIFT (flash_block vpn) OR c) ?s"
  obtain w t where t: "h i (WAITIO, FLASHINT, b - 1, 0) ?q = (w, t)" by fastforce
  then have m: "mem t (flash_dev b) = 1" using r unfolding flash_ready_def by (metis snd_conv)
  have q: "frames_owned A ?q" "\<And>f. unclaimed A f ?q = unclaimed A f s" using F by (subst frames_cong; simp)+
  obtain A' where "others a A ?q A' t" by (rule considerateD [OF h(2) t q(1)])
  then have "others a A s A' (enable_interrupts t)" using q(2) others_cong [of a A s A' t] by (simp add: others_def)
  moreover have "kept k s ?q" by (simp add: kept_def)
  then have "kept k s (enable_interrupts t)"
    using kept_trans [OF _ cooperativeD(1) [OF h(1) t], of s] by (simp add: kept_def)
  moreover have "run (flash_transfer c b vpn f s) h i = ([((WAITIO, FLASHINT, b - 1, 0), ?q)], Returned () (enable_interrupts t))"
    using t m by (simp add: flash_transfer_def Let_def)
  ultimately show ?thesis using that by blast
qed

lemma invalidate_set:
  assumes k: "getSupportStruct asid s = Some (Some kv)" and j: "j = unat (pte_index vpn)" "j < 32"
  obtains s' where "invalidate asid vpn s = Some s'"
    and "entry_set kv j (entryLo (page s kv j) AND NOT ENTRYLO_VALID) s s'" and "swapPool s' = swapPool s"
    and "kept k s s'"
proof -
  define lo where "lo = entryLo (page s kv j) AND NOT ENTRYLO_VALID"
  define s1 where "s1 = set_entryLo kv j lo (disable_interrupts s)"
  define s2 where "s2 = do_TLBP (setENTRYHI (entryHi (page s1 kv j)) s1)"
  define s3 where "s3 = (if index_reg s2 AND INDEX_P_BIT = 0
    then do_TLBWI (setENTRYLO (entryLo (page s2 kv j)) (s2\<lparr>index_reg := index_reg s2 AND INDEX_MASK\<rparr>)) else s2)"
  have "invalidate asid vpn s = Some (enable_interrupts s3)"
    using k j(2) unfolding invalidate_def Let_def run_get_support_struct k
    by (simp add: j(1) [symmetric] s3_def s2_def s1_def lo_def)
  moreover have "sups s1 = sups (set_entryLo kv j lo s)" "asidProcessTable s1 = asidProcessTable s" "swapIndex s1 = swapIndex s"
    "swapPool s1 = swapPool s" "pcbTable s1 = pcbTable s" "kept k s s1"
    by (simp_all add: s1_def kept_def) (simp add: set_entryLo_def)
  moreover have "sups s3 = sups s1" "asidProcessTable s3 = asidProcessTable s1" "swapIndex s3 = swapIndex s1"
    "swapPool s3 = swapPool s1" "pcbTable s3 = pcbTable s1" "kept k s1 s3"
    by (simp_all add: s3_def s2_def kept_def)
  ultimately show ?thesis
    using that [of "enable_interrupts s3"] by (simp add: entry_set_def lo_def kept_def)
qed

lemma install_set:
  assumes "unat j < 32" and "unat f < 16"
  obtains t where "install_page k a vpn j f s = Some t"
    and "entry_set k (unat j) (frame_addr f OR ENTRYLO_VALID OR ENTRYLO_DIRTY) s t"
    and "swapPool t = (swapPool s)(unat f := \<lparr>sw_asid = a, sw_vpn = vpn, sw_occupied = 1\<rparr>)" and "kept k s t"
proof -
  let ?s = "disable_interrupts (s\<lparr>swapPool := (swapPool s)(unat f := \<lparr>sw_asid = a, sw_vpn = vpn, sw_occupied = 1\<rparr>)\<rparr>)"
  let ?t = "enable_interrupts (do_TLBCLR (set_entryLo k (unat j) (frame_addr f OR ENTRYLO_VALID OR ENTRYLO_DIRTY) ?s))"
  have "0x20000000 + (32 + f) * 4096 = (0x20000000 + 32 * 4096 + f * 4096 :: u32)" by (simp add: distrib_right)
  then have "install_page k a vpn j f s = Some ?t"
    using assms(1) by (simp add: install_page_def Let_def frame_addr_def)
  moreover have "entry_set k (unat j) (frame_addr f OR ENTRYLO_VALID OR ENTRYLO_DIRTY) s ?t"
    by (simp add: entry_set_def set_entryLo_def)
  moreover have "swapPool ?t = (swapPool s)(unat f := \<lparr>sw_asid = a, sw_vpn = vpn, sw_occupied = 1\<rparr>)" "kept k s ?t"
    by (simp_all add: kept_def)
  ultimately show ?thesis by (rule that)
qed

lemma free_frame_unclaimed:
  assumes "frames_owned A s" and "f < 16" and "sw_occupied (swapPool s f) = 0"
  shows "unclaimed A f s"
  using named_entered [OF assms(1) _ _ assms(2)] assms(3) by (auto simp: unclaimed_def entered_def)

lemma victim_invalidated:
  assumes F: "frames_owned A s" and v: "f < 16" "sw_occupied (swapPool s f) \<noteq> 0"
  obtains t where "invalidate (sw_asid (swapPool s f)) (sw_vpn (swapPool s f)) s = Some t" and "frames_owned A t"
    and "unclaimed A f t" and "\<And>g. unclaimed A g s \<Longrightarrow> unclaimed A g t" and "kept k s t"
proof -
  obtain b j kv where b: "A b = Some kv" "j < 32" "entered s f b j" using frames_ownedD(3) [OF F v] by blast
  then have e: "sw_asid (swapPool s f) = b" "j = unat (pte_index (sw_vpn (swapPool s f)))" by (simp_all add: entered_def)
  have only: "l = kv \<and> i = j" if "A c = Some l" "i < 32" "names (page s l i) f" for c l i
    using named_entered [OF F that(1,2) v(1) that(3)] b(1,3) that(1) by (auto simp: entered_def)
  obtain t where t: "invalidate b (sw_vpn (swapPool s f)) s = Some t"
    "entry_set kv j (entryLo (page s kv j) AND NOT ENTRYLO_VALID) s t" "swapPool t = swapPool s" "kept k s t"
    using invalidate_set [of b s kv j "sw_vpn (swapPool s f)" k] liveD [OF frames_ownedD(1) [OF F] b(1)] e(2) b(2) by blast
  have "(lo AND NOT ENTRYLO_VALID) AND ENTRYLO_VALID = 0" for lo by (rule bit_word_eqI) (auto simp: bit_simps)
  note C = frames_cleared [OF F t(2) this t(3)]
  have "unclaimed A f t" using only by (intro C(3)) blast
  then show ?thesis using that t(1,4) C(1,2) e(1) by blast
qed

lemma obtain_frame_frames:
  assumes h: "cooperative k h" "considerate a h" and r: "\<And>i b. flash_ready h i b" and F: "frames_owned A s"
  obtains tr f t A' where "run (obtain_frame s) h i = (tr, Returned f t)" and "unat f < 16"
    and "\<forall>((n, _), _) \<in> set tr. n = WAITIO" and "others a A s A' t" and "unclaimed A' (unat f) t" and "kept k s t"
proof (cases rule: getFreeFrame_result [of s])
  case (free f)
  have "of_nat f \<noteq> (- 1 :: u32)"
    using free(1) by (auto dest!: arg_cong [of _ _ unat] simp: unat_of_nat_small unsigned_minus_1_eq_mask mask_eq_exp_minus_1)
  then have "run (obtain_frame s) h i = ([], Returned (of_nat f) s)" using free(2) run_obtain_free [of s] by simp
  then show ?thesis
    using that [of "[]" "of_nat f" s A] free others_refl [OF F] free_frame_unclaimed [OF F free(1,3)]
    by (simp add: unat_of_nat_small)
next
  case full
  define v where "v = swapIndex s"
  let ?e = "swapPool s (unat v)"
  obtain s0 where s0: "pickVictimFrame s = (v, s0)" by (simp add: v_def pickVictimFrame_def Let_def)
  have v: "unat v < 16" using frames_ownedD(2) [OF F] by (simp add: v_def)
  have s: "sups s0 = sups s" "pcbTable s0 = pcbTable s" "asidProcessTable s0 = asidProcessTable s" "swapPool s0 = swapPool s"
    "unat (swapIndex s0) < 16" "kept k s s0"
    using pickVictimFrame_step [of s] v s0 by (auto simp: v_def pickVictimFrame_def Let_def kept_def)
  have "live A s0" using frames_ownedD(1) [OF F] getSupportStruct_cong [OF s(2,3)] by (simp add: live_def s(1))
  then have F1: "frames_owned A s0" using frames_ownedD [OF F] s(5) unfolding frames_owned_def entered_def s(1,4) by blast
  have "sw_occupied (swapPool s0 (unat v)) \<noteq> 0" using full(2) v by (simp add: s(4))
  then obtain s1 where s1: "invalidate (sw_asid ?e) (sw_vpn ?e) s0 = Some s1" "frames_owned A s1" "unclaimed A (unat v) s1"
    "\<And>g. unclaimed A g s0 \<Longrightarrow> unclaimed A g s1" "kept k s0 s1"
    using victim_invalidated [OF F1 v, of k] unfolding s(4) by blast
  obtain q t A' where t: "run (flash_transfer WRITEBLK (sw_asid ?e) (sw_vpn ?e) v s1) h i =
      ([((WAITIO, FLASHINT, sw_asid ?e - 1, 0), q)], Returned () t)" "others a A s1 A' t" "kept k s1 t"
    using flash_transfer_frames [OF h r s1(2)] by blast
  have "unclaimed A' (unat v) t" using t(2) s1(3) v by (simp add: others_def)
  moreover have "unclaimed A g s0 = unclaimed A g s" for g by (simp add: unclaimed_def s(1))
  then have "others a A s A' t" using t(2) s1(4) by (simp add: others_def)
  moreover have "run (obtain_frame s) h i = ([((WAITIO, FLASHINT, sw_asid ?e - 1, 0), q)], Returned v t)"
    using full(1) v s0 s1(1) t(1) s(4)
    by (simp add: obtain_frame_def Let_def run_abind after_cons writePageToBackingStore_def)
  moreover have "kept k s t" by (rule kept_trans [OF kept_trans [OF s(6) s1(5)] t(3)])
  ultimately show ?thesis using that v by auto
qed

lemma finish_fault_frames:
  assumes h: "cooperative k h" "considerate a h" and r: "\<And>i b. flash_ready h i b" and F: "frames_owned A s"
    and U: "unclaimed A (unat f) s" "unat f < 16" and a: "A a = Some k" and j: "unat j < 32" "pte_index vpn = j"
    and st: "sup_exceptState (sups s k) 0 = st"
  obtains q0 q e A' where "run (finish_fault k a vpn j f s) h i =
      ([((WAITIO, FLASHINT, a - 1, 0), q0), ((VERHOGEN, swapPoolSem (link s), 0, 0), q)], Exited (LDST st) e)"
    and "A' \<subseteq>\<^sub>m A" and "A' a = Some k" and "frames_owned A' q" and "names (page q k (unat j)) (unat f)"
proof -
  obtain q0 t A' where t: "run (flash_transfer READBLK a vpn f s) h i = ([((WAITIO, FLASHINT, a - 1, 0), q0)], Returned () t)"
    "others a A s A' t" "kept k s t"
    using flash_transfer_frames [OF h r F] by blast
  then have A': "A' \<subseteq>\<^sub>m A" "A' a = Some k" "frames_owned A' t" "unclaimed A' (unat f) t"
    using U a by (simp_all add: others_def)
  obtain q where q: "install_page k a vpn j f t = Some q"
    "entry_set k (unat j) (frame_addr f OR ENTRYLO_VALID OR ENTRYLO_DIRTY) t q"
    "swapPool q = (swapPool t)(unat f := \<lparr>sw_asid = a, sw_vpn = vpn, sw_occupied = 1\<rparr>)" "kept k t q"
    using install_set [OF j(1) U(2)] by blast
  have "frame_addr f = frame_addr (of_nat (unat f))" by simp
  then have Fq: "frames_owned A' q" "names (page q k (unat j)) (unat f)"
    using frames_installed [OF A'(3,4,2) j(1) U(2) _ q(3)] q(2) j(2) by simp_all
  obtain v e where e: "h (Suc i) (VERHOGEN, swapPoolSem (link q), 0, 0) q = (v, e)" by fastforce
  have kq: "kept k s q" by (rule kept_trans [OF t(3) q(4)])
  then have "sup_exceptState (sups e k) 0 = st"
    using keptD(4) [OF kept_trans [OF kq cooperativeD(1) [OF h(1) e]]] st by simp
  then have "run (finish_fault k a vpn j f s) h i =
      ([((WAITIO, FLASHINT, a - 1, 0), q0), ((VERHOGEN, swapPoolSem (link s), 0, 0), q)], Exited (LDST st) e)"
    using t(1) q(1) e keptD(1) [OF kq]
    by (simp add: finish_fault_def loadPageFromBackingStore_def run_abind after_cons load_and_leave_def)
  then show ?thesis using that A'(1,2) Fq by blast
qed

section \<open>After the boot\<close>

text \<open>The eight user processes with the support structures \<open>initUProcs\<close> gives them.\<close>

definition boot_live :: "u32 \<rightharpoonup> nat" where
  "boot_live a = (if a = 0 \<or> UPROCMAX < unat a then None else Some (UPROCMAX - unat a))"

lemma init_entry_valid: "valid (init_entry a j) \<longleftrightarrow> j = 1" "entryLo (init_entry a j) AND VPN_MASK = 0"
  by (simp_all add: valid_def init_entry_def Let_def)

lemma boot_ready:
  assumes "\<forall>i \<in> {1..UPROCMAX}. uproc_ready s i (i + 1) (UPROCMAX - i)" and "boot_live a = Some k"
  shows "uproc_ready s (unat a) (unat a + 1) k \<and> unat a \<le> UPROCMAX"
proof -
  have "0 < unat a" "unat a \<le> 8" "k = 8 - unat a"
    using assms(2) by (auto simp: boot_live_def unat_gt_0 split: if_splits)
  then show ?thesis using assms(1) by simp
qed

lemma boot_frames_owned:
  assumes ready: "\<forall>i \<in> {1..UPROCMAX}. uproc_ready s i (i + 1) (UPROCMAX - i)"
    and pool: "\<forall>f < SWAP_POOL_SIZE. swapPool s f = empty_frame" and idx: "swapIndex s = 0"
  shows "frames_owned boot_live s"
proof -
  note r = boot_ready [OF ready]
  have "live boot_live s" unfolding live_def
  proof (intro allI impI)
    fix a k assume "boot_live a = Some k"
    then show "getSupportStruct a s = Some (Some k) \<and> sup_asid (sups s k) = a"
      using r [of a k] by (simp add: uproc_ready_def getSupportStruct_def)
  qed
  moreover have "j = 1 \<and> entryLo (page s k j) AND VPN_MASK = 0"
    if "boot_live a = Some k" "j < 32" "valid (page s k j)" for a k j
    using r [OF that(1)] that(2,3) by (simp add: uproc_ready_def init_entry_valid)
  moreover have "sw_occupied (swapPool s f) = 0" if "f < 16" for f using pool that by (simp add: empty_frame_def)
  ultimately show ?thesis unfolding frames_owned_def by (auto simp: idx)
qed

section \<open>Properties\<close>


text \<open>The environment in which the process runs alone.\<close>

lemma alone_considerate: "considerate a (alone k dev)"
  unfolding considerate_def
proof (intro allI impI)
  fix i r s A assume F: "frames_owned A s"
  have "sups (snd (alone k dev i r s)) = sups s" "pcbTable (snd (alone k dev i r s)) = pcbTable s"
    "asidProcessTable (snd (alone k dev i r s)) = asidProcessTable s"
    "swapPool (snd (alone k dev i r s)) = swapPool s" "swapIndex (snd (alone k dev i r s)) = swapIndex s"
    by (simp_all add: alone_def split: prod.splits)
  then show "\<exists>A'. others a A s A' (snd (alone k dev i r s))" using others_cong [OF others_refl [OF F]] by blast
qed

text \<open>A full pool: the page 5 of the process is in frame 3, the next victim, the other frames are stale.\<close>

definition crowded :: sstate where
  "crowded = (user_process (zero_state\<lparr>s_entryHI := 0x80003040\<rparr>))
     \<lparr>swapPool := (\<lambda>_. \<lparr>sw_asid = 1, sw_vpn = 0x80005, sw_occupied = 1\<rparr>), swapIndex := 3,
      asidProcessTable := (\<lambda>_. Some 0)\<rparr>"

lemma crowded_owned: "frames_owned [1 \<mapsto> 0] crowded" "faults 0 (zero_state\<lparr>s_entryHI := 0x80003040\<rparr>) crowded"
proof -
  have "unat (pte_index 0x80005) = 5" by (simp add: pte_index_def)
  moreover have "\<not> valid (page crowded 0 j)" for j
    by (simp add: crowded_def user_process_def zero_support_def valid_def)
  moreover have "live [1 \<mapsto> 0] crowded"
    by (simp add: live_def crowded_def getSupportStruct_def user_process_def)
  ultimately show "frames_owned [1 \<mapsto> 0] crowded"
    unfolding frames_owned_def by (auto simp: crowded_def entered_def split: if_splits)
  show "faults 0 (zero_state\<lparr>s_entryHI := 0x80003040\<rparr>) crowded"
    by (simp add: crowded_def faults_def page_index_def Let_def zero_state_def current_support_def user_process_def rd_def)
qed




text \<open>C34: The end of a process.  \<open>supTerminate\<close> gives the process's frames back and keeps the invariant
  for the processes that remain: what it does before its first system call is a step that every other
  process, with a page in hand or not, is prepared for.  Then its support structure goes back to the
  head of the free list, and the process terminates.\<close>

theorem supTerminate_keeps_frames:
  assumes h: "cooperative k h" and c: "current_support s = Some k" and F: "frames_owned A s" and a: "A a = Some k"
  shows "\<exists>s1 t s2. run (supTerminate s) h i =
      ([((VERHOGEN, masterSemaphore (link s), 0, 0), s1), ((TERMINATEPROCESS, 0, 0, 0), s2)], Terminated s2)
    \<and> (\<forall>b. b \<noteq> a \<longrightarrow> others b A s (A(a := None)) s1)
    \<and> (\<forall>f j. f < SWAP_POOL_SIZE \<longrightarrow> \<not> entered s1 f a j)
    \<and> kept k s1 t
    \<and> (\<forall>xs. support_pool t xs \<and> k \<notin> set xs \<longrightarrow> support_pool s2 (k # xs))"
proof -
  have asid: "sup_asid (sups s k) = a" using liveD [OF frames_ownedD(1) [OF F] a] by simp
  define s1 where "s1 = s\<lparr>swapPool := disowned a {..<SWAP_POOL_SIZE} (swapPool s)\<rparr>"
  note R = frames_released [OF F s1_def]
  have "others b A s (A(a := None)) s1" if "b \<noteq> a" for b
    using R that by (auto simp: others_def map_le_def)
  moreover have "\<not> entered s1 f a j" if "f < SWAP_POOL_SIZE" for f j
    using that by (auto simp: s1_def entered_def disowned_def owned_def empty_frame_def)
  moreover obtain t where "kept k s1 t" "run (supTerminate s) h i =
    ([((VERHOGEN, masterSemaphore (link s), 0, 0), s1),
      ((TERMINATEPROCESS, 0, 0, 0), freeSupportStruct k t)], Terminated (freeSupportStruct k t))"
    using run_supTerminate [OF h c, of i] by (auto simp: s1_def asid)
  moreover have "support_pool (freeSupportStruct k t) (k # xs)" if "support_pool t xs" "k \<notin> set xs" for t xs
    using supports.release_head [OF that] by simp
  ultimately show ?thesis by blast
qed

theorem supTerminate_keeps_frames_witness:
  "\<exists>s1 s2. run (supTerminate crowded) (alone 0 (\<lambda>_. 1)) 0 =
      ([((VERHOGEN, 0x20009000, 0, 0), s1), ((TERMINATEPROCESS, 0, 0, 0), s2)], Terminated s2)
    \<and> others 2 [1 \<mapsto> 0] crowded Map.empty s1"
proof -
  have c: "current_support crowded = Some 0" "masterSemaphore (link crowded) = 0x20009000"
    by (simp_all add: crowded_def current_support_def user_process_def zero_sstate_def zero_link_def)
  from supTerminate_keeps_frames [OF alone_cooperative c(1) crowded_owned(1), of 1 "\<lambda>_. 1" 0]
  show ?thesis unfolding c(2) by (auto simp: fun_upd_idem)
qed

end
