(* ===== verification/Testers.thy ===== *)
theory Testers
  imports SupportSpec
begin

text \<open>
  The user programs of \<open>src/testers\<close>.  Each is a \<open>main\<close> that computes on its own memory (\<open>bytes\<close>)
  and calls the kernel with \<open>SYSCALL\<close>; like the code of the support level it is an interaction
  tree (\<open>act\<close>), here with the system calls 9 to 18 of the support level as its requests.

  What the compiler decides is a parameter: \<open>lit\<close> gives the address of a string literal, \<open>loc\<close> that of
  an array in the frame of \<open>main\<close>.  The other local variables are values.  A store to an array outside
  its bounds, which C does not define, is \<open>Undefined\<close>.
\<close>

section \<open>Programs and their memory\<close>

record image =
  lit :: "string \<Rightarrow> u32"
  loc :: "string \<Rightarrow> u32"

abbreviation (input) TERMINATE :: u32 where "TERMINATE \<equiv> 9"
abbreviation (input) GET_TOD :: u32 where "GET_TOD \<equiv> 10"
abbreviation (input) WRITEPRINTER :: u32 where "WRITEPRINTER \<equiv> 11"
abbreviation (input) WRITETERMINAL :: u32 where "WRITETERMINAL \<equiv> 12"
abbreviation (input) READTERMINAL :: u32 where "READTERMINAL \<equiv> 13"
abbreviation (input) DISK_GET :: u32 where "DISK_GET \<equiv> 14"
abbreviation (input) DISK_PUT :: u32 where "DISK_PUT \<equiv> 15"
abbreviation (input) DELAY :: u32 where "DELAY \<equiv> 18"
abbreviation (input) GETTIME :: u32 where "GETTIME \<equiv> 6"
abbreviation (input) READY :: u32 where "READY \<equiv> 1"
abbreviation (input) EOS :: "8 word" where "EOS \<equiv> 0"
abbreviation (input) SEG1 :: u32 where "SEG1 \<equiv> 0x40000000"
abbreviation (input) SEG2 :: u32 where "SEG2 \<equiv> 0x80000000"

text \<open>A text that ends with a newline.\<close>

definition nl :: "string \<Rightarrow> string" where
  "nl t = t @ [CHR 0x0A]"

definition set_char :: "u32 \<Rightarrow> nat \<Rightarrow> u32 \<Rightarrow> 8 word \<Rightarrow> sstate \<Rightarrow> sstate option" where
  "set_char a n i c s = (if unat i < n then Some (s\<lparr>bytes := (bytes s)(a + i := c)\<rparr>) else None)"

definition get_char :: "u32 \<Rightarrow> nat \<Rightarrow> u32 \<Rightarrow> sstate \<Rightarrow> 8 word option" where
  "get_char a n i s = (if unat i < n then Some (bytes s (a + i)) else None)"

text \<open>Words in user memory; the machine is little endian.\<close>

definition put_int :: "u32 \<Rightarrow> u32 \<Rightarrow> sstate \<Rightarrow> sstate" where
  "put_int a v s = write_user a [ucast v, ucast (drop_bit 8 v), ucast (drop_bit 16 v), ucast (drop_bit 24 v)] s"

definition get_int :: "u32 \<Rightarrow> sstate \<Rightarrow> u32" where
  "get_int a s = ucast (bytes s a) OR push_bit 8 (ucast (bytes s (a + 1)))
     OR push_bit 16 (ucast (bytes s (a + 2))) OR push_bit 24 (ucast (bytes s (a + 3)))"

text \<open>The loop \<open>for (i = ...)\<close> over the values of \<open>i\<close>.\<close>

primrec for_each :: "('i \<Rightarrow> sstate \<Rightarrow> sstate option) \<Rightarrow> 'i list \<Rightarrow> sstate \<Rightarrow> sstate option" where
  "for_each f [] s = Some s"
| "for_each f (i # is) s = f i s \<bind> for_each f is"

text \<open>\<open>for (i = 0; i < n; i++)\<close> with a signed bound.\<close>

definition below :: "u32 \<Rightarrow> u32 list" where
  "below n = map of_nat [0..<nat (sint n)]"

text \<open>
  A privileged instruction, an access to the kernel's half of the address space and a division by zero
  enter the kernel as a system call does, but as a program trap: the request 0, which is none.
\<close>

definition trap :: "sstate \<Rightarrow> u32 act" where
  "trap s = SYSCALL 0 0 0 0 s"

primrec seq :: "(sstate \<Rightarrow> unit act) list \<Rightarrow> sstate \<Rightarrow> unit act" where
  "seq [] s = Done () s"
| "seq (p # ps) s = abind (p s) (\<lambda>_. seq ps)"

definition call :: "u32 \<Rightarrow> u32 \<Rightarrow> u32 \<Rightarrow> u32 \<Rightarrow> sstate \<Rightarrow> unit act" where
  "call n a1 a2 a3 s = abind (SYSCALL n a1 a2 a3 s) (\<lambda>_ s. Done () s)"

section \<open>print.c\<close>

text \<open>\<open>for (leng = 0; str[leng] != '\0'; leng++)\<close>\<close>

partial_function (option) str_len :: "(u32 \<Rightarrow> 8 word) \<Rightarrow> u32 \<Rightarrow> u32 \<Rightarrow> u32 option" where
  "str_len m str leng = (if m (str + leng) \<noteq> 0 then str_len m str (leng + 1) else Some leng)"

definition print :: "image \<Rightarrow> u32 \<Rightarrow> u32 \<Rightarrow> sstate \<Rightarrow> unit act" where
  "print im device str s =
     when_some (str_len (bytes s) str 0) (\<lambda>leng.
       abind (SYSCALL device str leng 0 s) (\<lambda>status s.
         if sint status < 0 then
           abind (SYSCALL device (lit im (nl ''Bad device write status'')) 26 0 s) (\<lambda>status s.
             call TERMINATE 0 0 0 s)
         else Done () s))"

definition say :: "image \<Rightarrow> u32 \<Rightarrow> string \<Rightarrow> sstate \<Rightarrow> unit act" where
  "say im device t = print im device (lit im t)"

section \<open>printerTest.c, terminalTest1.c to terminalTest8.c\<close>

definition printerTest :: "image \<Rightarrow> sstate \<Rightarrow> unit act" where
  "printerTest im = seq [say im WRITETERMINAL (nl ''printTest is ok''),
     say im WRITEPRINTER (nl ''printTest is ok''), call TERMINATE 0 0 0]"

definition terminalTest1 :: "image \<Rightarrow> sstate \<Rightarrow> unit act" where
  "terminalTest1 im = seq [say im WRITETERMINAL (nl ''printTest is ok''),
     say im WRITETERMINAL (nl ''Test Number 1''), call TERMINATE 0 0 0]"

definition terminalTest2 :: "image \<Rightarrow> sstate \<Rightarrow> unit act" where
  "terminalTest2 im = seq [say im WRITETERMINAL (nl ''printTest is ok''),
     say im WRITETERMINAL (nl ''Test Number 2 is ok''), call TERMINATE 0 0 0]"

definition terminalTest3 :: "image \<Rightarrow> sstate \<Rightarrow> unit act" where
  "terminalTest3 im = seq [say im WRITETERMINAL (nl ''printTest is ok''),
     say im WRITETERMINAL (nl ''Test number 3 is ok''), call TERMINATE 0 0 0]"

definition terminalTest4 :: "image \<Rightarrow> sstate \<Rightarrow> unit act" where
  "terminalTest4 im = seq [say im WRITETERMINAL (nl ''printTest is ok''),
     say im WRITETERMINAL (nl ''Test number 4 is ok''), call TERMINATE 0 0 0]"

definition terminalTest5 :: "image \<Rightarrow> sstate \<Rightarrow> unit act" where
  "terminalTest5 im = seq [say im WRITETERMINAL (nl ''printTest is ok''),
     say im WRITETERMINAL (nl ''Test number 5 is ok''), call TERMINATE 0 0 0]"

definition terminalTest6 :: "image \<Rightarrow> sstate \<Rightarrow> unit act" where
  "terminalTest6 im = seq [say im WRITETERMINAL (nl ''printTest is ok''),
     say im WRITETERMINAL (nl ''Test number 6 is ok''), call TERMINATE 0 0 0]"

definition terminalTest7 :: "image \<Rightarrow> sstate \<Rightarrow> unit act" where
  "terminalTest7 im = seq [say im WRITETERMINAL (nl ''printTest is ok''),
     say im WRITETERMINAL (nl ''Test number 7 is ok''), call TERMINATE 0 0 0]"

definition terminalTest8 :: "image \<Rightarrow> sstate \<Rightarrow> unit act" where
  "terminalTest8 im = seq [say im WRITETERMINAL (nl ''printTest is ok''),
     say im WRITETERMINAL (nl ''Test number 8 is ok''), call TERMINATE 0 0 0]"

section \<open>fibSeven.c to fibEleven.c\<close>

text \<open>The five files have the same function; an argument below 1 never ends.\<close>

partial_function (option) fib :: "u32 \<Rightarrow> u32 option" where
  "fib i = (if i = 1 \<or> i = 2 then Some 1
     else do { a \<leftarrow> fib (i - 1); b \<leftarrow> fib (i - 2); Some (a + b) })"

text \<open>The five \<open>main\<close> differ in the announcement, the argument and the value they expect.\<close>

definition fib_main :: "string \<Rightarrow> u32 \<Rightarrow> u32 \<Rightarrow> image \<Rightarrow> sstate \<Rightarrow> unit act" where
  "fib_main start n expected im s =
     abind (say im WRITETERMINAL (nl start) s) (\<lambda>_ s.
       when_some (fib n) (\<lambda>i. seq [say im WRITETERMINAL (nl ''Recursion Concluded''),
         (if i = expected then say im WRITETERMINAL (nl ''Recursion Concluded Successfully'')
          else say im WRITETERMINAL (nl ''ERROR: Recursion problems'')),
         call TERMINATE 0 0 0] s))"

definition fibSeven :: "image \<Rightarrow> sstate \<Rightarrow> unit act" where
  "fibSeven = fib_main ''Recursive Fibanaci (7) Test starts'' 7 13"

definition fibEight :: "image \<Rightarrow> sstate \<Rightarrow> unit act" where
  "fibEight = fib_main ''Recursive Fibanaci (8) Test starts'' 8 21"

definition fibNine :: "image \<Rightarrow> sstate \<Rightarrow> unit act" where
  "fibNine = fib_main ''Recursive Fibanaci (9) Test starts'' 9 34"

definition fibTen :: "image \<Rightarrow> sstate \<Rightarrow> unit act" where
  "fibTen = fib_main ''Recursive Fibanaci (10) Test starts'' 10 55"

definition fibEleven :: "image \<Rightarrow> sstate \<Rightarrow> unit act" where
  "fibEleven = fib_main ''Recursive Fibanaci (11) Test starts'' 11 89"

section \<open>terminalReader.c\<close>

text \<open>The text of \<open>print\<close> with leading newlines.\<close>

abbreviation (input) NEWLINE :: char where "NEWLINE \<equiv> CHR 0x0A"

text \<open>\<open>status = SYSCALL(READTERMINAL, (int)&buf[0], 0, 0)\<close>\<close>

definition read_line :: "u32 \<Rightarrow> sstate \<Rightarrow> u32 act" where
  "read_line buf s = SYSCALL READTERMINAL buf 0 0 s"

definition terminalReader :: "image \<Rightarrow> sstate \<Rightarrow> unit act" where
  "terminalReader im s =
     (let buf = loc im ''buf''
      in abind (seq [say im WRITETERMINAL (nl ''Terminal Read Test starts''),
             say im WRITETERMINAL ''Enter a string: ''] s) (\<lambda>_ s.
         abind (read_line buf s) (\<lambda>status s.
         when_some (set_char buf 15 status EOS s) (\<lambda>s.
           seq [say im WRITETERMINAL [NEWLINE], print im WRITETERMINAL buf,
             say im WRITETERMINAL ([NEWLINE, NEWLINE] @ nl ''Terminal Read concluded''),
             call TERMINATE 0 0 0] s))))"

section \<open>strConcat.c\<close>

text \<open>\<open>for (i = 0; i < count; i++) to[off + i] = from[i]\<close>, for arrays of \<open>n\<close> and \<open>k\<close> elements.\<close>

definition copy_chars :: "u32 \<Rightarrow> nat \<Rightarrow> u32 \<Rightarrow> u32 \<Rightarrow> nat \<Rightarrow> u32 \<Rightarrow> sstate \<Rightarrow> sstate option" where
  "copy_chars to n off from k count = for_each (\<lambda>i s. do {
     c \<leftarrow> get_char from k i s;
     set_char to n (off + i) c s
   }) (below count)"

definition strConcat :: "image \<Rightarrow> sstate \<Rightarrow> unit act" where
  "strConcat im s =
     (let buf = loc im ''buf''; buf2 = loc im ''buf2''; buf3 = loc im ''buf3''
      in abind (seq [say im WRITETERMINAL (nl ''Strcat Test starts''),
             say im WRITETERMINAL ''Enter a string: ''] s) (\<lambda>_ s.
         abind (read_line buf s) (\<lambda>status s.
         when_some (set_char buf 20 status EOS s) (\<lambda>s.
         abind (seq [say im WRITETERMINAL [NEWLINE], say im WRITETERMINAL ''Enter another string: ''] s) (\<lambda>_ s.
         abind (read_line buf2 s) (\<lambda>status2 s.
         when_some (set_char buf2 20 status2 EOS s) (\<lambda>s.
         when_some (copy_chars buf3 40 0 buf 20 (status - 1) s) (\<lambda>s.
         when_some (copy_chars buf3 40 (status - 1) buf2 20 status2 s) (\<lambda>s.
         when_some (set_char buf3 40 (status + status2 - 1) EOS s) (\<lambda>s.
           seq [print im WRITETERMINAL buf3,
             say im WRITETERMINAL ([NEWLINE, NEWLINE] @ nl ''Strcat concluded''),
             call TERMINATE 0 0 0] s))))))))))"

section \<open>annie.c\<close>

definition annie_char :: "8 word \<Rightarrow> 8 word \<Rightarrow> 8 word" where
  "annie_char c c1 =
     (let v = (scast c + scast c1) - 0x61 :: u32 in if sint v < 0x7E then ucast v else 0x52)"

definition annie :: "image \<Rightarrow> sstate \<Rightarrow> unit act" where
  "annie im s =
     (let buf = loc im ''buf''; buf1 = loc im ''buf1''; buf2 = loc im ''buf2''
      in abind (seq [say im WRITETERMINAL (nl ''Annie's Test starts''),
             say im WRITETERMINAL ''Enter a string: '', say im WRITETERMINAL [NEWLINE]] s) (\<lambda>_ s.
         abind (read_line buf s) (\<lambda>status s.
         when_some (set_char buf 15 status EOS s) (\<lambda>s.
         abind (say im WRITETERMINAL ''Enter another string of equal length: '' s) (\<lambda>_ s.
         abind (read_line buf1 s) (\<lambda>status1 s.
         when_some (set_char buf1 15 status EOS s) (\<lambda>s.
         abind (say im WRITETERMINAL [NEWLINE] s) (\<lambda>_ s.
         abind (if status \<noteq> status1 then
             seq [say im WRITETERMINAL ''string not of equal length'', call TERMINATE 0 0 0] s
           else Done () s) (\<lambda>_ s.
         when_some (for_each (\<lambda>i s. do {
             c \<leftarrow> get_char buf 15 i s;
             c1 \<leftarrow> get_char buf1 15 i s;
             set_char buf2 15 i (annie_char c c1) s
           }) (below (status - 1)) s) (\<lambda>s.
           seq [print im WRITETERMINAL buf, say im WRITETERMINAL (nl ''plus''),
             print im WRITETERMINAL buf1, say im WRITETERMINAL (nl ''equals''),
             print im WRITETERMINAL buf2,
             say im WRITETERMINAL ([NEWLINE, NEWLINE] @ nl ''Annie's test concluded''),
             call TERMINATE 0 0 0] s))))))))))"

section \<open>haris.c\<close>

text \<open>\<open>for (i = 0; buf1[i] != EOS; i++) num1 = num1 * 10 + (buf1[i] - '0')\<close>\<close>

function parse_num :: "u32 \<Rightarrow> nat \<Rightarrow> sstate \<Rightarrow> nat \<Rightarrow> u32 \<Rightarrow> u32 option" where
  "parse_num buf n s i num =
     (if i < n then
        (let c = bytes s (buf + of_nat i)
         in if c \<noteq> EOS then parse_num buf n s (i + 1) (num * 10 + (scast c - 48)) else Some num)
      else None)"
  by pat_completeness auto
termination
  by (relation "measure (\<lambda>(_, n, _, i, _). n - i)") auto

text \<open>\<open>do { resultBuf[k++] = (temp % 10) + '0'; temp /= 10; } while (temp > 0)\<close>\<close>

function put_digits :: "u32 \<Rightarrow> nat \<Rightarrow> nat \<Rightarrow> u32 \<Rightarrow> sstate \<Rightarrow> (nat \<times> sstate) option" where
  "put_digits buf n k temp s =
     (if k < n then
        (let s = s\<lparr>bytes := (bytes s)(buf + of_nat k := word_of_int (sint temp smod 10 + 48))\<rparr>;
             temp = word_of_int (sint temp sdiv 10) :: u32
         in if 0 < sint temp then put_digits buf n (k + 1) temp s else Some (k + 1, s))
      else None)"
  by pat_completeness auto
termination
  by (relation "measure (\<lambda>(_, n, k, _, _). n - k)") auto

declare parse_num.simps [simp del] put_digits.simps [simp del]

text \<open>The body of the loop that reverses \<open>resultBuf\<close>.\<close>

definition swap_chars :: "u32 \<Rightarrow> nat \<Rightarrow> nat \<Rightarrow> nat \<Rightarrow> sstate \<Rightarrow> sstate option" where
  "swap_chars buf n k l s = do {
     t \<leftarrow> get_char buf n (of_nat l) s;
     u \<leftarrow> get_char buf n (of_nat (k - l - 1)) s;
     s \<leftarrow> set_char buf n (of_nat l) u s;
     set_char buf n (of_nat (k - l - 1)) t s
   }"

definition haris :: "image \<Rightarrow> sstate \<Rightarrow> unit act" where
  "haris im s =
     (let buf1 = loc im ''buf1''; buf2 = loc im ''buf2''; resultBuf = loc im ''resultBuf''
      in abind (seq [say im WRITETERMINAL (nl ''Adder Test Begins''),
             say im WRITETERMINAL ''Enter first number: ''] s) (\<lambda>_ s.
         abind (read_line buf1 s) (\<lambda>status1 s.
         when_some (set_char buf1 10 (status1 - 1) EOS s) (\<lambda>s.
         abind (say im WRITETERMINAL ''Enter second number: '' s) (\<lambda>_ s.
         abind (read_line buf2 s) (\<lambda>status2 s.
         when_some (set_char buf2 10 (status2 - 1) EOS s) (\<lambda>s.
         when_some (parse_num buf1 10 s 0 0) (\<lambda>num1.
         when_some (parse_num buf2 10 s 0 0) (\<lambda>num2.
         when_some (put_digits resultBuf 20 0 (num1 + num2) s) (\<lambda>(k, s).
         when_some (set_char resultBuf 20 (of_nat k) EOS s) (\<lambda>s.
         when_some (for_each (swap_chars resultBuf 20 k) [0..<k div 2] s) (\<lambda>s.
           seq [say im WRITETERMINAL ''Sum is: '', print im WRITETERMINAL resultBuf,
             say im WRITETERMINAL ([NEWLINE] @ nl ''Adder Test Completed''),
             call TERMINATE 0 0 0] s))))))))))))"

section \<open>delayTest.c, timeOfDay.c\<close>

definition delayTest :: "image \<Rightarrow> sstate \<Rightarrow> unit act" where
  "delayTest im s =
     abind (SYSCALL GET_TOD 0 0 0 s) (\<lambda>now1 s.
     abind (say im WRITETERMINAL (nl ''Delay test starts'') s) (\<lambda>_ s.
     abind (SYSCALL GET_TOD 0 0 0 s) (\<lambda>now1 s.
     abind (SYSCALL GET_TOD 0 0 0 s) (\<lambda>now2 s.
     abind ((if now2 < now1 then say im WRITETERMINAL (nl ''Delay Test error: time decreasing'')
             else say im WRITETERMINAL (nl ''Delay Test ok: time increasing'')) s) (\<lambda>_ s.
     abind (call DELAY 2 0 0 s) (\<lambda>_ s.
     abind (SYSCALL GET_TOD 0 0 0 s) (\<lambda>now1 s.
     abind ((if now1 - now2 < SECOND then say im WRITETERMINAL (nl ''Delay Test error: did not delay one second'')
             else say im WRITETERMINAL (nl ''Delay Test ok: two second delay'')) s) (\<lambda>_ s.
     abind (say im WRITETERMINAL (nl ''Delay Test completed'') s) (\<lambda>_ s.
     abind (SYSCALL GETTIME 0 0 0 s) (\<lambda>now1.
       seq [say im WRITETERMINAL (nl ''todTest error: SYS6 did not terminate''),
         call TERMINATE 0 0 0]))))))))))"

text \<open>The loop \<open>for (i = 0; i < 10000; i++);\<close> of \<open>timeOfDay\<close> only passes time.\<close>

definition timeOfDay :: "image \<Rightarrow> sstate \<Rightarrow> unit act" where
  "timeOfDay im s =
     abind (SYSCALL GET_TOD 0 0 0 s) (\<lambda>now1 s.
     abind (say im WRITETERMINAL (nl ''todTest starts'') s) (\<lambda>_ s.
     abind (SYSCALL GET_TOD 0 0 0 s) (\<lambda>now1 s.
     abind (SYSCALL GET_TOD 0 0 0 s) (\<lambda>now2 s.
     abind ((if now2 < now1 then say im WRITETERMINAL (nl ''todTest error: time decreasing'')
             else say im WRITETERMINAL (nl ''todTest ok: time increasing'')) s) (\<lambda>_ s.
     abind (SYSCALL GET_TOD 0 0 0 s) (\<lambda>now1 s.
     abind ((if now1 - now2 < SECOND then say im WRITETERMINAL (nl ''todTest error: did not delay one second'')
             else say im WRITETERMINAL (nl ''todTest ok: one second delay'')) s) (\<lambda>_ s.
     abind (say im WRITETERMINAL (nl ''todTest completed'') s) (\<lambda>_ s.
     abind (SYSCALL GETTIME 0 0 0 s) (\<lambda>now1.
       seq [say im WRITETERMINAL (nl ''todTest error: SYS6 did not terminate''),
         call TERMINATE 0 0 0])))))))))"

section \<open>swapStress.c\<close>

definition page_word :: "nat \<Rightarrow> u32" where
  "page_word i = SEG2 + of_nat i * PAGESIZE"

definition fill_pages :: "nat list \<Rightarrow> sstate \<Rightarrow> sstate" where
  "fill_pages is s = foldl (\<lambda>s i. put_int (page_word i) (of_nat i) s) s is"

text \<open>The second loop, with its \<open>break\<close>; the result is \<open>corrupt\<close>.\<close>

primrec check_pages :: "image \<Rightarrow> nat list \<Rightarrow> sstate \<Rightarrow> bool act" where
  "check_pages im [] s = Done False s"
| "check_pages im (i # is) s =
     (if get_int (page_word i) s \<noteq> of_nat i then
        abind (say im WRITETERMINAL (nl ''swapTest error: swapper corrupted data'') s) (\<lambda>_. Done True)
      else check_pages im is s)"

text \<open>A load by a user program: an address of the kernel's half traps.\<close>

definition load_char :: "u32 \<Rightarrow> sstate \<Rightarrow> u32 act" where
  "load_char a s = (if a < KUSEG then trap s else Done (scast (bytes s a)) s)"

definition swapStress :: "image \<Rightarrow> sstate \<Rightarrow> unit act" where
  "swapStress im s =
     abind (say im WRITETERMINAL (nl ''swapTest starts'') s) (\<lambda>_ s.
     abind (say im WRITETERMINAL (nl ''swapTest ok: wrote to pages of seg kuseg'') (fill_pages [20..<30] s)) (\<lambda>_ s.
     abind (check_pages im [20..<30] s) (\<lambda>corrupt s.
     abind (if \<not> corrupt then say im WRITETERMINAL (nl ''swapTest ok: data survived swapper'') s
            else Done () s) (\<lambda>_ s.
     abind (load_char 0x20000000 s) (\<lambda>i.
       seq [say im WRITETERMINAL (nl ''swapTest error: could access segment kseg1''),
         call TERMINATE 0 0 0])))))"

section \<open>diskIOtest.c\<close>

abbreviation (input) MILLION :: nat where "MILLION \<equiv> 1000000"

definition disk_buffer :: u32 where
  "disk_buffer = SEG2 + 20 * PAGESIZE"

text \<open>\<open>while ((dstatus == READY) && (i < MILLION))\<close>: reading blocks until one is refused.\<close>

function probe_disk :: "nat \<Rightarrow> u32 \<Rightarrow> sstate \<Rightarrow> nat act" where
  "probe_disk i dstatus s =
     (if dstatus = READY \<and> i < MILLION then
        abind (SYSCALL DISK_GET disk_buffer 1 (of_nat (i + 1)) s) (\<lambda>dstatus s. probe_disk (i + 1) dstatus s)
      else Done i s)"
  by pat_completeness auto
termination
  by (relation "measure (\<lambda>(i, _, _). MILLION - i)") auto

declare probe_disk.simps [simp del]

text \<open>The two branches of a check of the test.\<close>

definition report :: "image \<Rightarrow> bool \<Rightarrow> string \<Rightarrow> string \<Rightarrow> sstate \<Rightarrow> unit act" where
  "report im bad err ok = say im WRITETERMINAL (nl (if bad then err else ok))"

text \<open>From the disk read into the kernel's memory on: each of these should end the program.\<close>

definition disk_traps :: "image \<Rightarrow> sstate \<Rightarrow> unit act" where
  "disk_traps im = seq [call DISK_GET SEG1 1 3,
     say im WRITETERMINAL (nl ''diskTest error: just read into segment 1''),
     (\<lambda>s. abind (trap s) (\<lambda>_. Done ())),
     say im WRITETERMINAL (nl ''diskTest error: divide by 0 did not terminate''),
     (\<lambda>s. abind (trap s) (\<lambda>_. Done ())),
     say im WRITETERMINAL (nl ''diskTest error: priv. instruction did not terminate''),
     call 1 disk_buffer 0 0,
     say im WRITETERMINAL (nl ''diskTest error: sys1 did not terminate''),
     call TERMINATE 0 0 0]"

definition diskIOtest :: "image \<Rightarrow> sstate \<Rightarrow> unit act" where
  "diskIOtest im s =
     abind (say im WRITETERMINAL (nl ''diskTest starts'') s) (\<lambda>_ s.
     abind (SYSCALL DISK_PUT disk_buffer 1 3 (put_int disk_buffer 42 s)) (\<lambda>dstatus s.
     abind (report im (dstatus \<noteq> READY) ''diskTest error: disk i/o result'' ''diskTest ok: disk i/o result'' s) (\<lambda>_ s.
     abind (SYSCALL DISK_PUT disk_buffer 1 23 (put_int disk_buffer 100 s)) (\<lambda>dstatus s.
     abind (SYSCALL DISK_GET disk_buffer 1 3 s) (\<lambda>dstatus s.
     abind (report im (get_int disk_buffer s \<noteq> 42) ''diskTest error: bad first disk sector readback''
       ''diskTest ok: first disk sector readback'' s) (\<lambda>_ s.
     abind (SYSCALL DISK_GET disk_buffer 1 23 s) (\<lambda>dstatus s.
     abind (report im (get_int disk_buffer s \<noteq> 100) ''diskTest error: bad second disk sector readback''
       ''diskTest ok: second disk sector readback'' s) (\<lambda>_ s.
     abind (SYSCALL DISK_GET disk_buffer 1 0 s) (\<lambda>dstatus s.
     abind (probe_disk 0 dstatus s) (\<lambda>i s.
     abind (report im (\<not> i < MILLION) ''diskTest error: device capacity undetected''
       ''diskTest ok: device capacity detection'' s) (\<lambda>_ s.
       seq [say im WRITETERMINAL (nl ''diskTest: completed''), disk_traps im] s)))))))))))"

section \<open>asciiArt.c\<close>

text \<open>
  The picture is a string constant of 26216 characters; it is at \<open>loc im ''stevemcqueen''\<close>.  \<open>i\<close> runs
  over \<open>0, 100, \<dots>\<close>; \<open>prtBuf\<close> has 101 elements.
\<close>

definition print_piece :: "image \<Rightarrow> nat \<Rightarrow> nat list \<Rightarrow> sstate \<Rightarrow> unit act" where
  "print_piece im i js s =
     when_some (for_each (\<lambda>j s. do {
         c \<leftarrow> get_char (loc im ''stevemcqueen'') 26217 (of_nat (i + j)) s;
         set_char (loc im ''prtBuf'') 101 (of_nat j) c s
       }) js s) (print im WRITEPRINTER (loc im ''prtBuf''))"

definition asciiArt :: "image \<Rightarrow> sstate \<Rightarrow> unit act" where
  "asciiArt im s =
     abind (seq (map (\<lambda>n. print_piece im (100 * n) [0..<100]) [0..<259]) s) (\<lambda>_ s.
     abind (print_piece im 25801 [0..<25928 - 25801] s) (\<lambda>_.
       seq [say im WRITETERMINAL (nl ''Instructions for validating printer output:''),
         say im WRITETERMINAL ''Using a standard Xterm, change the font size '',
         say im WRITETERMINAL (nl ''to Unreadable, then execute 'cat printer0.umps'.''),
         say im WRITETERMINAL ''Please note: the terminal should be black text '',
         say im WRITETERMINAL (nl ''on a white background.''),
         call TERMINATE 0 0 0]))"

end
