(* ===== verification/TesterSpec.thy ===== *)
theory TesterSpec
  imports Testers
begin

text \<open>
  What the user programs of \<open>src/testers\<close> do when the kernel serves their system calls: the texts they
  print, in order, and how they end.
\<close>

section \<open>Runs of a user program\<close>

text \<open>
  The environment of a user program, that is the kernel with all other processes, answers a request with
  the value of \<open>v0\<close> and the new state, or never (\<open>None\<close>): the process has been terminated.
\<close>

type_synonym uenv = "nat \<Rightarrow> sysreq \<Rightarrow> sstate \<Rightarrow> (u32 \<times> sstate) option"

primrec urun :: "'a act \<Rightarrow> uenv \<Rightarrow> nat \<Rightarrow> 'a run" where
  "urun (Done x s) h i = ([], Returned x s)"
| "urun (Syscall r s k) h i =
     (case h i r s of
        None \<Rightarrow> ([(r, s)], Terminated s)
      | Some (v, s') \<Rightarrow> (case urun (k v s') h (Suc i) of (tr, res) \<Rightarrow> ((r, s) # tr, res)))"
| "urun (Leave e s) h i = ([], Exited e s)"
| "urun Undefined h i = ([], Failed)"

lemma urun_abind: "urun (abind t f) h i = after (urun t h i) (\<lambda>x s n. urun (f x s) h (i + n))"
proof (induction t arbitrary: i)
  case (Syscall r s k)
  show ?case
  proof (cases "h i r s")
    case (Some a)
    obtain v s' where h: "h i r s = Some (v, s')" using Some by (cases a) simp
    have "urun (abind (k v s') f) h (Suc i) =
        after (urun (k v s') h (Suc i)) (\<lambda>x s n. urun (f x s) h (Suc i + n))"
      by (rule Syscall.IH)
    then show ?thesis using h by (auto simp: after_def split: outcome.splits prod.splits)
  qed (simp add: after_def)
qed (simp_all add: after_def split: prod.splits)

text \<open>What is printed: the device and the bytes of each request to write.\<close>

definition printed :: "sysreq \<times> sstate \<Rightarrow> (u32 \<times> 8 word list) list" where
  "printed = (\<lambda>((n, a, len, _), s). if n = WRITEPRINTER \<or> n = WRITETERMINAL
     then [(n, map (\<lambda>j. bytes s (a + of_nat j)) [0..<unat len])] else [])"

definition printout :: "(sysreq \<times> sstate) list \<Rightarrow> (u32 \<times> 8 word list) list" where
  "printout tr = concat (map printed tr)"

lemma printout_simps [simp]:
  "printout [] = []" "printout (x # tr) = printed x @ printout tr"
  "printout (tr @ tr') = printout tr @ printout tr'"
  by (simp_all add: printout_def)

text \<open>\<open>goes h t out Q\<close>: \<open>t\<close> prints \<open>out\<close> and returns with \<open>Q\<close>.  \<open>dies h t out\<close>: it prints \<open>out\<close> and is terminated.\<close>

definition goes :: "uenv \<Rightarrow> 'a act \<Rightarrow> (u32 \<times> 8 word list) list \<Rightarrow> ('a \<Rightarrow> sstate \<Rightarrow> bool) \<Rightarrow> bool" where
  "goes h t out Q \<longleftrightarrow> (\<forall>i. \<exists>tr x s. urun t h i = (tr, Returned x s) \<and> printout tr = out \<and> Q x s)"

definition dies :: "uenv \<Rightarrow> 'a act \<Rightarrow> (u32 \<times> 8 word list) list \<Rightarrow> bool" where
  "dies h t out \<longleftrightarrow> (\<forall>i. \<exists>tr s. urun t h i = (tr, Terminated s) \<and> printout tr = out)"

lemma goes_Done [simp]: "goes h (Done x s) out Q \<longleftrightarrow> out = [] \<and> Q x s"
  by (auto simp: goes_def)

lemma goes_abind:
  assumes "goes h t out Q" and "\<And>x s. Q x s \<Longrightarrow> goes h (f x s) out' R"
  shows "goes h (abind t f) (out @ out') R"
  unfolding goes_def urun_abind
proof
  fix i
  obtain tr x s where t: "urun t h i = (tr, Returned x s)" "printout tr = out" "Q x s"
    using assms(1) unfolding goes_def by blast
  obtain tr' y s' where "urun (f x s) h (i + length tr) = (tr', Returned y s')" "printout tr' = out'" "R y s'"
    using assms(2) [OF t(3)] unfolding goes_def by blast
  then show "\<exists>tr x s. after (urun t h i) (\<lambda>x s n. urun (f x s) h (i + n)) = (tr, Returned x s)
      \<and> printout tr = out @ out' \<and> R x s"
    using t by (simp add: after_def)
qed

lemma dies_abind:
  assumes "goes h t out Q" and "\<And>x s. Q x s \<Longrightarrow> dies h (f x s) out'"
  shows "dies h (abind t f) (out @ out')"
  unfolding dies_def urun_abind
proof
  fix i
  obtain tr x s where t: "urun t h i = (tr, Returned x s)" "printout tr = out" "Q x s"
    using assms(1) unfolding goes_def by blast
  obtain tr' s' where "urun (f x s) h (i + length tr) = (tr', Terminated s')" "printout tr' = out'"
    using assms(2) [OF t(3)] unfolding dies_def by blast
  then show "\<exists>tr s. after (urun t h i) (\<lambda>x s n. urun (f x s) h (i + n)) = (tr, Terminated s)
      \<and> printout tr = out @ out'"
    using t by (simp add: after_def)
qed

lemma dies_first:
  assumes "dies h t out"
  shows "dies h (abind t f) out"
  unfolding dies_def urun_abind
proof
  fix i
  obtain tr s where "urun t h i = (tr, Terminated s)" "printout tr = out"
    using assms unfolding dies_def by blast
  then show "\<exists>tr s. after (urun t h i) (\<lambda>x s n. urun (f x s) h (i + n)) = (tr, Terminated s)
      \<and> printout tr = out"
    by (simp add: after_def)
qed

text \<open>A call that is not a request to write.\<close>

definition quiet :: "u32 \<Rightarrow> bool" where
  "quiet n \<longleftrightarrow> n \<noteq> WRITEPRINTER \<and> n \<noteq> WRITETERMINAL"

lemma goes_call:
  assumes "quiet n" and "\<And>i. \<exists>v s'. h i (n, a1, a2, a3) s = Some (v, s') \<and> Q v s'"
  shows "goes h (SYSCALL n a1 a2 a3 s) [] Q"
  unfolding goes_def SYSCALL_def
proof
  fix i
  obtain v s' where "h i (n, a1, a2, a3) s = Some (v, s')" "Q v s'" using assms(2) by blast
  then show "\<exists>tr x t. urun (Syscall (n, a1, a2, a3) s Done) h i = (tr, Returned x t) \<and> printout tr = [] \<and> Q x t"
    using assms(1) by (simp add: printed_def quiet_def)
qed

lemma dies_call: "quiet n \<Longrightarrow> (\<And>i. h i (n, a1, a2, a3) s = None) \<Longrightarrow> dies h (SYSCALL n a1 a2 a3 s) []"
  by (simp add: dies_def SYSCALL_def printed_def quiet_def)

section \<open>The contract of the kernel\<close>

text \<open>
  User memory, and the contract: a well-formed request to write is accepted and leaves user memory
  alone, and a request that is not a system call of the support level, or asks to terminate, is never
  answered.
\<close>

definition umem :: "sstate \<Rightarrow> u32 \<Rightarrow> 8 word" where
  "umem s a = (if KUSEG \<le> a then bytes s a else 0)"

definition serving :: "uenv \<Rightarrow> bool" where
  "serving h \<longleftrightarrow> (\<forall>i n a1 a2 a3 s.
     (\<not> quiet n \<and> \<not> bad_string a1 a2 \<and> unat a1 + unat a2 \<le> 2 ^ 32 \<longrightarrow>
        (\<exists>v s'. h i (n, a1, a2, a3) s = Some (v, s') \<and> 0 \<le> sint v \<and> umem s' = umem s))
   \<and> (n \<notin> {10..18} \<longrightarrow> h i (n, a1, a2, a3) s = None))"

lemma serving_write:
  assumes "serving h" and "\<not> quiet n" and "\<not> bad_string a1 a2" "unat a1 + unat a2 \<le> 2 ^ 32"
  shows "\<exists>v s'. h i (n, a1, a2, a3) s = Some (v, s') \<and> 0 \<le> sint v \<and> umem s' = umem s"
  using assms unfolding serving_def by blast

lemma dies_refused: "serving h \<Longrightarrow> n \<notin> {10..18} \<Longrightarrow> dies h (SYSCALL n a1 a2 a3 s) []"
proof (rule dies_call)
  assume "n \<notin> {10..18}"
  then show "quiet n" by (auto simp: quiet_def)
qed (simp add: serving_def)

lemma dies_terminate: "serving h \<Longrightarrow> dies h (call TERMINATE 0 0 0 s) []"
  unfolding call_def by (intro dies_first dies_refused) auto

section \<open>Printing\<close>

text \<open>A C string in user memory.\<close>

definition text_at :: "(u32 \<Rightarrow> 8 word) \<Rightarrow> u32 \<Rightarrow> 8 word list \<Rightarrow> bool" where
  "text_at m a cs \<longleftrightarrow> KUSEG \<le> a \<and> unat a + length cs < 2 ^ 32 \<and> 0 \<notin> set cs
     \<and> (\<forall>j < length cs. m (a + of_nat j) = cs ! j) \<and> m (a + of_nat (length cs)) = 0"

lemma str_len_run:
  "j \<le> n \<Longrightarrow> \<forall>i < n. m (a + of_nat i) \<noteq> 0 \<Longrightarrow> m (a + of_nat n) = 0 \<Longrightarrow>
    str_len m a (of_nat j) = Some (of_nat n)"
proof (induction "n - j" arbitrary: j)
  case 0
  then show ?case by (simp add: str_len.simps [of m a])
next
  case (Suc k)
  then have "str_len m a (of_nat (Suc j)) = Some (of_nat n)" by (intro Suc.hyps(1)) auto
  moreover have "m (a + of_nat j) \<noteq> 0" using Suc.hyps(2) Suc.prems(2) by simp
  ultimately show ?case by (simp add: str_len.simps [of m a "of_nat j"] add.commute)
qed

lemma kuseg_add:
  assumes "KUSEG \<le> a" and "unat a + n < 2 ^ 32" and "j \<le> n"
  shows "KUSEG \<le> a + of_nat j"
proof -
  have "unat (a + of_nat j) = unat a + j"
    using assms(2,3) unat_of_nat_small [of j] by (subst unat_add_lem [THEN iffD1]) simp_all
  then show ?thesis using assms(1) by (simp add: word_le_nat_alt)
qed

lemma text_umem: "text_at (umem s) a cs \<Longrightarrow> text_at (bytes s) a cs"
  using kuseg_add [of a "length cs"] by (simp add: text_at_def umem_def)

text \<open>A print makes one request.\<close>

lemma print_one:
  assumes h: "serving h" and t: "text_at (umem s) a cs" and n: "0 < length cs" "length cs \<le> MAX_LEN"
    and d: "\<not> quiet device"
  shows "\<exists>tr s'. urun (print im device a s) h i = (tr, Returned () s') \<and> printout tr = [(device, cs)]
    \<and> length tr = 1 \<and> umem s' = umem s"
proof -
  let ?n = "of_nat (length cs) :: u32"
  have T: "text_at (bytes s) a cs" by (rule text_umem [OF t])
  have "str_len (bytes s) a (of_nat 0) = Some ?n"
    using T nth_mem [of _ cs] unfolding text_at_def by (intro str_len_run) (simp, metis, simp)
  then have len: "str_len (bytes s) a 0 = Some ?n" by simp
  have u: "unat ?n = length cs" "sint ?n = int (length cs)"
    using n(2) by (simp_all add: unat_of_nat_small sint_small)
  then have ok: "\<not> bad_string a ?n" "unat a + unat ?n \<le> 2 ^ 32"
    using n T by (auto simp: bad_string_def text_at_def)
  have "map (\<lambda>j. bytes s (a + of_nat j)) [0..<length cs] = cs"
    using T by (intro nth_equalityI) (simp_all add: text_at_def)
  then have out: "printout [((device, a, ?n, 0), s)] = [(device, cs)]"
    using d u(1) by (auto simp: printed_def quiet_def)
  obtain v s' where "h i (device, a, ?n, 0) s = Some (v, s')" "0 \<le> sint v" "umem s' = umem s"
    using serving_write [OF h d ok] by blast
  then have "urun (print im device a s) h i = ([((device, a, ?n, 0), s)], Returned () s') \<and> umem s' = umem s"
    by (simp add: print_def len)
  then show ?thesis using out by auto
qed

lemma print_goes:
  assumes "serving h" and "text_at (umem s) a cs" and "0 < length cs" "length cs \<le> MAX_LEN" and "\<not> quiet device"
  shows "goes h (print im device a s) [(device, cs)] (\<lambda>_ s'. umem s' = umem s)"
  using print_one [OF assms] unfolding goes_def by blast

section \<open>Printing literals\<close>

definition codes :: "string \<Rightarrow> 8 word list" where
  "codes t = map of_char t"

text \<open>The literals of the program are in memory, none longer than system calls 11 and 12 accept.\<close>

definition loaded :: "image \<Rightarrow> (u32 \<Rightarrow> 8 word) \<Rightarrow> string set \<Rightarrow> bool" where
  "loaded im m T \<longleftrightarrow> (\<forall>t \<in> T. t \<noteq> [] \<and> length t \<le> MAX_LEN \<and> text_at m (lit im t) (codes t))"

lemma say_goes:
  assumes "serving h" and "loaded im (umem s) T" and "t \<in> T" and "\<not> quiet device"
  shows "goes h (say im device t s) [(device, codes t)] (\<lambda>_ s'. umem s' = umem s)"
  unfolding say_def using assms by (intro print_goes) (auto simp: loaded_def codes_def)

lemma say_one:
  assumes "serving h" and "loaded im (umem s) T" and "t \<in> T" and "\<not> quiet device"
  shows "\<exists>tr s'. urun (say im device t s) h i = (tr, Returned () s') \<and> printout tr = [(device, codes t)]
    \<and> length tr = 1 \<and> umem s' = umem s"
  unfolding say_def using assms by (intro print_one) (auto simp: loaded_def codes_def)

lemma goes_seq:
  assumes "goes h (p s) out Q" and "\<And>s'. Q () s' \<Longrightarrow> goes h (seq ps s') out' R"
  shows "goes h (seq (p # ps) s) (out @ out') R"
  unfolding seq.simps by (rule goes_abind [OF assms(1)]) (use assms(2) in simp)

lemma dies_seq:
  assumes "goes h (p s) out Q" and "\<And>s'. Q () s' \<Longrightarrow> dies h (seq ps s') out'"
  shows "dies h (seq (p # ps) s) (out @ out')"
  unfolding seq.simps by (rule dies_abind [OF assms(1)]) (use assms(2) in simp)

text \<open>A sequence of texts, and one that ends with \<open>TERMINATE\<close>.\<close>

lemma says_goes:
  assumes h: "serving h"
  shows "loaded im (umem s) T \<Longrightarrow> \<forall>(d, t) \<in> set dts. \<not> quiet d \<and> t \<in> T \<Longrightarrow>
    goes h (seq (map (\<lambda>(d, t). say im d t) dts) s) (map (\<lambda>(d, t). (d, codes t)) dts) (\<lambda>_ s'. umem s' = umem s)"
proof (induction dts arbitrary: s)
  case (Cons x dts)
  obtain d t where x: "x = (d, t)" by (cases x)
  have "goes h (say im d t s) [(d, codes t)] (\<lambda>_ s'. umem s' = umem s)"
    using Cons.prems x by (intro say_goes [OF h]) auto
  then have "goes h (seq (say im d t # map (\<lambda>(d, t). say im d t) dts) s)
      ([(d, codes t)] @ map (\<lambda>(d, t). (d, codes t)) dts) (\<lambda>_ s'. umem s' = umem s)"
  proof (rule goes_seq)
    fix s' assume "umem s' = umem s"
    then show "goes h (seq (map (\<lambda>(d, t). say im d t) dts) s') (map (\<lambda>(d, t). (d, codes t)) dts)
        (\<lambda>_ s'. umem s' = umem s)"
      using Cons.IH [of s'] Cons.prems by simp
  qed
  then show ?case by (simp add: x)
qed simp

lemma seq_append: "seq (ps @ qs) = (\<lambda>s. abind (seq ps s) (\<lambda>_. seq qs))"
proof (induction ps)
  case (Cons p ps)
  then show ?case by (simp add: abind_assoc)
qed simp

lemma says_dies:
  assumes h: "serving h" and l: "loaded im (umem s) T" and "\<forall>(d, t) \<in> set dts. \<not> quiet d \<and> t \<in> T"
  shows "dies h (seq (map (\<lambda>(d, t). say im d t) dts @ [call TERMINATE 0 0 0]) s) (map (\<lambda>(d, t). (d, codes t)) dts)"
proof -
  have "dies h (seq [call TERMINATE 0 0 0] u) []" for u
    using dies_first [OF dies_terminate [OF h]] by simp
  then have "dies h (abind (seq (map (\<lambda>(d, t). say im d t) dts) s) (\<lambda>_. seq [call TERMINATE 0 0 0]))
      (map (\<lambda>(d, t). (d, codes t)) dts @ [])"
    by (rule dies_abind [OF says_goes [OF h l assms(3)]])
  then show ?thesis by (simp only: seq_append append_Nil2)
qed

text \<open>A text, then the rest.\<close>

lemma say_dies:
  assumes "serving h" and "loaded im (umem s) T" and "t \<in> T"
    and "\<And>s'. umem s' = umem s \<Longrightarrow> dies h (f s') out"
  shows "dies h (abind (say im WRITETERMINAL t s) (\<lambda>_. f)) ((WRITETERMINAL, codes t) # out)"
proof -
  have "goes h (say im WRITETERMINAL t s) [(WRITETERMINAL, codes t)] (\<lambda>_ s'. umem s' = umem s)"
    by (rule say_goes [OF assms(1-3)]) (simp add: quiet_def)
  from dies_abind [OF this, of "\<lambda>_. f", OF assms(4)] show ?thesis by simp
qed

section \<open>Fibonacci numbers\<close>

fun fibonacci :: "nat \<Rightarrow> nat" where
  "fibonacci 0 = 0"
| "fibonacci (Suc 0) = 1"
| "fibonacci (Suc (Suc n)) = fibonacci (Suc n) + fibonacci n"

lemma fib_fibonacci: "0 < n \<Longrightarrow> n < 2 ^ 32 \<Longrightarrow> fib (of_nat n) = Some (of_nat (fibonacci n))"
proof (induction n rule: fibonacci.induct)
  case (3 n)
  show ?case
  proof (cases "n = 0")
    case False
    have "unat (of_nat (Suc (Suc n)) :: u32) = Suc (Suc n)" using 3 by (intro unat_of_nat_small) simp
    then have "(of_nat (Suc (Suc n)) :: u32) \<noteq> 1" "(of_nat (Suc (Suc n)) :: u32) \<noteq> 2"
      using False by (auto simp del: of_nat_Suc)
    moreover have "of_nat (Suc (Suc n)) - 1 = (of_nat (Suc n) :: u32)" "of_nat (Suc (Suc n)) - 2 = (of_nat n :: u32)"
      by simp_all
    ultimately show ?thesis
      using 3 False by (simp add: fib.simps [of "of_nat (Suc (Suc n))"] del: of_nat_Suc)
  next
    case True
    then show ?thesis by (simp add: fib.simps [of 2])
  qed
next
  case 2
  show ?case by (simp add: fib.simps [of 1])
qed simp

section \<open>Which calls a program makes\<close>

definition asks :: "u32 set \<Rightarrow> 'a act \<Rightarrow> bool" where
  "asks N t \<longleftrightarrow> (\<forall>h i. (\<forall>p \<in> set (fst (urun t h i)). fst (fst p) \<in> N) \<and> (\<forall>e s. snd (urun t h i) \<noteq> Exited e s))"

lemma asks_simps [simp]: "asks N (Done x s)" "asks N Undefined"
  by (simp_all add: asks_def)

lemma asks_SYSCALL: "n \<in> N \<Longrightarrow> asks N (SYSCALL n a1 a2 a3 s)"
  by (auto simp: asks_def SYSCALL_def split: option.split prod.split)

lemma asks_abind:
  assumes "asks N t" and "\<And>x s. asks N (f x s)"
  shows "asks N (abind t f)"
  unfolding asks_def urun_abind
proof (intro allI)
  fix h i
  obtain tr res where t: "urun t h i = (tr, res)" by fastforce
  have a: "\<forall>p \<in> set tr. fst (fst p) \<in> N" "\<forall>e s. res \<noteq> Exited e s"
    using assms(1) t unfolding asks_def by (metis fst_conv, metis snd_conv)
  have f: "(\<forall>p \<in> set (fst (urun (f x s) h j)). fst (fst p) \<in> N) \<and> (\<forall>e t. snd (urun (f x s) h j) \<noteq> Exited e t)" for x s j
    using assms(2) unfolding asks_def by blast
  show "(\<forall>p \<in> set (fst (after (urun t h i) (\<lambda>x s n. urun (f x s) h (i + n)))). fst (fst p) \<in> N)
    \<and> (\<forall>e s. snd (after (urun t h i) (\<lambda>x s n. urun (f x s) h (i + n))) \<noteq> Exited e s)"
  proof (cases res)
    case (Returned x u)
    obtain tr' res' where "urun (f x u) h (i + length tr) = (tr', res')" by fastforce
    moreover from this have "(\<forall>p \<in> set tr'. fst (fst p) \<in> N) \<and> (\<forall>e t. res' \<noteq> Exited e t)"
      using f [of x u "i + length tr"] by simp
    ultimately show ?thesis using a t Returned by (auto simp: after_def)
  qed (use a t in \<open>simp_all add: after_def\<close>)
qed

lemma asks_seq: "(\<And>p s. p \<in> set ps \<Longrightarrow> asks N (p s)) \<Longrightarrow> asks N (seq ps s)"
  by (induction ps arbitrary: s) (auto intro: asks_abind)

lemma asks_print:
  assumes "device \<in> N" and "TERMINATE \<in> N"
  shows "asks N (print im device a s)"
proof -
  have "asks N (abind (SYSCALL device x y 0 t) (\<lambda>status s. if sint status < 0 then
      abind (SYSCALL device z 26 0 s) (\<lambda>status s. call TERMINATE 0 0 0 s) else Done () s))" for x y z t
  proof (intro asks_abind asks_SYSCALL assms)
    fix v u
    have "asks N (abind (SYSCALL device z 26 0 u) (\<lambda>status s. abind (SYSCALL TERMINATE 0 0 0 s) Done))"
      by (intro asks_abind asks_SYSCALL asks_simps assms)
    then show "asks N (if sint v < 0 then abind (SYSCALL device z 26 0 u) (\<lambda>status s. call TERMINATE 0 0 0 s)
        else Done () u)"
      using asks_abind [OF asks_SYSCALL [OF assms(2)], of "\<lambda>_. Done ()"]
      by (auto simp only: call_def if_split intro!: asks_abind asks_SYSCALL asks_simps assms)
  qed
  then show ?thesis unfolding print_def by (cases "str_len (bytes s) a 0") simp_all
qed

lemma for_each_fails: "j \<in> set is \<Longrightarrow> (\<And>s. f j s = None) \<Longrightarrow> for_each f is s = None"
  by (induction "is" arbitrary: s) (auto simp: bind_eq_None_conv)

lemma last_piece: "print_piece im 25801 [0..<25928 - 25801] s = Undefined"
proof -
  have "unat (of_nat 101 :: u32) = 101" by (rule unat_of_nat_small) simp
  then have "set_char b 101 (of_nat 101) c t = None" for b c t by (simp only: set_char_def) simp
  then have "for_each (\<lambda>j s. do {
      c \<leftarrow> get_char (loc im ''stevemcqueen'') 26217 (of_nat (25801 + j)) s;
      set_char (loc im ''prtBuf'') 101 (of_nat j) c s
    }) [0..<25928 - 25801] s = None"
    by (intro for_each_fails [where j = 101]) (simp_all add: bind_eq_None_conv del: of_nat_numeral)
  then show ?thesis by (simp add: print_piece_def)
qed

section \<open>An example of a loaded program\<close>

text \<open>The literals \<open>ts\<close> at multiples of 256 from \<open>0x80001000\<close> on, the arrays in pages of their own.\<close>

definition slot :: "string list \<Rightarrow> string \<Rightarrow> nat" where
  "slot ts t = length (takeWhile (\<lambda>x. x \<noteq> t) ts)"

definition demo :: "string list \<Rightarrow> string list \<Rightarrow> image" where
  "demo ts bs = \<lparr>lit = (\<lambda>t. 0x80001000 + of_nat (256 * slot ts t)),
     loc = (\<lambda>b. 0x80100000 + of_nat (4096 * slot bs b))\<rparr>"

definition demo_bytes :: "string list \<Rightarrow> u32 \<Rightarrow> 8 word" where
  "demo_bytes ts a = (let d = unat (a - 0x80001000) in
     if d < 256 * length ts \<and> d mod 256 < length (ts ! (d div 256))
     then of_char (ts ! (d div 256) ! (d mod 256)) else 0)"

lemma slot_nth: "t \<in> set ts \<Longrightarrow> slot ts t < length ts \<and> ts ! slot ts t = t"
  unfolding slot_def
  by (induction ts) auto

lemma unat_of_char: "unat (of_char c :: 8 word) = of_char c"
proof -
  have "(of_nat (of_char c) :: 8 word) = of_char c" by (rule of_nat_of_char)
  then show ?thesis by (rule of_nat_inverse) simp
qed

lemma of_char_zero: "(of_char c :: 8 word) = 0 \<longleftrightarrow> c = CHR 0x00"
proof -
  have "(of_char c :: nat) = 0 \<longleftrightarrow> c = CHR 0x00"
    using of_char_eq_iff [of c "CHR 0x00"] by simp
  then show ?thesis using unat_of_char [of c] unat_eq_zero [of "of_char c :: 8 word"] by simp
qed

lemma demo_loaded:
  assumes ts: "\<forall>t \<in> set ts. t \<noteq> [] \<and> length t \<le> MAX_LEN \<and> CHR 0x00 \<notin> set t" "length ts \<le> 1000"
    and m: "bytes s = demo_bytes ts"
  shows "loaded (demo ts bs) (umem s) (set ts)"
proof -
  have "t \<noteq> [] \<and> length t \<le> MAX_LEN \<and> text_at (umem s) (lit (demo ts bs) t) (codes t)" if t: "t \<in> set ts" for t
  proof -
    let ?k = "slot ts t" and ?a = "lit (demo ts bs) t"
    have k: "?k < length ts" "ts ! ?k = t" "?k < 1000" using slot_nth [OF t] ts(2) by auto
    have len: "t \<noteq> []" "length t \<le> 128" "CHR 0x00 \<notin> set t" using ts(1) t by auto
    have off: "unat (?a + of_nat j - 0x80001000) = 256 * ?k + j" if "j \<le> 128" for j
    proof -
      have "?a + of_nat j - 0x80001000 = of_nat (256 * ?k + j)" by (simp add: demo_def)
      then show ?thesis using k(3) that by (simp only:) (rule unat_of_nat_small, simp)
    qed
    have base: "unat ?a = 0x80001000 + 256 * ?k"
    proof -
      have "?a = of_nat (0x80001000 + 256 * ?k)" by (simp add: demo_def)
      then show ?thesis using k(3) by (simp only:) (rule unat_of_nat_small, simp)
    qed
    have a: "KUSEG \<le> ?a" "unat ?a + 128 < 2 ^ 32" using base k(3) by (simp_all add: word_le_nat_alt)
    have rd: "umem s (?a + of_nat j) = (if j < length t then of_char (t ! j) else 0)" if "j \<le> 128" for j
    proof -
      have "KUSEG \<le> ?a + of_nat j" by (rule kuseg_add [OF a that])
      moreover have "(256 * ?k + j) div 256 = ?k" "(256 * ?k + j) mod 256 = j" using that by simp_all
      moreover have "256 * ?k + j < 256 * length ts" using k(1) that by simp
      ultimately show ?thesis using off [OF that] k(2) by (simp add: umem_def m demo_bytes_def Let_def)
    qed
    have "(of_char c :: 8 word) \<noteq> 0" if "c \<in> set t" for c using that len(3) by (auto simp: of_char_zero)
    then have "0 \<notin> set (codes t)" unfolding codes_def set_map by (metis imageE)
    moreover have "\<forall>j < length t. umem s (?a + of_nat j) = codes t ! j" using rd len(2) by (simp add: codes_def)
    ultimately have "text_at (umem s) ?a (codes t)"
      using a len(2) rd [OF len(2)] by (simp add: text_at_def codes_def)
    then show ?thesis using len by simp
  qed
  then show ?thesis by (simp add: loaded_def)
qed

text \<open>A kernel that accepts every text and answers everything else with 0.\<close>

definition obliging :: uenv where
  "obliging i r s = (if fst r \<in> {10..18} then Some (0, s) else None)"

lemma obliging: "serving obliging"
  by (auto simp: serving_def obliging_def quiet_def)

end
