(* ===== verification/StringSpec.thy ===== *)
theory StringSpec
  imports SupportPool
begin

text \<open>
  The system calls that write a string to a printer or a terminal and read a line from a terminal:
  which requests a run makes, what the device is given at each, and what the caller gets back.
\<close>

section \<open>The ends of a run\<close>

lemma run_device_done:
  assumes h: "cooperative k h" and e: "sup_exceptState (sups s k) 1 = st"
  shows "\<exists>s'. run (device_done k sem n s) h i =
    ([((VERHOGEN, sem, 0, 0), s)], Exited (LDST (set_reg r_v0 n st)) s')
    \<and> (\<forall>a. KUSEG \<le> a \<longrightarrow> bytes s' a = bytes s a)"
proof -
  obtain v s1 where h1: "h i (VERHOGEN, sem, 0, 0) s = (v, s1)" by fastforce
  note K = keptD [OF cooperativeD(1) [OF h h1]]
  then show ?thesis using h1 e by (simp add: device_done_def load_and_leave_def)
qed

lemma run_device_error:
  assumes h: "cooperative k h" and e: "sup_exceptState (sups s k) 1 = st"
  shows "\<exists>s1 s'. run (device_error k sem status s) h i =
    ([((VERHOGEN, sem, 0, 0), s1)], Exited (LDST (set_reg r_v0 (- status) st)) s')"
proof -
  let ?s = "set_state_reg (SupState k GENERALEXCEPT) r_v0 (- status) s"
  obtain v s1 where h1: "h i (VERHOGEN, sem, 0, 0) ?s = (v, s1)" by fastforce
  note K = keptD [OF cooperativeD(1) [OF h h1]]
  then show ?thesis using h1 e by (simp add: device_error_def load_and_leave_def)
qed

section \<open>The loop of the writers\<close>

text \<open>The first \<open>m\<close> characters are accepted: one request for each, made just after it is issued.\<close>

lemma write_chars_prefix:
  assumes h: "cooperative k h" and req: "fst req \<noteq> TERMINATEPROCESS"
    and issue: "\<And>c t. kept k t (issue c t)"
  shows "(\<forall>j<m. \<forall>t. fst (h (i + j) req t) AND STATUS_MASK = ok) \<Longrightarrow> m \<le> length cs \<Longrightarrow>
    \<exists>tr s'. run (write_chars issue req ok k sem cs n s) h i =
      (case run (write_chars issue req ok k sem (drop m cs) (n + of_nat m) s') h (i + m) of
         (tr', res) \<Rightarrow> (tr @ tr', res))
    \<and> length tr = m \<and> (\<forall>j<m. \<exists>t. tr ! j = (req, issue (cs ! j) t)) \<and> kept k s s'"
proof (induction m arbitrary: i cs n s)
  case 0
  show ?case by (rule exI [of _ "[]"], rule exI [of _ s]) (simp split: prod.splits)
next
  case (Suc m)
  then obtain c ds where cs: "cs = c # ds" by (cases cs) auto
  obtain v s1 where h1: "h i req (issue c s) = (v, s1)" by fastforce
  have "fst (h (i + 0) req (issue c s)) AND STATUS_MASK = ok" using Suc.prems(1) by blast
  then have v: "v AND STATUS_MASK = ok" using h1 by simp
  have "kept k s s1" by (rule kept_trans [OF issue cooperativeD(1) [OF h h1]])
  then have k1: "kept k s (enable_interrupts s1)" by (simp add: kept_def)
  have "\<forall>j<m. \<forall>t. fst (h (Suc i + j) req t) AND STATUS_MASK = ok"
    using Suc.prems(1) by (metis Suc_less_eq add_Suc_shift)
  then obtain tr s' where IH: "run (write_chars issue req ok k sem ds (n + 1) (enable_interrupts s1)) h (Suc i) =
      (case run (write_chars issue req ok k sem (drop m ds) (n + 1 + of_nat m) s') h (Suc i + m) of
         (tr', res) \<Rightarrow> (tr @ tr', res))" "length tr = m"
    "\<forall>j<m. \<exists>t. tr ! j = (req, issue (ds ! j) t)" "kept k (enable_interrupts s1) s'"
    using Suc.IH [of "Suc i" ds "n + 1" "enable_interrupts s1"] Suc.prems(2) cs by auto
  have n: "n + of_nat (Suc m) = n + 1 + of_nat m" by simp
  show ?case
  proof (rule exI [of _ "(req, issue c s) # tr"], rule exI [of _ s'], intro conjI)
    show "run (write_chars issue req ok k sem cs n s) h i =
        (case run (write_chars issue req ok k sem (drop (Suc m) cs) (n + of_nat (Suc m)) s') h (i + Suc m) of
           (tr', res) \<Rightarrow> (((req, issue c s) # tr) @ tr', res))"
      using req h1 v IH(1) unfolding n by (simp add: cs Let_def split: prod.splits)
    show "\<forall>j<Suc m. \<exists>t. ((req, issue c s) # tr) ! j = (req, issue (cs ! j) t)"
      using IH(3) by (auto simp: cs less_Suc_eq_0_disj)
  qed (use IH(2) kept_trans [OF k1 IH(4)] in simp_all)
qed

lemma kept_print_char: "kept k t (print_char l c t)"
  by (simp add: kept_def print_char_def Let_def)

lemma kept_send_char: "kept k t (send_char l c t)"
  by (simp add: kept_def send_char_def Let_def)

section \<open>Writing a string\<close>

text \<open>A user address range that does not wrap stays in the user segment.\<close>

lemma user_range:
  assumes "KUSEG \<le> a" and "unat a + n \<le> 2 ^ 32" and "j < n"
  shows "KUSEG \<le> a + of_nat j"
proof -
  have "unat (of_nat j :: u32) = j" using assms by (intro unat_of_nat_small) simp
  moreover have "unat a + j < 2 ^ 32" using assms by simp
  ultimately have "unat (a + of_nat j) = unat a + j"
    by (simp add: unat_add_lem [THEN iffD1])
  then show ?thesis using assms(1) by (simp add: word_le_nat_alt)
qed

lemma not_bad_string:
  assumes "\<not> bad_string a len"
  shows "KUSEG \<le> a" and "0 < unat len" and "unat len \<le> 128" and "read_user a (unat len) s \<noteq> None"
proof -
  have "0 < sint len" "sint len \<le> 128" using assms by (auto simp: bad_string_def)
  then have "int (unat len) = sint len" by (intro sint_nonneg) simp
  with \<open>0 < sint len\<close> \<open>sint len \<le> 128\<close> show "0 < unat len" "unat len \<le> 128" by linarith+
  then show "read_user a (unat len) s \<noteq> None" by (simp add: read_user_def)
  show "KUSEG \<le> a" using assms by (simp add: bad_string_def not_less)
qed

text \<open>The string of a request: the characters at \<open>a1\<close>, \<open>a2\<close> many.\<close>

definition user_string :: "state_t \<Rightarrow> sstate \<Rightarrow> 8 word list" where
  "user_string st s = map (\<lambda>j. bytes s (s_reg st r_a1 + of_nat j)) [0..<unat (s_reg st r_a2)]"

definition good_string :: "state_t \<Rightarrow> bool" where
  "good_string st \<longleftrightarrow> \<not> bad_string (s_reg st r_a1) (s_reg st r_a2)
     \<and> unat (s_reg st r_a1) + unat (s_reg st r_a2) \<le> 2 ^ 32"

lemma length_user_string [simp]: "length (user_string st s) = unat (s_reg st r_a2)"
  by (simp add: user_string_def)

lemma user_string_kept:
  assumes "kept k s s'" and "good_string st"
  shows "user_string st s' = user_string st s"
  using assms user_range not_bad_string(1) unfolding user_string_def good_string_def
  by (intro map_cong refl keptD(5)) auto

lemma write_string_start:
  assumes h: "cooperative k h" and ad: "addressed k s" and st: "sup_exceptState (sups s k) 1 = st" "good_string st"
    and l: "l = sup_asid (sups s k) - 1" and sem: "sem = sem_of (base (link s)) l"
  shows "\<exists>s1 s2. kept k s s2 \<and> run (write_string base issue req ok s) h 0 =
    (case run (abind (write_chars (issue l) (req l) ok k sem (user_string st s) 0 s2)
        (\<lambda>n s. device_done k sem n s)) h 2 of
       (tr, res) \<Rightarrow> (((GETSUPPORTPTR, 0, 0, 0), s) # ((PASSEREN, sem, 0, 0), s1) # tr, res))"
proof -
  obtain s1 where s1: "kept k s s1" "\<And>f :: nat \<Rightarrow> sstate \<Rightarrow> unit act. run (abind (get_support s) f) h 0 =
        (case run (f k s1) h (Suc 0) of (tr, res) \<Rightarrow> (((GETSUPPORTPTR, 0, 0, 0), s) # tr, res))"
    using run_get_support [OF h ad, of 0] by blast
  note K = keptD [OF s1(1)]
  obtain v s2 where h2: "h (Suc 0) (PASSEREN, sem, 0, 0) s1 = (v, s2)" by fastforce
  have k2: "kept k s s2" by (rule kept_trans [OF s1(1) cooperativeD(1) [OF h h2]])
  have "read_user (s_reg st r_a1) (unat (s_reg st r_a2)) s1 = Some (user_string st s1)"
    using not_bad_string(3) [of "s_reg st r_a1" "s_reg st r_a2"] st(2)
    by (simp add: good_string_def read_user_def user_string_def)
  then have "read_user (s_reg st r_a1) (unat (s_reg st r_a2)) s1 = Some (user_string st s)"
    using user_string_kept [OF s1(1) st(2)] by simp
  moreover have "\<not> bad_string (s_reg st r_a1) (s_reg st r_a2)"
    using st(2) by (simp add: good_string_def)
  ultimately show ?thesis
    using s1(2) k2 st(1) l sem K(1,3,4) h2
    by (intro exI [of _ s1] exI [of _ s2])
       (simp add: write_string_def terminate_if_def Let_def numeral_2_eq_2 split: prod.splits)
qed

text \<open>Every character is accepted, or all before the \<open>m\<close>-th are and that one is refused.\<close>

abbreviation (input) accepted :: "env \<Rightarrow> sysreq \<Rightarrow> u32 \<Rightarrow> nat \<Rightarrow> bool" where
  "accepted h r ok m \<equiv> \<forall>j<m. \<forall>t. fst (h (2 + j) r t) AND STATUS_MASK = ok"

lemma write_string_run:
  assumes h: "cooperative k h" and ad: "addressed k s" and st: "sup_exceptState (sups s k) 1 = st" "good_string st"
    and l: "l = sup_asid (sups s k) - 1" and sem: "sem = sem_of (base (link s)) l"
    and req: "fst (req l) \<noteq> TERMINATEPROCESS" and issue: "\<And>c t. kept k t (issue l c t)"
    and ok: "accepted h (req l) ok m" "m \<le> unat (s_reg st r_a2)"
  shows "\<exists>tr s1 s2. kept k s s2 \<and> run (write_string base issue req ok s) h 0 =
    (case run (abind (write_chars (issue l) (req l) ok k sem (drop m (user_string st s)) (of_nat m) s2)
        (\<lambda>n s. device_done k sem n s)) h (2 + m) of
       (tr', res) \<Rightarrow> (((GETSUPPORTPTR, 0, 0, 0), s) # ((PASSEREN, sem, 0, 0), s1) # tr @ tr', res))
    \<and> length tr = m \<and> (\<forall>j<m. \<exists>t. tr ! j = (req l, issue l (user_string st s ! j) t))"
proof -
  obtain s1 s2 where start: "kept k s s2" "run (write_string base issue req ok s) h 0 =
    (case run (abind (write_chars (issue l) (req l) ok k sem (user_string st s) 0 s2)
        (\<lambda>n s. device_done k sem n s)) h 2 of
       (tr, res) \<Rightarrow> (((GETSUPPORTPTR, 0, 0, 0), s) # ((PASSEREN, sem, 0, 0), s1) # tr, res))"
    using write_string_start [where base = base and issue = issue and req = req and ok = ok, OF h ad st l sem] by blast
  have "m \<le> length (user_string st s)" using ok(2) by simp
  then obtain tr s3 where loop: "run (write_chars (issue l) (req l) ok k sem (user_string st s) 0 s2) h 2 =
      (case run (write_chars (issue l) (req l) ok k sem (drop m (user_string st s)) (0 + of_nat m) s3) h (2 + m) of
         (tr', res) \<Rightarrow> (tr @ tr', res))" "length tr = m"
    "\<forall>j<m. \<exists>t. tr ! j = (req l, issue l (user_string st s ! j) t)" "kept k s2 s3"
    using write_chars_prefix [where issue = "issue l", OF h req issue ok(1), of "user_string st s"] by blast
  have "after (tr @ tr', res) f = (case after (tr', res) (\<lambda>x s n. f x s (length tr + n)) of
      (tr'', res') \<Rightarrow> (tr @ tr'', res'))" for tr' and res :: "u32 outcome" and f :: "u32 \<Rightarrow> sstate \<Rightarrow> nat \<Rightarrow> unit run"
    by (auto simp: after_def split: outcome.splits prod.splits)
  then have "run (abind (write_chars (issue l) (req l) ok k sem (user_string st s) 0 s2)
        (\<lambda>n s. device_done k sem n s)) h 2 =
      (case run (abind (write_chars (issue l) (req l) ok k sem (drop m (user_string st s)) (of_nat m) s3)
        (\<lambda>n s. device_done k sem n s)) h (2 + m) of (tr', res) \<Rightarrow> (tr @ tr', res))"
    using loop(1,2) by (simp add: run_abind add.assoc split: prod.splits)
  then show ?thesis
    using start kept_trans [OF start(1) loop(4)] loop(2,3)
    by (intro exI [of _ tr] exI [of _ s1] exI [of _ s3]) (simp split: prod.splits)
qed

lemma write_string_serves:
  assumes h: "cooperative k h" and ad: "addressed k s" and st: "sup_exceptState (sups s k) 1 = st" "good_string st"
    and l: "l = sup_asid (sups s k) - 1" and sem: "sem = sem_of (base (link s)) l"
    and req: "fst (req l) \<noteq> TERMINATEPROCESS" and issue: "\<And>c t. kept k t (issue l c t)"
    and ok: "accepted h (req l) ok (unat (s_reg st r_a2))"
  shows "\<exists>tr s'. run (write_string base issue req ok s) h 0 =
      (tr, Exited (LDST (set_reg r_v0 (s_reg st r_a2) st)) s')
    \<and> map fst tr = [(GETSUPPORTPTR, 0, 0, 0), (PASSEREN, sem, 0, 0)]
        @ replicate (unat (s_reg st r_a2)) (req l) @ [(VERHOGEN, sem, 0, 0)]
    \<and> (\<forall>j < unat (s_reg st r_a2). \<exists>t. snd (tr ! (2 + j)) = issue l (user_string st s ! j) t)
    \<and> (\<forall>x. KUSEG \<le> x \<longrightarrow> bytes s' x = bytes s x)"
proof -
  let ?n = "unat (s_reg st r_a2)"
  obtain tr s1 s2 where r: "kept k s s2" "run (write_string base issue req ok s) h 0 =
    (case run (abind (write_chars (issue l) (req l) ok k sem (drop ?n (user_string st s)) (of_nat ?n) s2)
        (\<lambda>n s. device_done k sem n s)) h (2 + ?n) of
       (tr', res) \<Rightarrow> (((GETSUPPORTPTR, 0, 0, 0), s) # ((PASSEREN, sem, 0, 0), s1) # tr @ tr', res))"
    "length tr = ?n" "\<forall>j<?n. \<exists>t. tr ! j = (req l, issue l (user_string st s ! j) t)"
    using write_string_run [where base = base and issue = issue and req = req, OF h ad st l sem req issue ok order_refl] by blast
  have "sup_exceptState (sups s2 k) 1 = st" using keptD(4) [OF r(1)] st(1) by simp
  then obtain s3 where d: "run (device_done k sem (s_reg st r_a2) s2) h (2 + ?n) =
      ([((VERHOGEN, sem, 0, 0), s2)], Exited (LDST (set_reg r_v0 (s_reg st r_a2) st)) s3)"
    "\<forall>x. KUSEG \<le> x \<longrightarrow> bytes s3 x = bytes s2 x"
    using run_device_done [OF h] by blast
  have "map fst tr = replicate ?n (req l)"
    using r(3,4) by (intro nth_equalityI) auto
  moreover have "\<forall>j<?n. \<exists>t. snd (tr ! j) = issue l (user_string st s ! j) t"
    using r(4) by (metis snd_conv)
  ultimately show ?thesis using r(2,3) d keptD(5) [OF r(1)]
    by (intro exI [of _ "((GETSUPPORTPTR, 0, 0, 0), s) # ((PASSEREN, sem, 0, 0), s1) # tr @ [((VERHOGEN, sem, 0, 0), s2)]"]
      exI [of _ s3]) (simp add: nth_append)
qed

lemma write_string_ok:
  assumes h: "cooperative k h" and ad: "addressed k s" and st: "sup_exceptState (sups s k) 1 = st" "good_string st"
    and l: "l = sup_asid (sups s k) - 1" and sem: "sem = sem_of (base (link s)) l"
    and req: "fst (req l) \<noteq> TERMINATEPROCESS" and issue: "\<And>c t. kept k t (issue l c t)"
    and ok: "accepted h (req l) ok (unat (s_reg st r_a2))"
  shows "\<exists>tr s'. run (write_string base issue req ok s) h 0 =
      (tr, Exited (LDST (set_reg r_v0 (s_reg st r_a2) st)) s')
    \<and> map fst tr = [(GETSUPPORTPTR, 0, 0, 0), (PASSEREN, sem, 0, 0)]
        @ replicate (unat (s_reg st r_a2)) (req l) @ [(VERHOGEN, sem, 0, 0)]
    \<and> (\<forall>j < unat (s_reg st r_a2). \<exists>t. snd (tr ! (2 + j)) = issue l (user_string st s ! j) t)"
  using write_string_serves [where base = base and issue = issue and req = req, OF assms] by blast

lemma write_string_error:
  assumes h: "cooperative k h" and ad: "addressed k s" and st: "sup_exceptState (sups s k) 1 = st" "good_string st"
    and l: "l = sup_asid (sups s k) - 1" and sem: "sem = sem_of (base (link s)) l"
    and req: "fst (req l) \<noteq> TERMINATEPROCESS" and issue: "\<And>c t. kept k t (issue l c t)"
    and ok: "accepted h (req l) ok m" "m < unat (s_reg st r_a2)"
    and bad: "\<And>t. fst (h (2 + m) (req l) t) = status" "status AND STATUS_MASK \<noteq> ok"
  shows "\<exists>tr s'. run (write_string base issue req ok s) h 0 =
      (tr, Exited (LDST (set_reg r_v0 (- status) st)) s')
    \<and> map fst tr = [(GETSUPPORTPTR, 0, 0, 0), (PASSEREN, sem, 0, 0)]
        @ replicate (Suc m) (req l) @ [(VERHOGEN, sem, 0, 0)]"
proof -
  obtain tr s1 s2 where r: "kept k s s2" "run (write_string base issue req ok s) h 0 =
    (case run (abind (write_chars (issue l) (req l) ok k sem (drop m (user_string st s)) (of_nat m) s2)
        (\<lambda>n s. device_done k sem n s)) h (2 + m) of
       (tr', res) \<Rightarrow> (((GETSUPPORTPTR, 0, 0, 0), s) # ((PASSEREN, sem, 0, 0), s1) # tr @ tr', res))"
    "length tr = m" "\<forall>j<m. \<exists>t. tr ! j = (req l, issue l (user_string st s ! j) t)"
    using write_string_run [where base = base and issue = issue and req = req, OF h ad st l sem req issue ok(1) less_imp_le [OF ok(2)]] by blast
  obtain c cs where cs: "drop m (user_string st s) = c # cs"
    using ok(2) by (cases "drop m (user_string st s)") auto
  obtain v s3 where h3: "h (2 + m) (req l) (issue l c s2) = (v, s3)" by fastforce
  have v: "v = status" using bad(1) h3 by (metis fst_conv)
  have "kept k s s3" by (rule kept_trans [OF kept_trans [OF r(1) issue] cooperativeD(1) [OF h h3]])
  then have "sup_exceptState (sups (enable_interrupts s3) k) 1 = st"
    using keptD(4) st(1) by simp
  then obtain s4 s5 where d: "run (device_error k sem status (enable_interrupts s3)) h (Suc (2 + m)) =
      ([((VERHOGEN, sem, 0, 0), s4)], Exited (LDST (set_reg r_v0 (- status) st)) s5 :: u32 outcome)"
    using run_device_error [OF h] by blast
  have "map fst tr = replicate m (req l)"
    using r(3,4) by (intro nth_equalityI) auto
  then show ?thesis using r(2) d cs h3 v bad(2) req
    by (simp add: run_abind Let_def replicate_append_same [symmetric])
qed

section \<open>Reading a line\<close>

lemma write_user_simps [simp]:
  "sups (write_user a cs s) = sups s" "link (write_user a cs s) = link s"
  by (induction cs arbitrary: a s) simp_all

lemma write_user_outside:
  "(\<And>j. j < length cs \<Longrightarrow> x \<noteq> a + of_nat j) \<Longrightarrow> bytes (write_user a cs s) x = bytes s x"
proof (induction cs arbitrary: a s)
  case (Cons c cs)
  have "x \<noteq> a + 1 + of_nat j" if "j < length cs" for j
    using Cons.prems [of "Suc j"] that by (simp add: add.assoc)
  moreover have "x \<noteq> a" using Cons.prems [of 0] by simp
  ultimately show ?case using Cons.IH [of "a + 1"] by simp
qed simp

lemma write_user_inside:
  "length cs < 2 ^ 32 \<Longrightarrow> j < length cs \<Longrightarrow> bytes (write_user a cs s) (a + of_nat j) = cs ! j"
proof (induction cs arbitrary: a s j)
  case (Cons c cs)
  show ?case
  proof (cases j)
    case 0
    have "a \<noteq> a + 1 + of_nat i" if "i < length cs" for i
    proof -
      have "unat (of_nat (Suc i) :: u32) = Suc i"
        using that Cons.prems(1) by (intro unat_of_nat_small) simp
      then have "(of_nat (Suc i) :: u32) \<noteq> 0" by (metis nat.distinct(1) unsigned_0)
      then show ?thesis by (simp add: add.assoc)
    qed
    then show ?thesis using 0 write_user_outside [of cs a "a + 1"] by simp
  next
    case (Suc i)
    then show ?thesis using Cons.IH [of i "a + 1"] Cons.prems by (simp add: add.assoc)
  qed
qed simp

text \<open>The character in a receiver's status.\<close>

definition received :: "u32 \<Rightarrow> 8 word" where
  "received status = ucast (drop_bit 8 status AND 0xFF)"

text \<open>A line: no character but the last is a newline, and it ends with one or is full.\<close>

definition is_line :: "(nat \<Rightarrow> u32) \<Rightarrow> nat \<Rightarrow> bool" where
  "is_line st n \<longleftrightarrow> 0 < n \<and> n \<le> MAX_LEN \<and> (\<forall>j<n. st j AND STATUS_MASK = 5)
     \<and> (\<forall>j. Suc j < n \<longrightarrow> received (st j) \<noteq> 10) \<and> (received (st (n - 1)) = 10 \<or> n = MAX_LEN)"

lemma read_chars_run:
  assumes h: "cooperative k h" and line: "is_line st n" "length buf = m" "m < n"
    and answers: "\<And>j t. j < n \<Longrightarrow> fst (h (i + j) (WAITIO, TERMINT, l, 1) t) = st j"
  shows "\<exists>tr s'. run (read_chars k l sem buf s) h (i + m) =
      (tr, Returned (buf @ map (\<lambda>j. received (st j)) [m..<n]) s')
    \<and> map fst tr = replicate (n - m) (WAITIO, TERMINT, l, 1) \<and> kept k s s'
    \<and> (\<forall>p \<in> set tr. mem (snd p) (t_recv_command (DEV_REG_ADDR TERMINT l)) = 2
        \<and> status_reg (cpu (snd p)) AND IECON = 0)"
  using line(2,3)
proof (induction "n - m" arbitrary: m buf s)
  case (Suc d)
  let ?r = "(WAITIO, TERMINT, l, 1) :: sysreq"
  let ?s = "disable_interrupts (store_word (t_recv_command (DEV_REG_ADDR TERMINT l)) 2 s)"
  let ?buf = "buf @ [received (st m)]"
  obtain v s1 where h1: "h (i + m) ?r ?s = (v, s1)" by fastforce
  then have v: "v = st m" using answers [OF Suc.prems(2), of ?s] by simp
  then have ok: "v AND STATUS_MASK = 5" using line(1) Suc.prems(2) by (simp add: is_line_def)
  have "kept k s ?s" by (simp add: kept_def)
  then have "kept k s s1" by (rule kept_trans [OF _ cooperativeD(1) [OF h h1]])
  then have k1: "kept k s (enable_interrupts s1)" by (simp add: kept_def)
  have issued: "mem ?s (t_recv_command (DEV_REG_ADDR TERMINT l)) = 2" "status_reg (cpu ?s) AND IECON = 0"
    by (simp_all add: disable_interrupts_def word_bw_assocs)
  have step: "run (read_chars k l sem buf s) h (i + m) =
      (case run (if received (st m) \<noteq> 10 \<and> Suc m < MAX_LEN then
              read_chars k l sem ?buf (enable_interrupts s1) else Done ?buf (enable_interrupts s1))
          h (Suc (i + m)) of (tr, res) \<Rightarrow> ((?r, ?s) # tr, res))"
    using h1 v ok Suc.prems(1) by (simp add: read_chars.simps [of k l sem buf] received_def Let_def)
  show ?case
  proof (cases "Suc m = n")
    case True
    then have "\<not> (received (st m) \<noteq> 10 \<and> Suc m < MAX_LEN)"
      using line(1) by (auto simp: is_line_def)
    then have "run (read_chars k l sem buf s) h (i + m) = ([(?r, ?s)], Returned ?buf (enable_interrupts s1))"
      unfolding step by (simp only: if_False run.simps prod.case)
    moreover have "[m..<n] = [m]" "n - m = 1" using True by auto
    ultimately show ?thesis using k1 issued
      by (simp only: replicate_Suc One_nat_def replicate_0) (simp del: disable_interrupts_simps)
  next
    case False
    then have m: "Suc m < n" using Suc.prems(2) by simp
    have "d = n - Suc m" "length ?buf = Suc m" using Suc.hyps(2) Suc.prems by simp_all
    then obtain tr s' where IH: "run (read_chars k l sem ?buf (enable_interrupts s1)) h (i + Suc m) =
        (tr, Returned (?buf @ map (\<lambda>j. received (st j)) [Suc m..<n]) s')"
      "map fst tr = replicate (n - Suc m) ?r" "kept k (enable_interrupts s1) s'"
      "\<forall>p \<in> set tr. mem (snd p) (t_recv_command (DEV_REG_ADDR TERMINT l)) = 2
        \<and> status_reg (cpu (snd p)) AND IECON = 0"
      using Suc.hyps(1) [of "Suc m" ?buf] m by blast
    have "received (st m) \<noteq> 10 \<and> Suc m < MAX_LEN" using line(1) m by (simp add: is_line_def)
    moreover have "replicate (n - m) ?r = ?r # replicate (n - Suc m) ?r"
      using Suc.prems(2) by (simp add: Suc_diff_Suc [symmetric])
    moreover have "[m..<n] = m # [Suc m..<n]" using Suc.prems(2) by (simp add: upt_rec)
    ultimately show ?thesis using step IH kept_trans [OF k1 IH(3)] issued
      by (simp del: disable_interrupts_simps)
  qed
qed simp

section \<open>Properties\<close>

text \<open>C13: System call 11 prints the user's string: under every environment in which the printer
  accepts each character, the run locks the line's printer, makes one request for each character, in
  order, with that character and the print command in the device's registers and interrupts off,
  unlocks the printer, and resumes the user with the number of characters in \<open>v0\<close>.\<close>

theorem supWriteToPrinter_prints:
  assumes "cooperative k h" and "addressed k s"
    and "sup_exceptState (sups s k) 1 = st" and "good_string st"
    and l: "l = sup_asid (sups s k) - 1" and "sem = printerSem (link s) + 4 * l"
    and "accepted h (WAITIO, PRNTINT, l, 0) 1 (unat (s_reg st r_a2))"
  shows "\<exists>tr s'. run (supWriteToPrinter s) h 0 =
      (tr, Exited (LDST (set_reg r_v0 (s_reg st r_a2) st)) s')
    \<and> map fst tr = [(GETSUPPORTPTR, 0, 0, 0), (PASSEREN, sem, 0, 0)]
        @ replicate (unat (s_reg st r_a2)) (WAITIO, PRNTINT, l, 0) @ [(VERHOGEN, sem, 0, 0)]
    \<and> (\<forall>j < unat (s_reg st r_a2). let t = snd (tr ! (2 + j)) in
        mem t (d_data0 (DEV_REG_ADDR PRNTINT l)) = scast (bytes s (s_reg st r_a1 + of_nat j))
      \<and> mem t (d_command (DEV_REG_ADDR PRNTINT l)) = 2 \<and> status_reg (cpu t) AND IECON = 0)"
proof -
  have "\<exists>tr s'. run (supWriteToPrinter s) h 0 =
      (tr, Exited (LDST (set_reg r_v0 (s_reg st r_a2) st)) s')
    \<and> map fst tr = [(GETSUPPORTPTR, 0, 0, 0), (PASSEREN, sem, 0, 0)]
        @ replicate (unat (s_reg st r_a2)) (WAITIO, PRNTINT, l, 0) @ [(VERHOGEN, sem, 0, 0)]
    \<and> (\<forall>j < unat (s_reg st r_a2). \<exists>t. snd (tr ! (2 + j)) = print_char l (user_string st s ! j) t)"
    unfolding supWriteToPrinter_def
    by (rule write_string_ok) (use assms kept_print_char in \<open>simp_all add: sem_of_def\<close>)
  moreover have "status_reg (cpu (print_char l c t)) AND IECON = 0"
    "mem (print_char l c t) (d_data0 (DEV_REG_ADDR PRNTINT l)) = scast c"
    "mem (print_char l c t) (d_command (DEV_REG_ADDR PRNTINT l)) = 2" for c t
    by (simp_all add: print_char_def Let_def disable_interrupts_def word_bw_assocs)
  ultimately show ?thesis by (fastforce simp: Let_def user_string_def)
qed

lemma replicate_3: "replicate 3 x = [x, x, x]"
  by (simp add: numeral_3_eq_3)

lemma good_example: "good_string (user_state 0x80001000 3 0)"
  by (simp add: good_string_def bad_string_def)

theorem supWriteToPrinter_prints_witness:
  "\<exists>tr s'. run (supWriteToPrinter (user_process (user_state 0x80001000 3 0))) (alone 0 (\<lambda>_. 1)) 0 =
      (tr, Exited (LDST (set_reg r_v0 3 (user_state 0x80001000 3 0))) s')
    \<and> map fst tr = [(GETSUPPORTPTR, 0, 0, 0), (PASSEREN, 0x20009010, 0, 0), (WAITIO, 6, 0, 0),
        (WAITIO, 6, 0, 0), (WAITIO, 6, 0, 0), (VERHOGEN, 0x20009010, 0, 0)]"
  using supWriteToPrinter_prints [of 0 "alone 0 (\<lambda>_. 1)" "user_process (user_state 0x80001000 3 0)"
      "user_state 0x80001000 3 0" 0 "0x20009010"] alone_cooperative [of 0 "\<lambda>_. 1"] good_example
  by (auto simp: zero_link_def alone_def replicate_3)

text \<open>C14: System call 12 transmits the user's string: as for the printer, with the terminal's write
  lock, the character and the transmit command in the transmitter's command register, and 5
  (character transmitted) as the status of success.\<close>

theorem supWriteToTerminal_transmits:
  assumes "cooperative k h" and "addressed k s"
    and "sup_exceptState (sups s k) 1 = st" and "good_string st"
    and l: "l = sup_asid (sups s k) - 1" and "sem = termWriteSem (link s) + 4 * l"
    and "accepted h (WAITIO, TERMINT, l, 1) 5 (unat (s_reg st r_a2))"
  shows "\<exists>tr s'. run (supWriteToTerminal s) h 0 =
      (tr, Exited (LDST (set_reg r_v0 (s_reg st r_a2) st)) s')
    \<and> map fst tr = [(GETSUPPORTPTR, 0, 0, 0), (PASSEREN, sem, 0, 0)]
        @ replicate (unat (s_reg st r_a2)) (WAITIO, TERMINT, l, 1) @ [(VERHOGEN, sem, 0, 0)]
    \<and> (\<forall>j < unat (s_reg st r_a2). let t = snd (tr ! (2 + j)) in
        mem t (t_transm_command (DEV_REG_ADDR TERMINT l)) =
          push_bit 8 (scast (bytes s (s_reg st r_a1 + of_nat j))) OR 2
      \<and> status_reg (cpu t) AND IECON = 0)"
proof -
  have "\<exists>tr s'. run (supWriteToTerminal s) h 0 =
      (tr, Exited (LDST (set_reg r_v0 (s_reg st r_a2) st)) s')
    \<and> map fst tr = [(GETSUPPORTPTR, 0, 0, 0), (PASSEREN, sem, 0, 0)]
        @ replicate (unat (s_reg st r_a2)) (WAITIO, TERMINT, l, 1) @ [(VERHOGEN, sem, 0, 0)]
    \<and> (\<forall>j < unat (s_reg st r_a2). \<exists>t. snd (tr ! (2 + j)) = send_char l (user_string st s ! j) t)"
    unfolding supWriteToTerminal_def
    by (rule write_string_ok) (use assms kept_send_char in \<open>simp_all add: sem_of_def\<close>)
  moreover have "status_reg (cpu (send_char l c t)) AND IECON = 0"
    "mem (send_char l c t) (t_transm_command (DEV_REG_ADDR TERMINT l)) = push_bit 8 (scast c) OR 2" for c t
    by (simp_all add: send_char_def Let_def disable_interrupts_def word_bw_assocs)
  ultimately show ?thesis by (fastforce simp: Let_def user_string_def)
qed

theorem supWriteToTerminal_transmits_witness:
  "\<exists>tr s'. run (supWriteToTerminal (user_process (user_state 0x80001000 3 0))) (alone 0 (\<lambda>_. 5)) 0 =
      (tr, Exited (LDST (set_reg r_v0 3 (user_state 0x80001000 3 0))) s')
    \<and> map fst tr = [(GETSUPPORTPTR, 0, 0, 0), (PASSEREN, 0x20009050, 0, 0), (WAITIO, 7, 0, 1),
        (WAITIO, 7, 0, 1), (WAITIO, 7, 0, 1), (VERHOGEN, 0x20009050, 0, 0)]"
  using supWriteToTerminal_transmits [of 0 "alone 0 (\<lambda>_. 5)" "user_process (user_state 0x80001000 3 0)"
      "user_state 0x80001000 3 0" 0 "0x20009050"] alone_cooperative [of 0 "\<lambda>_. 5"] good_example
  by (auto simp: zero_link_def alone_def replicate_3)

text \<open>C12: System call 13 reads a line: under every environment in which the receiver delivers the
  characters of a line (up to a newline, or 128 characters), the run locks the terminal, asks for
  one character after the other until the line is complete and no further, stores exactly these
  characters at the user's address and nothing else in user memory, unlocks the terminal, and
  resumes the user with the length of the line in \<open>v0\<close>.\<close>

theorem supReadTerminal_reads:
  assumes h: "cooperative k h" and ad: "addressed k s"
    and st: "sup_exceptState (sups s k) 1 = st" and a: "a = s_reg st r_a1" "KUSEG \<le> a" "unat a + n \<le> 2 ^ 32"
    and l: "l = sup_asid (sups s k) - 1" and sem: "sem = termReadSem (link s) + 4 * l"
    and line: "is_line status n"
    and answers: "\<And>j t. j < n \<Longrightarrow> fst (h (2 + j) (WAITIO, TERMINT, l, 1) t) = status j"
  shows "\<exists>tr s'. run (supReadTerminal s) h 0 = (tr, Exited (LDST (set_reg r_v0 (of_nat n) st)) s')
    \<and> map fst tr = [(GETSUPPORTPTR, 0, 0, 0), (PASSEREN, sem, 0, 0)]
        @ replicate n (WAITIO, TERMINT, l, 1) @ [(VERHOGEN, sem, 0, 0)]
    \<and> (\<forall>j<n. bytes s' (a + of_nat j) = received (status j))
    \<and> (\<forall>x. KUSEG \<le> x \<and> (\<forall>j<n. x \<noteq> a + of_nat j) \<longrightarrow> bytes s' x = bytes s x)"
proof -
  obtain s1 where s1: "kept k s s1" "\<And>f :: nat \<Rightarrow> sstate \<Rightarrow> unit act. run (abind (get_support s) f) h 0 =
        (case run (f k s1) h (Suc 0) of (tr, res) \<Rightarrow> (((GETSUPPORTPTR, 0, 0, 0), s) # tr, res))"
    using run_get_support [OF h ad, of 0] by blast
  note K = keptD [OF s1(1)]
  obtain v s2 where h2: "h (Suc 0) (PASSEREN, sem, 0, 0) s1 = (v, s2)" by fastforce
  have k2: "kept k s s2" by (rule kept_trans [OF s1(1) cooperativeD(1) [OF h h2]])
  have n: "0 < n" "n \<le> 128" using line by (auto simp: is_line_def)
  let ?buf = "map (\<lambda>j. received (status j)) [0..<n]"
  obtain tr s3 where loop: "run (read_chars k l sem [] s2) h 2 = (tr, Returned ?buf s3)"
    "map fst tr = replicate n (WAITIO, TERMINT, l, 1)" "kept k s2 s3"
    using read_chars_run [OF h line, of "[]" 0 2 l sem s2] answers n(1) by auto
  let ?s = "write_user a ?buf s3"
  have "sup_exceptState (sups ?s k) 1 = st" using keptD(4) [OF kept_trans [OF k2 loop(3)]] st by simp
  then obtain s4 where fin: "run (device_done k sem (of_nat n) ?s) h (2 + n) =
      ([((VERHOGEN, sem, 0, 0), ?s)], Exited (LDST (set_reg r_v0 (of_nat n) st)) s4)"
    "\<forall>x. KUSEG \<le> x \<longrightarrow> bytes s4 x = bytes ?s x"
    using run_device_done [OF h] by blast
  have "length tr = n" using loop(2) by (metis length_map length_replicate)
  then have "run (supReadTerminal s) h 0 = (((GETSUPPORTPTR, 0, 0, 0), s) # ((PASSEREN, sem, 0, 0), s1)
      # tr @ [((VERHOGEN, sem, 0, 0), ?s)], Exited (LDST (set_reg r_v0 (of_nat n) st)) s4)"
    unfolding supReadTerminal_def s1(2) using loop(1) fin(1) K st a(1,2) l sem h2
    by (simp add: terminate_if_def Let_def sem_of_def run_abind after_cons
        not_less [symmetric] numeral_2_eq_2)
  moreover have "bytes s4 (a + of_nat j) = received (status j)" if "j < n" for j
    using fin(2) user_range [OF a(2,3) that] write_user_inside [of ?buf j a s3] n(2) that by simp
  moreover have "bytes s4 x = bytes s x" if "KUSEG \<le> x" "\<forall>j<n. x \<noteq> a + of_nat j" for x
    using fin(2) write_user_outside [of ?buf x a s3] that keptD(5) [OF kept_trans [OF k2 loop(3)]] by simp
  ultimately show ?thesis using loop(2) by auto
qed

theorem supReadTerminal_reads_witness:
  "\<exists>tr s'. run (supReadTerminal (user_process (user_state 0x80001000 0 0))) (alone 0 (\<lambda>_. 0x0A05)) 0 =
      (tr, Exited (LDST (set_reg r_v0 1 (user_state 0x80001000 0 0))) s')
    \<and> map fst tr = [(GETSUPPORTPTR, 0, 0, 0), (PASSEREN, 0x20009030, 0, 0), (WAITIO, 7, 0, 1),
        (VERHOGEN, 0x20009030, 0, 0)]
    \<and> bytes s' 0x80001000 = 10"
proof -
  have "is_line (\<lambda>_. 0x0A05) 1" by (simp add: is_line_def received_def)
  then show ?thesis
    using supReadTerminal_reads [of 0 "alone 0 (\<lambda>_. 0x0A05)" "user_process (user_state 0x80001000 0 0)"
        "user_state 0x80001000 0 0" "0x80001000" 1 0 "0x20009030" "\<lambda>_. 0x0A05"]
      alone_cooperative [of 0 "\<lambda>_. 0x0A05"]
    by (auto simp: zero_link_def alone_def received_def)
qed

text \<open>When the device refuses the \<open>m\<close>-th character of a string, no further character is sent,
  the device's lock is released all the same, and the user gets the negated device status in
  \<open>v0\<close>, for the printer and for the terminal.\<close>

theorem write_refused:
  assumes "cooperative k h" and "addressed k s"
    and "sup_exceptState (sups s k) 1 = st" and "good_string st"
    and "l = sup_asid (sups s k) - 1" and "m < unat (s_reg st r_a2)"
    and "(prog, r, ok, sem) \<in>
      {(supWriteToPrinter, (WAITIO, PRNTINT, l, 0), 1, printerSem (link s) + 4 * l),
       (supWriteToTerminal, (WAITIO, TERMINT, l, 1), 5, termWriteSem (link s) + 4 * l)}"
    and "accepted h r ok m"
    and "\<And>t. fst (h (2 + m) r t) = status" and "status AND STATUS_MASK \<noteq> ok"
  shows "\<exists>tr s'. run (prog s) h 0 = (tr, Exited (LDST (set_reg r_v0 (- status) st)) s')
    \<and> map fst tr = [(GETSUPPORTPTR, 0, 0, 0), (PASSEREN, sem, 0, 0)]
        @ replicate (Suc m) r @ [(VERHOGEN, sem, 0, 0)]"
  using assms(7)
proof (elim insertE emptyE)
  assume "(prog, r, ok, sem) = (supWriteToPrinter, (WAITIO, PRNTINT, l, 0), 1, printerSem (link s) + 4 * l)"
  then show ?thesis
    using write_string_error [where base = printerSem and issue = print_char and m = m and ok = 1
        and req = "\<lambda>l. (WAITIO, PRNTINT, l, 0)" and status = status, OF assms(1-5) refl _ kept_print_char]
      assms(6,8-10) by (simp add: supWriteToPrinter_def sem_of_def)
next
  assume "(prog, r, ok, sem) = (supWriteToTerminal, (WAITIO, TERMINT, l, 1), 5, termWriteSem (link s) + 4 * l)"
  then show ?thesis
    using write_string_error [where base = termWriteSem and issue = send_char and m = m and ok = 5
        and req = "\<lambda>l. (WAITIO, TERMINT, l, 1)" and status = status, OF assms(1-5) refl _ kept_send_char]
      assms(6,8-10) by (simp add: supWriteToTerminal_def sem_of_def)
qed

theorem write_refused_witness:
  "\<exists>tr s'. run (supWriteToPrinter (user_process (user_state 0x80001000 3 0))) (alone 0 (\<lambda>_. 4)) 0 =
      (tr, Exited (LDST (set_reg r_v0 (- 4) (user_state 0x80001000 3 0))) s')
    \<and> map fst tr = [(GETSUPPORTPTR, 0, 0, 0), (PASSEREN, 0x20009010, 0, 0), (WAITIO, 6, 0, 0),
        (VERHOGEN, 0x20009010, 0, 0)]"
  using write_refused [of 0 "alone 0 (\<lambda>_. 4)" "user_process (user_state 0x80001000 3 0)"
      "user_state 0x80001000 3 0" 0 0 supWriteToPrinter "(WAITIO, 6, 0, 0)" 1 "0x20009010" 4]
      alone_cooperative [of 0 "\<lambda>_. 4"] good_example
  by (auto simp: zero_link_def alone_def)

end
