(* ===== verification/ServeSpec.thy ===== *)
theory ServeSpec
  imports TesterSpec StringSpec SysSpec
begin

text \<open>
  The kernel as the environment of a user program: the contract \<open>serving\<close>, on which the theorems of
  the test programs rest, is met by the exception handler of the nucleus followed by the general
  exception handler of the support level.
\<close>

section \<open>The kernel as an environment\<close>

text \<open>
  The processor state that the machine saves when the user program makes a request: its number and
  arguments are in the registers \<open>a0\<close> to \<open>a3\<close>, and the cause is a system call, or for the request 0 the
  cause \<open>tc\<close> of a program trap.
\<close>

definition called :: "u32 \<Rightarrow> sysreq \<Rightarrow> state_t \<Rightarrow> state_t" where
  "called tc r st = (case r of (n, a1, a2, a3) \<Rightarrow>
     set_reg r_a0 n (set_reg r_a1 a1 (set_reg r_a2 a2 (set_reg r_a3 a3
       (st\<lparr>s_cause := if n = 0 then tc else 32\<rparr>)))))"

text \<open>
  \<open>K i\<close> is the machine at the \<open>i\<close>-th request but for user memory, which the program has computed, and
  the saved state; \<open>H i\<close> is what the nucleus answers to the support level while it serves the request.
  The program goes on when the handlers resume it with \<open>LDST\<close>, with \<open>v0\<close> as the value of the call.
\<close>

definition raised :: "u32 \<Rightarrow> sstate \<Rightarrow> sysreq \<Rightarrow> sstate \<Rightarrow> sstate" where
  "raised tc u r s = u\<lparr>bytes := bytes s, bios := called tc r (bios u)\<rparr>"

definition served :: "u32 \<Rightarrow> (nat \<Rightarrow> sstate) \<Rightarrow> (nat \<Rightarrow> env) \<Rightarrow> uenv" where
  "served tc K H i r s = (case exceptionHandler (raised tc (K i) r s) of
     Exit e s1 \<Rightarrow> (case snd (run (supportGenExceptionHandler s1) (H i) 0) of
         Exited (LDST st) s2 \<Rightarrow> Some (s_reg st r_v0, s2)
       | _ \<Rightarrow> None)
   | _ \<Rightarrow> None)"

text \<open>The process \<open>c\<close> runs in user mode, with the support structure \<open>k\<close>.\<close>

definition user_running :: "nat \<Rightarrow> nat \<Rightarrow> sstate \<Rightarrow> bool" where
  "user_running c k s \<longleftrightarrow> currentProcess s = Some c \<and> p_supportStruct (pcbTable s c) = Some k
     \<and> s_status (bios s) AND KUPBITON \<noteq> 0 \<and> addressed k s"

text \<open>The devices of line \<open>l\<close> accept every character.\<close>

definition accepting :: "u32 \<Rightarrow> env \<Rightarrow> bool" where
  "accepting l h \<longleftrightarrow> (\<forall>j < MAX_LEN. \<forall>t. fst (h (3 + j) (WAITIO, PRNTINT, l, 0) t) AND STATUS_MASK = 1
     \<and> fst (h (3 + j) (WAITIO, TERMINT, l, 1) t) AND STATUS_MASK = 5)"

section \<open>Requests that are refused\<close>

lemma raised_user:
  assumes "user_running c k u"
  shows "currentProcess (raised tc u r s) = Some c" "p_supportStruct (pcbTable (raised tc u r s) c) = Some k"
    "s_status (bios (raised tc u r s)) AND KUPBITON \<noteq> 0" "addressed k (raised tc u r s)"
  using assms by (auto simp: raised_def user_running_def called_def addressed_def set_reg_def split: prod.split)

lemma raised_regs:
  "s_reg (bios (raised tc u (n, a1, a2, a3) s)) r_a0 = n" "s_reg (bios (raised tc u (n, a1, a2, a3) s)) r_a1 = a1"
  "s_reg (bios (raised tc u (n, a1, a2, a3) s)) r_a2 = a2" "s_reg (bios (raised tc u (n, a1, a2, a3) s)) r_a3 = a3"
  "s_cause (bios (raised tc u (n, a1, a2, a3) s)) = (if n = 0 then tc else 32)"
  by (simp_all add: raised_def called_def set_reg_def)

lemma served_refused:
  assumes u: "user_running c k (K i)" and h: "cooperative k (H i)" and n: "n \<noteq> 0"
    and r: "refused (bios (raised tc (K i) (n, a1, a2, a3) s))"
  shows "served tc K H i (n, a1, a2, a3) s = None"
proof -
  let ?s = "raised tc (K i) (n, a1, a2, a3) s"
  note U = raised_user [OF u, of tc "(n, a1, a2, a3)" s]
  have "exceptionCode (s_cause (bios ?s)) = 8" using n by (simp add: raised_regs exceptionCode_def)
  from refused_calls [OF h U(4) this U(3,1,2) r refl refl] show ?thesis by (auto simp: served_def)
qed

text \<open>A request 0: a program trap.\<close>

lemma served_trap:
  assumes u: "user_running c k (K i)" and h: "cooperative k (H i)"
    and tc: "exceptionCode tc \<in> {4, 5, 6, 7, 9, 10, 11, 12}"
  shows "served tc K H i (0, a1, a2, a3) s = None"
proof -
  let ?s = "raised tc (K i) (0, a1, a2, a3) s" and ?st = "bios (raised tc (K i) (0, a1, a2, a3) s)"
  let ?s1 = "passed_up k GENERALEXCEPT ?st ?s"
  note U = raised_user [OF u, of tc "(0, a1, a2, a3)" s]
  have "exceptionHandler ?s = passUpOrDie GENERALEXCEPT (?s\<lparr>bios := ?st\<rparr>)"
    using tc by (auto simp: exceptionHandler_def raised_regs programTrapHandler_def Let_def)
  then have e: "\<exists>e. exceptionHandler ?s = Exit e ?s1" using passUpOrDie_user [OF U(1,2) refl] by metis
  have "addressed k ?s1" "current_support ?s1 = Some k" "sup_exceptState (sups ?s1 k) 1 = ?st"
    using U by (simp_all add: passed_up_def addressed_def current_support_def rd_def)
  moreover from this have "exceptionCode (s_cause (sup_exceptState (sups ?s1 k) GENERALEXCEPT)) \<in> {4, 5, 6, 7, 9, 10, 11, 12}"
    using tc by (simp add: raised_regs)
  ultimately obtain tr t where "run (supportGenExceptionHandler ?s1) (H i) 0 = (tr, Terminated t)"
    using program_trap [OF h] by blast
  then show ?thesis using e by (auto simp: served_def)
qed

section \<open>Requests to write\<close>

lemma run_shift: "run t h (i + n) = run t (\<lambda>j. h (i + j)) n"
proof (induction t arbitrary: n)
  case (Syscall r s k)
  have "run (k v s') h (Suc (i + n)) = run (k v s') (\<lambda>j. h (i + j)) (Suc n)" for v s'
    using Syscall [of v s' "Suc n"] by simp
  then show ?case by (simp split: prod.split)
qed simp_all

lemma cooperative_shift: "cooperative k h \<Longrightarrow> cooperative k (\<lambda>j. h (i + j))"
  by (simp add: cooperative_def)

text \<open>The support level, from the general exception handler on.\<close>

lemma general_write:
  assumes h: "cooperative k h" and ad: "addressed k s"
    and st: "sup_exceptState (sups s k) 1 = st" "exceptionCode (s_cause st) = 8"
    and n: "s_reg st r_a0 \<in> {WRITEPRINTER, WRITETERMINAL}" "good_string st"
    and ok: "accepting (sup_asid (sups s k) - 1) h"
  shows "\<exists>tr st' s'. run (supportGenExceptionHandler s) h 0 = (tr, Exited (LDST st') s')
    \<and> s_reg st' r_v0 = s_reg st r_a2 \<and> umem s' = umem s"
proof -
  obtain s1 where s1: "kept k s s1" "\<And>f :: nat \<Rightarrow> sstate \<Rightarrow> unit act. run (abind (get_support s) f) h 0 =
      (case run (f k s1) h (Suc 0) of (tr, res) \<Rightarrow> (((GETSUPPORTPTR, 0, 0, 0), s) # tr, res))"
    using run_get_support [OF h ad, of 0] by blast
  note K = keptD [OF s1(1)]
  let ?s = "advanced k s1" and ?st = "st\<lparr>s_pc := s_pc st + 4\<rparr>" and ?h = "\<lambda>j. h (1 + j)"
  let ?l = "sup_asid (sups s k) - 1" and ?n = "unat (s_reg st r_a2)"
  have st1: "sup_exceptState (sups s1 k) 1 = st" using K(4) st(1) by simp
  have ad': "addressed k ?s" using ad K(1) by (simp add: addressed_def)
  have st': "sup_exceptState (sups ?s k) 1 = ?st" using st1 by simp
  have l: "?l = sup_asid (sups ?s k) - 1" using K(3) by (simp add: advanced_def store_state_def)
  have good: "good_string ?st" using n(2) by (simp add: good_string_def)
  have len: "?n \<le> MAX_LEN" using n(2) not_bad_string(3) by (auto simp: good_string_def)
  have h': "cooperative k ?h" by (rule cooperative_shift [OF h])
  have b: "bytes ?s x = bytes s x" if "KUSEG \<le> x" for x
    using K(5) [OF that] by (simp add: advanced_def store_state_def)
  have "\<exists>tr s'. run (if s_reg st r_a0 = WRITEPRINTER then supWriteToPrinter ?s else supWriteToTerminal ?s) ?h 0 =
      (tr, Exited (LDST (set_reg r_v0 (s_reg ?st r_a2) ?st)) s') \<and> (\<forall>x. KUSEG \<le> x \<longrightarrow> bytes s' x = bytes ?s x)"
  proof (cases "s_reg st r_a0 = WRITEPRINTER")
    case True
    have "accepted ?h (WAITIO, PRNTINT, ?l, 0) 1 (unat (s_reg ?st r_a2))"
      using ok len by (auto simp: accepting_def numeral_3_eq_3)
    from write_string_serves [where req = "\<lambda>l. (WAITIO, PRNTINT, l, 0)" and issue = print_char and base = printerSem,
        OF h' ad' st' good l refl _ kept_print_char this]
    show ?thesis using True by (auto simp: supWriteToPrinter_def)
  next
    case False
    have "accepted ?h (WAITIO, TERMINT, ?l, 1) 5 (unat (s_reg ?st r_a2))"
      using ok len by (auto simp: accepting_def numeral_3_eq_3)
    from write_string_serves [where req = "\<lambda>l. (WAITIO, TERMINT, l, 1)" and issue = send_char and base = termWriteSem,
        OF h' ad' st' good l refl _ kept_send_char this]
    show ?thesis using False by (auto simp: supWriteToTerminal_def)
  qed
  then obtain tr s' where w: "run (if s_reg st r_a0 = WRITEPRINTER then supWriteToPrinter ?s else supWriteToTerminal ?s) h (1 + 0) =
      (tr, Exited (LDST (set_reg r_v0 (s_reg st r_a2) ?st)) s')" "\<forall>x. KUSEG \<le> x \<longrightarrow> bytes s' x = bytes ?s x"
    unfolding run_shift by auto
  have "supportSyscallHandler (SupState k GENERALEXCEPT) s1 =
      (if s_reg st r_a0 = WRITEPRINTER then supWriteToPrinter ?s else supWriteToTerminal ?s)"
    using n(1) st1 by (auto simp: supportSyscallHandler_def Let_def advanced_def store_state_def)
  then have "run (supportGenExceptionHandler s) h 0 =
      (((GETSUPPORTPTR, 0, 0, 0), s) # tr, Exited (LDST (set_reg r_v0 (s_reg st r_a2) ?st)) s')"
    using w(1) st1 st(2) unfolding supportGenExceptionHandler_def s1(2) by (simp add: Let_def)
  moreover have "umem s' = umem s" using w(2) b by (auto simp: umem_def)
  ultimately show ?thesis by auto
qed

lemma served_write:
  assumes u: "user_running c k (K i)" and h: "cooperative k (H i)" "accepting (sup_asid (sups (K i) k) - 1) (H i)"
    and n: "\<not> quiet n" and ok: "\<not> bad_string a1 a2" "unat a1 + unat a2 \<le> 2 ^ 32"
  shows "\<exists>s'. served tc K H i (n, a1, a2, a3) s = Some (a2, s') \<and> umem s' = umem s"
proof -
  let ?s = "raised tc (K i) (n, a1, a2, a3) s"
  let ?s1 = "passed_up k GENERALEXCEPT (bios ?s) ?s"
  note U = raised_user [OF u, of tc "(n, a1, a2, a3)" s]
  have n': "n \<in> {WRITEPRINTER, WRITETERMINAL}" "n \<noteq> 0" "9 \<le> sint n" using n by (auto simp: quiet_def)
  have code: "exceptionCode (s_cause (bios ?s)) = 8" using n'(2) by (simp add: raised_regs exceptionCode_def)
  have e: "\<exists>e. exceptionHandler ?s = Exit e ?s1"
    using user_syscall_passed_up [OF code U(3,1,2) refl refl] n'(3) by (auto simp: raised_regs)
  have "addressed k ?s1" "sup_exceptState (sups ?s1 k) 1 = bios ?s" "sup_asid (sups ?s1 k) = sup_asid (sups (K i) k)"
    "umem ?s1 = umem s"
    using U by (simp_all add: passed_up_def addressed_def raised_def umem_def fun_eq_iff)
  moreover have "good_string (bios ?s)" using ok by (simp add: good_string_def raised_regs)
  ultimately obtain tr st' s' where "run (supportGenExceptionHandler ?s1) (H i) 0 = (tr, Exited (LDST st') s')"
    "s_reg st' r_v0 = a2" "umem s' = umem s"
    using general_write [OF h(1) _ _ code, of ?s1] n'(1) h(2) by (auto simp: raised_regs)
  then show ?thesis using e by (auto simp: served_def)
qed

lemma kernel_serving:
  assumes "\<forall>i. user_running c k (K i) \<and> cooperative k (H i) \<and> accepting (sup_asid (sups (K i) k) - 1) (H i)"
    and "exceptionCode tc \<in> {4, 5, 6, 7, 9, 10, 11, 12}"
  shows "serving (served tc K H)"
  unfolding serving_def
proof (intro allI conjI impI)
  fix i n a1 a2 a3 s
  assume n: "\<not> quiet n \<and> \<not> bad_string a1 a2 \<and> unat a1 + unat a2 \<le> 2 ^ 32"
  then have "0 \<le> sint a2" by (auto simp: bad_string_def)
  then show "\<exists>v s'. served tc K H i (n, a1, a2, a3) s = Some (v, s') \<and> 0 \<le> sint v \<and> umem s' = umem s"
    using served_write [of c k K i H n a1 a2 tc a3 s] assms(1) n by blast
next
  fix i n a1 a2 a3 s
  assume n: "n \<notin> {10..18 :: u32}"
  then have "refused (bios (raised tc (K i) (n, a1, a2, a3) s))"
    by (auto simp: refused_def raised_regs Let_def)
  then show "served tc K H i (n, a1, a2, a3) s = None"
    using served_refused [of c k K i H n] served_trap [of c k K i H tc] assms by (cases "n = 0") auto
qed

text \<open>A process that runs on a machine whose devices accept everything.\<close>

definition example_user :: sstate where
  "example_user = (user_process zero_state)\<lparr>bios := zero_state\<lparr>s_status := 8\<rparr>\<rparr>"

definition example_kernel :: uenv where
  "example_kernel = served 40 (\<lambda>_. example_user) (\<lambda>_. alone 0 (\<lambda>l. if l = TERMINT then 5 else 1))"

lemma example_ready:
  "user_running 0 0 example_user" "accepting 0 (alone 0 (\<lambda>l. if l = TERMINT then 5 else 1))"
  "sup_asid (sups example_user 0) - 1 = 0" "exceptionCode 40 = 10"
  by (simp_all add: user_running_def example_user_def user_process_def zero_sstate_def zero_link_def
      addressed_def accepting_def alone_def exceptionCode_def)

lemma example_serving: "serving example_kernel"
  unfolding example_kernel_def
  by (rule kernel_serving [where c = 0 and k = 0]) (simp_all add: example_ready alone_cooperative)

section \<open>Properties\<close>



end
