(* ===== verification/UserMemory.thy ===== *)
theory UserMemory
  imports ServeSpec
begin

text \<open>
  The memory of a user program: arrays, the lines read into them, and the loops of the test programs that
  copy, reverse, parse and print characters.
\<close>

section \<open>Blocks of user memory\<close>

definition block :: "u32 \<Rightarrow> nat \<Rightarrow> u32 set" where
  "block a n = {x. unat (x - a) < n}"

definition overlay :: "u32 \<Rightarrow> 8 word list \<Rightarrow> (u32 \<Rightarrow> 8 word) \<Rightarrow> u32 \<Rightarrow> 8 word" where
  "overlay a cs m x = (if x \<in> block a (length cs) then cs ! unat (x - a) else m x)"

lemma in_block: "j < n \<Longrightarrow> n \<le> 2 ^ 32 \<Longrightarrow> a + of_nat j \<in> block a n"
  by (simp add: block_def unat_of_nat_small)

lemma block_iff: "x \<in> block a n \<longleftrightarrow> (\<exists>j<n. j < 2 ^ 32 \<and> x = a + of_nat j)"
proof
  assume "x \<in> block a n"
  then have "unat (x - a) < n" "x = a + of_nat (unat (x - a))" by (simp_all add: block_def)
  moreover have "unat (x - a) < 2 ^ 32" using unsigned_less [of "x - a"] by simp
  ultimately show "\<exists>j<n. j < 2 ^ 32 \<and> x = a + of_nat j" by metis
qed (auto simp: block_def unat_of_nat_small)

lemma block_sub: "k + i \<le> n \<Longrightarrow> n \<le> 2 ^ 32 \<Longrightarrow> block (a + of_nat k) i \<subseteq> block a n"
proof
  fix x assume k: "k + i \<le> n" "n \<le> 2 ^ 32" and "x \<in> block (a + of_nat k) i"
  then obtain j where j: "j < i" "x = a + of_nat k + of_nat j" by (auto simp: block_iff)
  then have "x = a + of_nat (k + j)" by (simp add: add.assoc)
  then show "x \<in> block a n" using j(1) k by (simp only:) (rule in_block, simp_all)
qed

lemma overlay_in: "j < length cs \<Longrightarrow> length cs \<le> 2 ^ 32 \<Longrightarrow> overlay a cs m (a + of_nat j) = cs ! j"
  by (simp add: overlay_def in_block unat_of_nat_small)

lemma overlay_out: "x \<notin> block a (length cs) \<Longrightarrow> overlay a cs m x = m x"
  by (simp add: overlay_def)

lemma overlay_snoc:
  assumes "length cs < 2 ^ 32"
  shows "(overlay a cs m)(a + of_nat (length cs) := c) = overlay a (cs @ [c]) m"
proof
  fix x
  have u: "unat (of_nat (length cs) :: u32) = length cs" using assms by (rule unat_of_nat_small)
  show "((overlay a cs m)(a + of_nat (length cs) := c)) x = overlay a (cs @ [c]) m x"
  proof (cases "x = a + of_nat (length cs)")
    case True
    then show ?thesis using u by (simp add: overlay_def block_def)
  next
    case False
    then have "unat (x - a) \<noteq> length cs" by (metis add.commute diff_add_cancel of_nat_unat ucast_id)
    then show ?thesis using False by (auto simp: overlay_def block_def nth_append)
  qed
qed

lemma overlay_nil [simp]: "overlay a [] m = m"
  by (simp add: overlay_def block_def fun_eq_iff)

text \<open>User memory after a store and after a write of the kernel.\<close>

definition in_kuseg :: "u32 \<Rightarrow> nat \<Rightarrow> bool" where
  "in_kuseg a n \<longleftrightarrow> KUSEG \<le> a \<and> unat a + n < 2 ^ 32"

lemma in_kuseg_add: "in_kuseg a n \<Longrightarrow> j \<le> n \<Longrightarrow> KUSEG \<le> a + of_nat j"
  by (auto simp: in_kuseg_def intro: kuseg_add)

lemma umem_store: "KUSEG \<le> x \<Longrightarrow> umem (s\<lparr>bytes := (bytes s)(x := c)\<rparr>) = (umem s)(x := c)"
  by (simp add: umem_def fun_eq_iff)

lemma umem_write_user:
  assumes "in_kuseg a (length cs)"
  shows "umem (write_user a cs s) = overlay a cs (umem s)"
  using assms
proof (induction cs rule: rev_induct)
  case (snoc c cs)
  have "write_user a (cs @ [c]) t = (write_user a cs t)\<lparr>bytes := (bytes (write_user a cs t))(a + of_nat (length cs) := c)\<rparr>"
    for a and t :: sstate
    by (induction cs arbitrary: a t) (simp_all add: add.assoc add.commute)
  moreover have "KUSEG \<le> a + of_nat (length cs)" by (rule in_kuseg_add [OF snoc.prems]) simp
  moreover have "in_kuseg a (length cs)" "length cs < 2 ^ 32" using snoc.prems by (simp_all add: in_kuseg_def)
  ultimately show ?case using snoc.IH by (simp add: umem_store overlay_snoc)
qed simp

lemma set_char_umem:
  assumes "in_kuseg a n" and "i < n"
  shows "\<exists>s'. set_char a n (of_nat i) c s = Some s' \<and> umem s' = (umem s)(a + of_nat i := c)"
proof -
  have "unat (of_nat i :: u32) = i" using assms by (intro unat_of_nat_small) (simp add: in_kuseg_def)
  moreover have "KUSEG \<le> a + of_nat i" using assms by (intro in_kuseg_add) auto
  ultimately show ?thesis using assms(2) by (simp add: set_char_def umem_store)
qed

lemma get_char_umem:
  assumes "in_kuseg a n" and "i < n"
  shows "get_char a n (of_nat i) s = Some (umem s (a + of_nat i))"
proof -
  have "unat (of_nat i :: u32) = i" using assms by (intro unat_of_nat_small) (simp add: in_kuseg_def)
  moreover have "KUSEG \<le> a + of_nat i" using assms by (intro in_kuseg_add) auto
  ultimately show ?thesis using assms(2) by (simp add: get_char_def umem_def)
qed

text \<open>Literals survive changes elsewhere.\<close>

definition clear_of :: "image \<Rightarrow> string set \<Rightarrow> u32 set \<Rightarrow> bool" where
  "clear_of im T X \<longleftrightarrow> (\<forall>t \<in> T. block (lit im t) (length t + 1) \<inter> X = {})"

lemma loaded_change:
  assumes "loaded im m T" and "clear_of im T X" and "\<And>x. x \<notin> X \<Longrightarrow> m' x = m x"
  shows "loaded im m' T"
proof -
  have "m' (lit im t + of_nat j) = m (lit im t + of_nat j)" if "t \<in> T" "j \<le> length t" for t j
  proof -
    have "lit im t + of_nat j \<in> block (lit im t) (length t + 1)"
      using that assms(1) by (intro in_block) (auto simp: loaded_def)
    then show ?thesis using assms(2) that(1) by (intro assms(3)) (auto simp: clear_of_def)
  qed
  then show ?thesis using assms(1) by (auto simp: loaded_def text_at_def codes_def)
qed

lemma overlay_append:
  "length (xs @ ys) \<le> 2 ^ 32 \<Longrightarrow> overlay (a + of_nat (length xs)) ys (overlay a xs m) = overlay a (xs @ ys) m"
proof (induction ys rule: rev_induct)
  case (snoc y ys)
  then have "overlay (a + of_nat (length xs)) (ys @ [y]) (overlay a xs m)
      = (overlay a (xs @ ys) m)(a + of_nat (length (xs @ ys)) := y)"
    by (simp add: overlay_snoc [symmetric] add.assoc)
  then show ?case using overlay_snoc [of "xs @ ys" a m y] snoc.prems by simp
qed simp

text \<open>The arrays of a program: in user memory, apart from its literals and from each other.\<close>

definition arrays :: "image \<Rightarrow> string set \<Rightarrow> (u32 \<times> nat) list \<Rightarrow> bool" where
  "arrays im T bs \<longleftrightarrow> (\<forall>(a, n) \<in> set bs. in_kuseg a n \<and> clear_of im T (block a n))
     \<and> sorted_wrt (\<lambda>(a, n) (b, k). block a n \<inter> block b k = {}) bs"

lemma block_mono: "n \<le> k \<Longrightarrow> block a n \<subseteq> block a k"
  by (auto simp: block_def)

lemma loaded_overlay:
  assumes "loaded im m T" and "clear_of im T (block a n)" and "length cs \<le> n"
  shows "loaded im (overlay a cs m) T"
  by (rule loaded_change [OF assms(1,2)]) (use block_mono [OF assms(3)] in \<open>auto intro: overlay_out\<close>)

text \<open>What an array holds: its first \<open>i\<close> characters.\<close>

definition chars_at :: "(u32 \<Rightarrow> 8 word) \<Rightarrow> u32 \<Rightarrow> nat \<Rightarrow> 8 word list" where
  "chars_at m a i = map (\<lambda>j. m (a + of_nat j)) [0..<i]"

lemma length_chars_at [simp]: "length (chars_at m a i) = i"
  by (simp add: chars_at_def)

lemma chars_at_nth: "chars_at m a i = cs \<Longrightarrow> j < i \<Longrightarrow> m (a + of_nat j) = cs ! j"
  by (auto simp: chars_at_def)

lemma chars_at_overlay: "i \<le> length cs \<Longrightarrow> length cs \<le> 2 ^ 32 \<Longrightarrow> chars_at (overlay a cs m) a i = take i cs"
  by (intro nth_equalityI) (simp_all add: chars_at_def overlay_in)

lemma chars_at_apart:
  assumes "block a n \<inter> block b k = {}" and "length cs \<le> n" and "i \<le> k" and "k \<le> 2 ^ 32"
  shows "chars_at (overlay a cs m) b i = chars_at m b i"
proof -
  have "b + of_nat j \<in> block b k" if "j < i" for j using that assms(3,4) by (intro in_block) auto
  then show ?thesis
    using assms(1) block_mono [OF assms(2), of a] unfolding chars_at_def
    by (intro map_cong refl overlay_out) auto
qed

lemma text_at_overlay:
  assumes "in_kuseg a n" and "length cs < n" and "0 \<notin> set cs"
  shows "text_at (overlay a (cs @ [0]) m) a cs"
proof -
  have n: "n < 2 ^ 32" "unat a + length cs < 2 ^ 32" "KUSEG \<le> a" using assms by (auto simp: in_kuseg_def)
  have "overlay a (cs @ [0]) m (a + of_nat j) = (cs @ [0]) ! j" if "j \<le> length cs" for j
    using that n assms(2) by (intro overlay_in) auto
  then show ?thesis using n assms(3) by (simp add: text_at_def nth_append)
qed

section \<open>Reading lines\<close>

text \<open>The line the user types at the terminal when the program reads into \<open>a\<close>.\<close>

definition types_in :: "uenv \<Rightarrow> u32 \<Rightarrow> 8 word list \<Rightarrow> bool" where
  "types_in h a cs \<longleftrightarrow> (\<forall>i s. \<exists>s'. h i (READTERMINAL, a, 0, 0) s = Some (of_nat (length cs), s')
     \<and> umem s' = umem (write_user a cs s))"

lemma read_line_goes:
  assumes "types_in h a cs" and "in_kuseg a (length cs)"
  shows "goes h (read_line a s) [] (\<lambda>v s'. v = of_nat (length cs) \<and> umem s' = overlay a cs (umem s))"
  unfolding read_line_def
proof (rule goes_call)
  fix i
  obtain s' where "h i (READTERMINAL, a, 0, 0) s = Some (of_nat (length cs), s')"
    "umem s' = umem (write_user a cs s)" using assms(1) unfolding types_in_def by blast
  then show "\<exists>v s'. h i (READTERMINAL, a, 0, 0) s = Some (v, s')
      \<and> v = of_nat (length cs) \<and> umem s' = overlay a cs (umem s)"
    by (simp add: umem_write_user [OF assms(2)])
qed (simp add: quiet_def)

section \<open>Loops over characters\<close>

text \<open>A line read into an array, which a character \<open>EOS\<close> then ends.\<close>

lemma line_dies:
  assumes "types_in h a cs" and "in_kuseg a n" and "length cs \<le> n" and "ix (of_nat (length cs)) = of_nat i" "i < n"
    and k: "\<And>s'. umem s' = (overlay a cs (umem s))(a + of_nat i := 0) \<Longrightarrow> dies h (k (of_nat (length cs)) s') out"
  shows "dies h (abind (read_line a s) (\<lambda>v s. when_some (set_char a n (ix v) 0 s) (k v))) out"
proof -
  have "in_kuseg a (length cs)" using assms(2,3) by (auto simp: in_kuseg_def)
  note read = read_line_goes [OF assms(1) this, of s]
  have "dies h (when_some (set_char a n (ix v) 0 s1) (k v)) out"
    if "v = of_nat (length cs) \<and> umem s1 = overlay a cs (umem s)" for v s1
  proof -
    obtain s2 where "set_char a n (of_nat i) 0 s1 = Some s2" "umem s2 = (umem s1)(a + of_nat i := 0)"
      using set_char_umem [OF assms(2,5), of 0 s1] by blast
    then show ?thesis using that assms(4) k [of s2] by simp
  qed
  from dies_abind [OF read this] show ?thesis by simp
qed

lemma below_of_nat: "n < 2 ^ 31 \<Longrightarrow> below (of_nat n) = map of_nat [0..<n]"
  by (simp add: below_def sint_small unat_of_nat_small)

lemma for_each_append: "for_each f (xs @ ys) s = for_each f xs s \<bind> for_each f ys"
  by (induction xs arbitrary: s) (simp_all add: bind_assoc split: bind_split)

lemma copy_run:
  assumes "in_kuseg to n" "off + i \<le> n" and "in_kuseg from k" "i \<le> k"
    and apart: "block to n \<inter> block from k = {}"
  shows "\<exists>s'. for_each (\<lambda>j s. do { c \<leftarrow> get_char from k j s; set_char to n (of_nat off + j) c s })
      (map of_nat [0..<i]) s = Some s'
    \<and> umem s' = overlay (to + of_nat off) (chars_at (umem s) from i) (umem s)"
  using assms(2,4)
proof (induction i)
  case (Suc i)
  let ?f = "\<lambda>j s. do { c \<leftarrow> get_char from k j s; set_char to n (of_nat off + j) c s }"
  obtain s1 where s1: "for_each ?f (map of_nat [0..<i]) s = Some s1"
    "umem s1 = overlay (to + of_nat off) (chars_at (umem s) from i) (umem s)"
    using Suc by auto
  have n: "n < 2 ^ 32" "k < 2 ^ 32" using assms(1,3) by (simp_all add: in_kuseg_def)
  have "from + of_nat i \<in> block from k" using Suc.prems(2) n by (intro in_block) auto
  moreover have "block (to + of_nat off) i \<subseteq> block to n" using Suc.prems(1) n by (intro block_sub) auto
  ultimately have c: "umem s1 (from + of_nat i) = umem s (from + of_nat i)"
    using apart unfolding s1(2) by (intro overlay_out) auto
  have "get_char from k (of_nat i) s1 = Some (umem s (from + of_nat i))"
    using get_char_umem [OF assms(3), of i s1] Suc.prems(2) c by simp
  moreover obtain s2 where "set_char to n (of_nat (off + i)) (umem s (from + of_nat i)) s1 = Some s2"
    "umem s2 = (umem s1)(to + of_nat (off + i) := umem s (from + of_nat i))"
    using set_char_umem [OF assms(1), of "off + i"] Suc.prems(1) by auto
  moreover have "(overlay (to + of_nat off) cs m)(to + of_nat off + of_nat i := c) = overlay (to + of_nat off) (cs @ [c]) m"
    if "length cs = i" for cs m c
    using overlay_snoc [of cs "to + of_nat off" m c] that Suc.prems(1) n by simp
  ultimately show ?case
    using s1 by (simp add: for_each_append chars_at_def add.assoc)
qed (simp add: chars_at_def)

lemma copy_chars_run:
  assumes "in_kuseg to n" "off + i \<le> n" "in_kuseg from k" "i \<le> k" "block to n \<inter> block from k = {}" "i < 2 ^ 31"
  shows "\<exists>s'. copy_chars to n (of_nat off) from k (of_nat i) s = Some s'
    \<and> umem s' = overlay (to + of_nat off) (chars_at (umem s) from i) (umem s)"
  unfolding copy_chars_def below_of_nat [OF assms(6)] by (rule copy_run [OF assms(1-5)])

section \<open>Decimal numbers\<close>

text \<open>The value of a line of digits, and the digits of a number.\<close>

definition digit :: "8 word \<Rightarrow> bool" where
  "digit c \<longleftrightarrow> 48 \<le> unat c \<and> unat c < 58"

definition value_from :: "nat \<Rightarrow> 8 word list \<Rightarrow> nat" where
  "value_from = foldl (\<lambda>v c. v * 10 + (unat c - 48))"

fun decimal :: "nat \<Rightarrow> 8 word list" where
  "decimal v = (if v < 10 then [of_nat (v + 48)] else decimal (v div 10) @ [of_nat (v mod 10 + 48)])"

declare decimal.simps [simp del]

lemma value_from_bound: "\<forall>c \<in> set ds. digit c \<Longrightarrow> value_from v ds < (v + 1) * 10 ^ length ds"
proof (induction ds arbitrary: v)
  case (Cons c ds)
  have "value_from (v * 10 + (unat c - 48)) ds < (v * 10 + (unat c - 48) + 1) * 10 ^ length ds"
    using Cons by simp
  also have "\<dots> \<le> (v + 1) * 10 * 10 ^ length ds"
    using Cons.prems by (intro mult_right_mono) (auto simp: digit_def)
  finally show ?case by (simp add: value_from_def algebra_simps)
qed (simp add: value_from_def)

lemma decimal_length: "v < 10 ^ n \<Longrightarrow> 0 < n \<Longrightarrow> length (decimal v) \<le> n"
proof (induction v arbitrary: n rule: decimal.induct)
  case (1 v)
  show ?case
  proof (cases "v < 10")
    case False
    then obtain m where m: "n = Suc m" "0 < m" using 1(2,3) by (cases n; cases "n - 1") auto
    then have "length (decimal (v div 10)) \<le> m" using 1(1) [OF False, of m] 1(2) by (simp add: less_mult_imp_div_less)
    then show ?thesis using False m by (simp add: decimal.simps [of v])
  qed (use 1 in \<open>simp add: decimal.simps [of v]\<close>)
qed

lemma decimal_not_empty: "decimal v \<noteq> []"
  by (simp add: decimal.simps [of v])

lemma digit_char: "v < 10 \<Longrightarrow> digit (of_nat (v + 48))"
proof -
  assume "v < 10"
  then have "unat (of_nat (v + 48) :: 8 word) = v + 48" by (intro of_nat_inverse) auto
  then show ?thesis using \<open>v < 10\<close> by (simp add: digit_def)
qed

lemma decimal_digits: "c \<in> set (decimal v) \<Longrightarrow> digit c"
proof (induction v rule: decimal.induct)
  case (1 v)
  then show ?case
    using digit_char [of v] digit_char [of "v mod 10"] by (auto simp: decimal.simps [of v] split: if_splits)
qed

lemma zero_no_digit: "\<forall>c \<in> set ds. digit c \<Longrightarrow> 0 \<notin> set ds"
  by (auto simp: digit_def)

lemma digit_value: "digit c \<Longrightarrow> (scast c - 48 :: u32) = of_nat (unat c - 48)"
proof -
  assume d: "digit c"
  have "int (unat c) < int (2 ^ 7)" by (rule iffD2 [OF of_nat_less_iff]) (use d in \<open>simp add: digit_def\<close>)
  then have "uint c < 2 ^ 7" by simp
  then have "signed_take_bit 7 (uint c) = uint c"
    using uint_ge_0 [of c] by (intro signed_take_bit_int_eq_self) linarith+
  then have "sint c = int (unat c)" unfolding sint_uint by simp
  then have "(scast c :: u32) = of_nat (unat c)" by (metis of_int_of_nat_eq of_int_sint)
  then show ?thesis using d by (simp add: digit_def)
qed

text \<open>Reading a number.\<close>

lemma parse_num_run:
  assumes k: "in_kuseg a n" and len: "length ds < n" and dig: "\<forall>c \<in> set ds. digit c"
    and ch: "chars_at (umem s) a (Suc (length ds)) = ds @ [0]"
  shows "i \<le> length ds \<Longrightarrow> parse_num a n s i (of_nat v) = Some (of_nat (value_from v (drop i ds)))"
proof (induction "length ds - i" arbitrary: i v)
  case 0
  then have "umem s (a + of_nat i) = 0" "i = length ds" using chars_at_nth [OF ch, of "length ds"] by (auto simp: nth_append)
  moreover have "KUSEG \<le> a + of_nat i" using 0 len by (intro in_kuseg_add [OF k]) simp
  ultimately show ?case using len by (simp add: parse_num.simps [of a n s "length ds"] value_from_def umem_def)
next
  case (Suc d)
  then have i: "i < length ds" by simp
  have "KUSEG \<le> a + of_nat i" using i len by (intro in_kuseg_add [OF k]) simp
  then have b: "bytes s (a + of_nat i) = ds ! i" using chars_at_nth [OF ch, of i] i by (simp add: umem_def nth_append)
  have c: "digit (ds ! i)" using dig i by simp
  have e: "of_nat v * 10 + (scast (ds ! i) - 48) = (of_nat (v * 10 + (unat (ds ! i) - 48)) :: u32)"
    by (simp add: digit_value [OF c])
  have "parse_num a n s (Suc i) (of_nat (v * 10 + (unat (ds ! i) - 48)))
      = Some (of_nat (value_from (v * 10 + (unat (ds ! i) - 48)) (drop (Suc i) ds)))"
    using Suc by (intro Suc.hyps(1)) auto
  moreover have "ds ! i \<noteq> 0" using c by (auto simp: digit_def)
  ultimately show ?case
    using i len b e by (simp add: parse_num.simps [of a n s i] value_from_def Cons_nth_drop_Suc [symmetric] Let_def)
qed

text \<open>Writing its digits, the last one first.\<close>

lemma put_digits_run:
  assumes k: "in_kuseg a n"
  shows "v < 2 ^ 31 \<Longrightarrow> i + length (decimal v) \<le> n \<Longrightarrow> \<exists>s'. put_digits a n i (of_nat v) s = Some (i + length (decimal v), s')
    \<and> umem s' = overlay (a + of_nat i) (rev (decimal v)) (umem s)"
proof (induction v arbitrary: i s rule: decimal.induct)
  case (1 v)
  have v: "sint (of_nat v :: u32) = int v" using 1(2) by (simp add: sint_small unat_of_nat_small)
  let ?c = "of_nat (v mod 10 + 48) :: 8 word"
  let ?s = "s\<lparr>bytes := (bytes s)(a + of_nat i := ?c)\<rparr>"
  have i: "i < n" using 1(3) decimal_not_empty [of v] by (cases "decimal v") auto
  have step: "put_digits a n i (of_nat v) s =
      (if 0 < v div 10 then put_digits a n (Suc i) (of_nat (v div 10)) ?s else Some (Suc i, ?s))"
  proof -
    have "int v smod 10 + 48 = int (v mod 10 + 48)" "int v sdiv 10 = int (v div 10)"
      by (cases "v = 0"; simp add: signed_modulo_int_def signed_divide_int_def zmod_int zdiv_int)+
    then have "word_of_int (int v smod 10 + 48) = ?c" "word_of_int (int v sdiv 10) = (of_nat (v div 10) :: u32)"
      by (simp_all only: of_int_of_nat_eq)
    moreover have "sint (of_nat (v div 10) :: u32) = int (v div 10)"
      using 1(2) by (simp add: sint_small unat_of_nat_small)
    ultimately show ?thesis using i by (simp add: put_digits.simps [of a n i "of_nat v"] v Let_def)
  qed
  have u: "umem ?s = overlay (a + of_nat i) [?c] (umem s)"
    using umem_store [OF in_kuseg_add [OF k, of i]] i overlay_snoc [of "[]" "a + of_nat i" "umem s" ?c] by simp
  show ?case
  proof (cases "v < 10")
    case True
    then show ?thesis using step u by (simp add: decimal.simps [of v])
  next
    case False
    then have len: "Suc i + length (decimal (v div 10)) \<le> n" using 1(3) by (simp add: decimal.simps [of v])
    obtain s' where s': "put_digits a n (Suc i) (of_nat (v div 10)) ?s = Some (Suc i + length (decimal (v div 10)), s')"
      "umem s' = overlay (a + of_nat (Suc i)) (rev (decimal (v div 10))) (umem ?s)"
        using 1(1) [OF False le_less_trans [OF div_le_dividend 1(2)] len, of ?s] by blast
    have "umem s' = overlay (a + of_nat i) ([?c] @ rev (decimal (v div 10))) (umem s)"
      using s'(2) u overlay_append [of "[?c]" "rev (decimal (v div 10))" "a + of_nat i" "umem s"] len k
      by (simp add: in_kuseg_def ac_simps)
    moreover have "0 < v div 10" using False by (simp add: div_greater_zero_iff)
    ultimately show ?thesis using step s'(1) False by (simp add: decimal.simps [of v])
  qed
qed

text \<open>The loop that reverses the first \<open>k\<close> elements, after \<open>i\<close> rounds.\<close>

definition swapped :: "8 word list \<Rightarrow> nat \<Rightarrow> 8 word list" where
  "swapped cs i = map (\<lambda>j. if j < i \<or> length cs - i \<le> j then rev cs ! j else cs ! j) [0..<length cs]"

lemma length_swapped [simp]: "length (swapped cs i) = length cs"
  by (simp add: swapped_def)

lemma swapped_0: "swapped cs 0 = cs"
  by (rule nth_equalityI) (simp_all add: swapped_def)

lemma swapped_half: "swapped cs (length cs div 2) = rev cs"
proof (rule nth_equalityI)
  fix j assume "j < length (swapped cs (length cs div 2))"
  moreover have "cs ! j = rev cs ! j" if "j < length cs" "\<not> j < length cs div 2" "\<not> length cs - length cs div 2 \<le> j"
  proof -
    have "length cs - Suc j = j" using that by linarith
    then show ?thesis using that(1) by (simp add: rev_nth)
  qed
  ultimately show "swapped cs (length cs div 2) ! j = rev cs ! j" by (simp add: swapped_def)
qed simp

lemma swapped_Suc:
  assumes "i < length cs div 2"
  shows "swapped cs (Suc i) = (swapped cs i)[i := cs ! (length cs - i - 1), length cs - i - 1 := cs ! i]"
proof (rule nth_equalityI)
  let ?k = "length cs"
  fix j assume "j < length (swapped cs (Suc i))"
  then have j: "j < ?k" by simp
  have i: "i < ?k" "?k - i - 1 < ?k" "i \<noteq> ?k - i - 1" using assms by linarith+
  consider "j = i" | "j = ?k - i - 1" | "j \<noteq> i" "j \<noteq> ?k - i - 1" by blast
  then show "swapped cs (Suc i) ! j = (swapped cs i)[i := cs ! (?k - i - 1), ?k - i - 1 := cs ! i] ! j"
  proof cases
    case 3
    then have "(j < Suc i \<or> ?k - Suc i \<le> j) = (j < i \<or> ?k - i \<le> j)" using i by linarith
    then show ?thesis using 3 j by (simp add: swapped_def)
  qed (use i in \<open>auto simp: swapped_def rev_nth\<close>)
qed simp

lemma overlay_update:
  assumes "j < length cs" and "length cs \<le> 2 ^ 32"
  shows "(overlay a cs m)(a + of_nat j := c) = overlay a (cs[j := c]) m"
proof
  fix x
  have u: "unat (of_nat j :: u32) = j" using assms by (intro unat_of_nat_small) simp
  show "((overlay a cs m)(a + of_nat j := c)) x = overlay a (cs[j := c]) m x"
  proof (cases "x = a + of_nat j")
    case True
    then show ?thesis using assms u by (simp add: overlay_def block_def)
  next
    case False
    then have "unat (x - a) \<noteq> j" by (metis add.commute diff_add_cancel of_nat_unat ucast_id)
    then show ?thesis using False by (simp add: overlay_def)
  qed
qed

lemma reverse_run:
  assumes k: "in_kuseg a n" and len: "length cs < n"
  shows "i \<le> length cs div 2 \<Longrightarrow> umem s = overlay a (cs @ [0]) m \<Longrightarrow>
    \<exists>s'. for_each (swap_chars a n (length cs)) [0..<i] s = Some s' \<and> umem s' = overlay a (swapped cs i @ [0]) m"
proof (induction i)
  case (Suc i)
  let ?k = "length cs"
  obtain l where l: "length cs - i - 1 = l" by simp
  then have l': "length cs - Suc i = l" by simp
  obtain s1 where s1: "for_each (swap_chars a n ?k) [0..<i] s = Some s1" "umem s1 = overlay a (swapped cs i @ [0]) m"
    using Suc by auto
  have n: "n < 2 ^ 32" using k by (simp add: in_kuseg_def)
  have i: "i < ?k" "l < ?k" "i \<noteq> l" "i < n" "l < n" using Suc.prems(1) len l by linarith+
  have rd: "umem s1 (a + of_nat j) = cs ! j" if "i \<le> j" "j \<le> l" for j
  proof -
    have "j < ?k" "\<not> j < i" "\<not> ?k - i \<le> j" using that i l by linarith+
    then show ?thesis using len n by (simp add: s1(2) overlay_in nth_append swapped_def)
  qed
  have le: "i \<le> l" using Suc.prems(1) l by linarith
  obtain s2 where s2: "set_char a n (of_nat i) (cs ! l) s1 = Some s2" "umem s2 = (umem s1)(a + of_nat i := cs ! l)"
    using set_char_umem [OF k i(4)] by blast
  obtain s3 where s3: "set_char a n (of_nat l) (cs ! i) s2 = Some s3" "umem s3 = (umem s2)(a + of_nat l := cs ! i)"
    using set_char_umem [OF k i(5)] by blast
  have "swap_chars a n ?k i s1 = Some s3"
    using get_char_umem [OF k i(4), of s1] get_char_umem [OF k i(5), of s1] rd [of i] rd [of l] le s2 s3
    by (simp add: swap_chars_def l')
  moreover have "umem s3 = overlay a (swapped cs (Suc i) @ [0]) m"
    using s2 s3 s1 len n i Suc.prems(1)
    by (simp add: overlay_update swapped_Suc l' list_update_append del: fun_upd_apply)
  ultimately show ?case using s1 by (simp add: for_each_append)
qed (simp add: swapped_0)

section \<open>Examples\<close>

text \<open>A kernel that serves every request to write, and a user who types \<open>line a\<close> for the array at \<open>a\<close>.\<close>

definition typist :: "(u32 \<Rightarrow> 8 word list) \<Rightarrow> uenv" where
  "typist line i r s = (if fst r = READTERMINAL
     then Some (of_nat (length (line (fst (snd r)))), write_user (fst (snd r)) (line (fst (snd r))) s)
     else obliging i r s)"

lemma typist: "serving (typist line)" "types_in (typist line) a (line a)"
  using obliging by (auto simp: serving_def typist_def quiet_def types_in_def)

lemma block_apart:
  assumes "unat a + n \<le> unat b" and "unat b + k \<le> 2 ^ 32"
  shows "block a n \<inter> block b k = {}"
proof -
  have no: False if "j < n" "i < k" "a + of_nat j = b + of_nat i" for i j
  proof -
    have "unat (a + of_nat j) = unat a + j" "unat (b + of_nat i) = unat b + i"
      using assms that(1,2) by (simp_all add: unat_of_nat_small unat_add_lem [THEN iffD1])
    then show False using assms(1) that by simp
  qed
  then show ?thesis by (auto simp: block_iff) metis
qed

lemma demo_addresses:
  "slot ts t \<le> 1000 \<Longrightarrow> unat (lit (demo ts bs) t) = 0x80001000 + 256 * slot ts t"
  "slot bs b \<le> 1000 \<Longrightarrow> unat (loc (demo ts bs) b) = 0x80100000 + 4096 * slot bs b"
proof -
  show "unat (lit (demo ts bs) t) = 0x80001000 + 256 * slot ts t" if "slot ts t \<le> 1000"
  proof -
    have "lit (demo ts bs) t = of_nat (0x80001000 + 256 * slot ts t)" by (simp add: demo_def)
    then show ?thesis using that by (simp only:) (rule unat_of_nat_small, simp)
  qed
  show "unat (loc (demo ts bs) b) = 0x80100000 + 4096 * slot bs b" if "slot bs b \<le> 1000"
  proof -
    have "loc (demo ts bs) b = of_nat (0x80100000 + 4096 * slot bs b)" by (simp add: demo_def)
    then show ?thesis using that by (simp only:) (rule unat_of_nat_small, simp)
  qed
qed

lemma demo_arrays:
  assumes "\<forall>t \<in> set ts. length t \<le> MAX_LEN" "length ts \<le> 1000"
    and "\<forall>(b, n) \<in> set bn. n \<le> 4096 \<and> slot bs b \<le> 1000" "sorted_wrt (\<lambda>(b, n) (c, k). slot bs b < slot bs c) bn"
  shows "arrays (demo ts bs) (set ts) (map (\<lambda>(b, n). (loc (demo ts bs) b, n)) bn)"
proof -
  let ?loc = "loc (demo ts bs)"
  have one: "in_kuseg (?loc b) n" "clear_of (demo ts bs) (set ts) (block (?loc b) n)" if "(b, n) \<in> set bn" for b n
  proof -
    have b: "n \<le> 4096" "slot bs b \<le> 1000" using assms(3) that by auto
    then show "in_kuseg (?loc b) n" by (simp add: in_kuseg_def demo_addresses(2) word_le_nat_alt)
    have "block (lit (demo ts bs) t) (length t + 1) \<inter> block (?loc b) n = {}" if t: "t \<in> set ts" for t
    proof (rule block_apart)
      have "slot ts t \<le> 1000" "length t \<le> 128" using slot_nth [OF t] assms(1,2) t by auto
      then show "unat (lit (demo ts bs) t) + (length t + 1) \<le> unat (?loc b)"
        using b by (simp add: demo_addresses)
    qed (use b in \<open>simp add: demo_addresses\<close>)
    then show "clear_of (demo ts bs) (set ts) (block (?loc b) n)" by (simp add: clear_of_def)
  qed
  have two: "block (?loc b) n \<inter> block (?loc c) k = {}"
    if "slot bs b < slot bs c" "(b, n) \<in> set bn" "(c, k) \<in> set bn" for b n c k
  proof (rule block_apart)
    have "n \<le> 4096" "slot bs b \<le> 1000" "k \<le> 4096" "slot bs c \<le> 1000" using that assms(3) by auto
    then show "unat (?loc b) + n \<le> unat (?loc c)" "unat (?loc c) + k \<le> 2 ^ 32"
      using that(1) by (simp_all add: demo_addresses)
  qed
  have "sorted_wrt (\<lambda>(b, n) (c, k). block (?loc b) n \<inter> block (?loc c) k = {}) bn"
    by (rule sorted_wrt_mono_rel [OF _ assms(4)]) (use two in blast)
  then show ?thesis using one by (auto simp: arrays_def sorted_wrt_map split_beta')
qed

definition demo_state :: "string list \<Rightarrow> sstate" where
  "demo_state ts = zero_sstate\<lparr>bytes := demo_bytes ts\<rparr>"

lemma demo_state_loaded:
  "\<forall>t \<in> set ts. t \<noteq> [] \<and> length t \<le> MAX_LEN \<and> CHR 0x00 \<notin> set t \<Longrightarrow> length ts \<le> 1000 \<Longrightarrow>
    loaded (demo ts bs) (umem (demo_state ts)) (set ts)"
  by (rule demo_loaded) (simp_all add: demo_state_def)

end
