(* ===== verification/TesterProps.thy ===== *)
theory TesterProps
  imports UserMemory
begin

text \<open>
  What the user programs do: the Fibonacci programs and the fixed texts, the concatenation of two
  strings, the adder, and the picture printer that overflows its buffer.
\<close>

section \<open>Programs that print a result\<close>

text \<open>The end of a program that prints what it computed into the array \<open>a\<close>.\<close>

lemma result_dies:
  assumes "serving h" and "loaded im (umem s) T" and "t \<in> T"
    and "text_at (umem s) a cs" "0 < length cs" "length cs \<le> MAX_LEN"
  shows "dies h (seq [print im WRITETERMINAL a, say im WRITETERMINAL t, call TERMINATE 0 0 0] s)
    [(WRITETERMINAL, cs), (WRITETERMINAL, codes t)]"
proof -
  have g: "goes h (print im WRITETERMINAL a s) [(WRITETERMINAL, cs)] (\<lambda>_ s'. umem s' = umem s)"
    by (rule print_goes [OF assms(1,4-6)]) (simp add: quiet_def)
  have "dies h (seq (map (\<lambda>(d, t). say im d t) [(WRITETERMINAL, t)] @ [call TERMINATE 0 0 0]) s')
      (map (\<lambda>(d, t). (d, codes t)) [(WRITETERMINAL, t)])" if "umem s' = umem s" for s'
    using assms(2,3) that by (intro says_dies [OF assms(1), where T = T]) (simp_all add: quiet_def)
  then have "dies h (seq [say im WRITETERMINAL t, call TERMINATE 0 0 0] s') [(WRITETERMINAL, codes t)]"
    if "umem s' = umem s" for s' using that by (simp del: seq.simps)
  from dies_seq [where p = "print im WRITETERMINAL a", OF g this] show ?thesis by simp
qed

lemma shown_dies:
  assumes h: "serving h" and l: "loaded im (umem s) T" and t: "t0 \<in> T" "t \<in> T"
    and cs: "text_at (umem s) a cs" "0 < length cs" "length cs \<le> MAX_LEN"
  shows "dies h (seq [say im WRITETERMINAL t0, print im WRITETERMINAL a, say im WRITETERMINAL t, call TERMINATE 0 0 0] s)
    [(WRITETERMINAL, codes t0), (WRITETERMINAL, cs), (WRITETERMINAL, codes t)]"
  unfolding seq.simps(2) [of "say im WRITETERMINAL t0"]
proof (rule say_dies [OF h l t(1)])
  fix u assume "umem u = umem s"
  then show "dies h (seq [print im WRITETERMINAL a, say im WRITETERMINAL t, call TERMINATE 0 0 0] u)
      [(WRITETERMINAL, cs), (WRITETERMINAL, codes t)]"
    using l cs by (intro result_dies [OF h _ t(2)]) simp_all
qed

text \<open>The texts before a line is read.\<close>

lemma two_says:
  assumes h: "serving h" and l: "loaded im (umem s) T" and "t1 \<in> T" "t2 \<in> T"
    and k: "\<And>s'. umem s' = umem s \<Longrightarrow> dies h (f s') out"
  shows "dies h (abind (seq [say im WRITETERMINAL t1, say im WRITETERMINAL t2] s) (\<lambda>_. f))
    ((WRITETERMINAL, codes t1) # (WRITETERMINAL, codes t2) # out)"
proof -
  have "goes h (seq (map (\<lambda>(d, t). say im d t) [(WRITETERMINAL, t1), (WRITETERMINAL, t2)]) s)
      (map (\<lambda>(d, t). (d, codes t)) [(WRITETERMINAL, t1), (WRITETERMINAL, t2)]) (\<lambda>_ s'. umem s' = umem s)"
    using l assms(3,4) by (intro says_goes [OF h, where T = T]) (simp_all add: quiet_def)
  from dies_abind [OF this, of "\<lambda>_. f", OF k] show ?thesis by (simp del: seq.simps)
qed

text \<open>Two lines in two arrays.\<close>

lemma two_arrays:
  assumes "block b1 n \<inter> block b2 n = {}" and "length xs \<le> n" "length ys \<le> n" and "n < 2 ^ 32"
    and "j \<le> length xs" "k \<le> length ys"
  shows "chars_at (overlay b2 ys (overlay b1 xs m)) b1 j = take j xs"
    and "chars_at (overlay b2 ys (overlay b1 xs m)) b2 k = take k ys"
  using chars_at_apart [of b2 n b1 n ys] chars_at_overlay [of j xs] chars_at_overlay [of k ys] assms
  by (simp_all add: Int_commute)

lemma number_bound:
  assumes "length d < 10" and "\<forall>c \<in> set d. digit c"
  shows "value_from 0 d < 10 ^ 9"
  using value_from_bound [OF assms(2), of 0] power_increasing [of "length d" 9 "10 :: nat"] assms(1) by simp

text \<open>The loops of \<open>strConcat\<close> and of \<open>haris\<close>.\<close>

lemma concat_run:
  assumes k: "in_kuseg b3 40" "in_kuseg b1 20" "in_kuseg b2 20"
    and ap: "block b1 20 \<inter> block b3 40 = {}" "block b2 20 \<inter> block b3 40 = {}"
    and c: "chars_at (umem u) b1 (length l1) = l1" "chars_at (umem u) b2 (length cs2) = cs2"
    and len: "length l1 < 20" "length cs2 < 20"
  shows "\<exists>s1 s2 s3. copy_chars b3 40 0 b1 20 (of_nat (length l1 + 1) - 1) u = Some s1
    \<and> copy_chars b3 40 (of_nat (length l1 + 1) - 1) b2 20 (of_nat (length cs2)) s1 = Some s2
    \<and> set_char b3 40 (of_nat (length l1 + 1) + of_nat (length cs2) - 1) 0 s2 = Some s3
    \<and> umem s3 = overlay b3 (l1 @ cs2 @ [0]) (umem u)"
proof -
  let ?M = "umem u"
  have c2: "chars_at (overlay b3 l1 ?M) b2 (length cs2) = cs2"
    using chars_at_apart [of b3 40 b2 20] ap(2) c(2) len by (simp add: Int_commute)
  obtain s1 where s1: "copy_chars b3 40 (of_nat 0) b1 20 (of_nat (length l1)) u = Some s1" "umem s1 = overlay b3 l1 ?M"
    using copy_chars_run [OF k(1) _ k(2), of 0 "length l1" u] ap(1) len c(1) by (auto simp: Int_commute)
  obtain s2 where s2: "copy_chars b3 40 (of_nat (length l1)) b2 20 (of_nat (length cs2)) s1 = Some s2"
    "umem s2 = overlay (b3 + of_nat (length l1)) cs2 (overlay b3 l1 ?M)"
    using copy_chars_run [OF k(1) _ k(3), of "length l1" "length cs2" s1] ap(2) len c2 s1 by (auto simp: Int_commute)
  obtain s3 where s3: "set_char b3 40 (of_nat (length l1 + length cs2)) 0 s2 = Some s3"
    "umem s3 = (umem s2)(b3 + of_nat (length l1 + length cs2) := 0)"
    using set_char_umem [OF k(1), of "length l1 + length cs2" 0 s2] len by auto
  have "umem s3 = overlay b3 (l1 @ cs2 @ [0]) ?M"
    using s2 s3 len overlay_append [of l1 cs2 b3 ?M] overlay_snoc [of "l1 @ cs2" b3 ?M 0] by simp
  then show ?thesis using s1 s2 s3 by (intro exI [of _ s1] exI [of _ s2] exI [of _ s3]) simp
qed

lemma sum_written:
  assumes k: "in_kuseg b 20" and v: "v < 2 ^ 31" and n: "length (decimal v) \<le> 10"
  shows "\<exists>s1 s2 s3. put_digits b 20 0 (of_nat v) u = Some (length (decimal v), s1)
    \<and> set_char b 20 (of_nat (length (decimal v))) 0 s1 = Some s2
    \<and> for_each (swap_chars b 20 (length (decimal v))) [0..<length (decimal v) div 2] s2 = Some s3
    \<and> umem s3 = overlay b (decimal v @ [0]) (umem u)"
proof -
  obtain s1 where s1: "put_digits b 20 0 (of_nat v) u = Some (length (decimal v), s1)"
    "umem s1 = overlay b (rev (decimal v)) (umem u)"
    using put_digits_run [OF k v, of 0 u] n by auto
  obtain s2 where s2: "set_char b 20 (of_nat (length (decimal v))) 0 s1 = Some s2"
    "umem s2 = overlay b (rev (decimal v) @ [0]) (umem u)"
    using set_char_umem [OF k, of "length (decimal v)" 0 s1] overlay_snoc [of "rev (decimal v)" b "umem u" 0] s1 n
    by auto
  obtain s3 where "for_each (swap_chars b 20 (length (decimal v))) [0..<length (decimal v) div 2] s2 = Some s3"
    "umem s3 = overlay b (decimal v @ [0]) (umem u)"
    using reverse_run [OF k, of "rev (decimal v)" "length (decimal v) div 2" s2 "umem u"]
      swapped_half [of "rev (decimal v)"] s2 n by auto
  then show ?thesis using s1 s2 by (intro exI [of _ s1] exI [of _ s2] exI [of _ s3]) simp
qed

section \<open>Properties\<close>

text \<open>C24: \<open>strConcat\<close> concatenates.  When the user types two lines (shorter than the arrays they are read
  into, as the program does not tell the kernel how long they are), the program stays within its
  arrays, prints the first line without its last character, the newline, followed by the second, and
  terminates.\<close>

theorem strConcat_concatenates:
  assumes h: "serving h" and T: "T = set [nl ''Strcat Test starts'', ''Enter a string: '', [NEWLINE],
      ''Enter another string: '', [NEWLINE, NEWLINE] @ nl ''Strcat concluded'']"
    and l: "loaded im (umem s) T"
    and arr: "arrays im T [(loc im ''buf'', 20), (loc im ''buf2'', 20), (loc im ''buf3'', 40)]"
    and t1: "types_in h (loc im ''buf'') (l1 @ [c])" and t2: "types_in h (loc im ''buf2'') cs2"
    and len: "length l1 < 19" "length cs2 < 20" "cs2 \<noteq> []" and nz: "0 \<notin> set l1" "0 \<notin> set cs2"
  shows "dies h (strConcat im s) [(WRITETERMINAL, codes (nl ''Strcat Test starts'')),
    (WRITETERMINAL, codes ''Enter a string: ''), (WRITETERMINAL, codes [NEWLINE]),
    (WRITETERMINAL, codes ''Enter another string: ''), (WRITETERMINAL, l1 @ cs2),
    (WRITETERMINAL, codes ([NEWLINE, NEWLINE] @ nl ''Strcat concluded''))]"
proof -
  let ?b1 = "loc im ''buf''" and ?b2 = "loc im ''buf2''" and ?b3 = "loc im ''buf3''"
  let ?M1 = "overlay ?b1 (l1 @ [c, 0]) (umem s)"
  let ?M2 = "overlay ?b2 (cs2 @ [0]) ?M1"
  let ?M3 = "overlay ?b3 (l1 @ cs2 @ [0]) ?M2"
  have k: "in_kuseg ?b1 20" "in_kuseg ?b2 20" "in_kuseg ?b3 40"
    and cl: "clear_of im T (block ?b1 20)" "clear_of im T (block ?b2 20)" "clear_of im T (block ?b3 40)"
    and ap: "block ?b1 20 \<inter> block ?b2 20 = {}" "block ?b1 20 \<inter> block ?b3 40 = {}" "block ?b2 20 \<inter> block ?b3 40 = {}"
    using arr by (simp_all add: arrays_def)
  have L1: "loaded im ?M1 T" by (rule loaded_overlay [OF l cl(1)]) (use len in simp)
  have L2: "loaded im ?M2 T" by (rule loaded_overlay [OF L1 cl(2)]) (use len in simp)
  have L3: "loaded im ?M3 T" by (rule loaded_overlay [OF L2 cl(3)]) (use len in simp)
  have tail: "dies h (seq [print im WRITETERMINAL ?b3, say im WRITETERMINAL ([NEWLINE, NEWLINE] @ nl ''Strcat concluded''),
      call TERMINATE 0 0 0] u) [(WRITETERMINAL, l1 @ cs2), (WRITETERMINAL, codes ([NEWLINE, NEWLINE] @ nl ''Strcat concluded''))]"
    if "umem u = ?M3" for u
    using that text_at_overlay [OF k(3), of "l1 @ cs2" ?M2] L3 T len nz by (intro result_dies [OF h, where T = T]) auto
  have c: "chars_at ?M2 ?b1 (length l1) = l1" "chars_at ?M2 ?b2 (length cs2) = cs2"
    using two_arrays [OF ap(1), of "l1 @ [c, 0]" "cs2 @ [0]" "length l1" "length cs2"] len by simp_all
  show ?thesis
    unfolding strConcat_def Let_def
  proof (rule two_says [OF h l], goal_cases)
    case (3 s1)
    show ?case
    proof (rule line_dies [OF t1 k(1), where i = "length l1 + 1"], goal_cases)
      case (4 s2)
      then have m2: "umem s2 = ?M1" using 3 overlay_snoc [of "l1 @ [c]" ?b1 "umem s" 0] len by simp
      show ?case
      proof (rule two_says [OF h L1 [folded m2]], goal_cases)
        case (3 s3)
        show ?case
        proof (rule line_dies [OF t2 k(2), where i = "length cs2"], goal_cases)
          case (4 s4)
          then have "umem s4 = ?M2" using 3 m2 overlay_snoc [of cs2 ?b2 ?M1 0] len by simp
          from concat_run [OF k(3,1,2) ap(2,3), of s4 l1 cs2] this c len tail show ?case by auto
        qed (use len in simp_all)
      qed (simp_all add: T)
    qed (use len in simp_all)
  qed (simp_all add: T)
qed

text \<open>C25: \<open>haris\<close> adds.  When the user types two numbers of at most nine digits, the program reads their
  values, prints the decimal digits of the sum, without overflow, and terminates.\<close>

theorem haris_adds:
  assumes h: "serving h" and T: "T = set [nl ''Adder Test Begins'', ''Enter first number: '',
      ''Enter second number: '', ''Sum is: '', [NEWLINE] @ nl ''Adder Test Completed'']"
    and l: "loaded im (umem s) T"
    and arr: "arrays im T [(loc im ''buf1'', 10), (loc im ''buf2'', 10), (loc im ''resultBuf'', 20)]"
    and t1: "types_in h (loc im ''buf1'') (d1 @ [c1])" and t2: "types_in h (loc im ''buf2'') (d2 @ [c2])"
    and len: "length d1 < 10" "length d2 < 10" and dig: "\<forall>c \<in> set (d1 @ d2). digit c"
  shows "dies h (haris im s) [(WRITETERMINAL, codes (nl ''Adder Test Begins'')),
    (WRITETERMINAL, codes ''Enter first number: ''), (WRITETERMINAL, codes ''Enter second number: ''),
    (WRITETERMINAL, codes ''Sum is: ''), (WRITETERMINAL, decimal (value_from 0 d1 + value_from 0 d2)),
    (WRITETERMINAL, codes ([NEWLINE] @ nl ''Adder Test Completed''))]"
proof -
  let ?b1 = "loc im ''buf1''" and ?b2 = "loc im ''buf2''" and ?b3 = "loc im ''resultBuf''"
  let ?v = "value_from 0 d1 + value_from 0 d2"
  let ?M1 = "overlay ?b1 (d1 @ [0]) (umem s)"
  let ?M2 = "overlay ?b2 (d2 @ [0]) ?M1"
  let ?M3 = "overlay ?b3 (decimal ?v @ [0]) ?M2"
  have k: "in_kuseg ?b1 10" "in_kuseg ?b2 10" "in_kuseg ?b3 20"
    and cl: "clear_of im T (block ?b1 10)" "clear_of im T (block ?b2 10)" "clear_of im T (block ?b3 20)"
    and ap: "block ?b1 10 \<inter> block ?b2 10 = {}"
    using arr by (simp_all add: arrays_def)
  have v: "?v < 2 ^ 31" "?v < 10 ^ 10" using number_bound [OF len(1)] number_bound [OF len(2)] dig by simp_all
  have n: "length (decimal ?v) \<le> 10" by (rule decimal_length [OF v(2)]) simp
  have L1: "loaded im ?M1 T" by (rule loaded_overlay [OF l cl(1)]) (use len in simp)
  have L2: "loaded im ?M2 T" by (rule loaded_overlay [OF L1 cl(2)]) (use len in simp)
  have L3: "loaded im ?M3 T" by (rule loaded_overlay [OF L2 cl(3)]) (use n in simp)
  have parse: "parse_num ?b1 10 u 0 0 = Some (of_nat (value_from 0 d1))"
    "parse_num ?b2 10 u 0 0 = Some (of_nat (value_from 0 d2))" if "umem u = ?M2" for u
    using that two_arrays [OF ap, of "d1 @ [0]" "d2 @ [0]" "Suc (length d1)" "Suc (length d2)"]
      parse_num_run [OF k(1), of d1 u 0 0] parse_num_run [OF k(2), of d2 u 0 0] len dig by simp_all
  have tail: "dies h (seq [say im WRITETERMINAL ''Sum is: '', print im WRITETERMINAL ?b3,
      say im WRITETERMINAL ([NEWLINE] @ nl ''Adder Test Completed''), call TERMINATE 0 0 0] u)
      [(WRITETERMINAL, codes ''Sum is: ''), (WRITETERMINAL, decimal ?v),
       (WRITETERMINAL, codes ([NEWLINE] @ nl ''Adder Test Completed''))]" if u: "umem u = ?M3" for u
    using L3 T n text_at_overlay [OF k(3), of "decimal ?v" ?M2] zero_no_digit [of "decimal ?v"] decimal_digits
      decimal_not_empty [of ?v] u by (intro shown_dies [OF h, where T = T]) auto
  show ?thesis
    unfolding haris_def Let_def
  proof (rule two_says [OF h l], goal_cases)
    case (3 s1)
    show ?case
    proof (rule line_dies [OF t1 k(1), where i = "length d1"], goal_cases)
      case (4 s2)
      then have m2: "umem s2 = ?M1" using 3 overlay_update [of "length d1" "d1 @ [c1]" ?b1 "umem s" 0] len by simp
      show ?case
      proof (rule say_dies [OF h L1 [folded m2]], goal_cases)
        case (2 s3)
        show ?case
        proof (rule line_dies [OF t2 k(2), where i = "length d2"], goal_cases)
          case (4 s4)
          then have "umem s4 = ?M2" using 2 m2 overlay_update [of "length d2" "d2 @ [c2]" ?b2 ?M1 0] len by simp
          from parse [OF this] sum_written [OF k(3) v(1) n, of s4] this tail show ?case by auto
        qed (use len in simp_all)
      qed (simp_all add: T)
    qed (use len in simp_all)
  qed (simp_all add: T)
qed

text \<open>C26: The five Fibonacci programs.  For a positive argument the recursive function \<open>fib\<close> computes the
  Fibonacci number, modulo the word size, and the numbers the five programs expect are right: each
  announces itself, reports success, and terminates.\<close>

theorem fib_programs_succeed:
  assumes "serving h" and "(prog, start) \<in> {(fibSeven, ''Recursive Fibanaci (7) Test starts''),
      (fibEight, ''Recursive Fibanaci (8) Test starts''), (fibNine, ''Recursive Fibanaci (9) Test starts''),
      (fibTen, ''Recursive Fibanaci (10) Test starts''), (fibEleven, ''Recursive Fibanaci (11) Test starts'')}"
    and "loaded im (umem s) {nl start, nl ''Recursion Concluded'', nl ''Recursion Concluded Successfully''}"
    and "0 < n" and "n < 2 ^ 32"
  shows "fib (of_nat n) = Some (of_nat (fibonacci n))
    \<and> dies h (prog im s) (map (\<lambda>t. (WRITETERMINAL, codes (nl t)))
        [start, ''Recursion Concluded'', ''Recursion Concluded Successfully''])"
proof -
  let ?T = "{nl start, nl ''Recursion Concluded'', nl ''Recursion Concluded Successfully''}"
  have nums: "fibonacci 7 = 13" "fibonacci 8 = 21" "fibonacci 9 = 34" "fibonacci 10 = 55" "fibonacci 11 = 89"
    by code_simp+
  have "dies h (fib_main start (of_nat m) (of_nat (fibonacci m)) im s) (map (\<lambda>t. (WRITETERMINAL, codes (nl t)))
        [start, ''Recursion Concluded'', ''Recursion Concluded Successfully''])" if "0 < m" "m < 2 ^ 32" for m
  proof -
    have one: "goes h (say im WRITETERMINAL (nl start) s) [(WRITETERMINAL, codes (nl start))]
        (\<lambda>_ s'. umem s' = umem s)"
      by (rule say_goes [OF assms(1,3)]) (simp_all add: quiet_def)
    have "dies h (seq (map (\<lambda>(d, t). say im d t) [(WRITETERMINAL, nl ''Recursion Concluded''),
          (WRITETERMINAL, nl ''Recursion Concluded Successfully'')] @ [call TERMINATE 0 0 0]) s1)
        (map (\<lambda>(d, t). (d, codes t)) [(WRITETERMINAL, nl ''Recursion Concluded''),
          (WRITETERMINAL, nl ''Recursion Concluded Successfully'')])" if "umem s1 = umem s" for s1
      using assms(3) that by (intro says_dies [OF assms(1), where T = ?T]) (simp_all add: quiet_def)
    then have "dies h (seq [say im WRITETERMINAL (nl ''Recursion Concluded''),
          say im WRITETERMINAL (nl ''Recursion Concluded Successfully''), call TERMINATE 0 0 0] s1)
        [(WRITETERMINAL, codes (nl ''Recursion Concluded'')),
         (WRITETERMINAL, codes (nl ''Recursion Concluded Successfully''))]" if "umem s1 = umem s" for s1
      using that by (simp del: seq.simps)
    from dies_abind [OF one this] show ?thesis
      using fib_fibonacci [OF that] by (simp add: fib_main_def del: seq.simps)
  qed
  from this [of 7] this [of 8] this [of 9] this [of 10] this [of 11]
  show ?thesis
    using assms(2) fib_fibonacci [OF assms(4,5)] nums
    by (auto simp: fibSeven_def fibEight_def fibNine_def fibTen_def fibEleven_def)
qed


section \<open>Witnesses\<close>

text \<open>The user types \<open>Hi\<close> and \<open>!\<close>.\<close>

theorem strConcat_concatenates_witness:
  "\<exists>im h s. dies h (strConcat im s) [(WRITETERMINAL, codes (nl ''Strcat Test starts'')),
    (WRITETERMINAL, codes ''Enter a string: ''), (WRITETERMINAL, codes [NEWLINE]),
    (WRITETERMINAL, codes ''Enter another string: ''), (WRITETERMINAL, [72, 105, 33, 10]),
    (WRITETERMINAL, codes ([NEWLINE, NEWLINE] @ nl ''Strcat concluded''))]"
proof -
  let ?ts = "[nl ''Strcat Test starts'', ''Enter a string: '', [NEWLINE], ''Enter another string: '',
    [NEWLINE, NEWLINE] @ nl ''Strcat concluded'']"
  let ?bs = "[''buf'', ''buf2'', ''buf3'']"
  let ?im = "demo ?ts ?bs"
  let ?line = "\<lambda>a. if a = 0x80100000 then [72, 105, 10] else [33, 10]"
  have arr: "arrays ?im (set ?ts) (map (\<lambda>(b, n). (loc ?im b, n)) [(''buf'', 20), (''buf2'', 20), (''buf3'', 40)])"
    by (rule demo_arrays) (simp_all add: nl_def slot_def)
  have l: "loaded ?im (umem (demo_state ?ts)) (set ?ts)"
    by (rule demo_state_loaded) (simp_all add: nl_def)
  have t: "types_in (typist ?line) (loc ?im ''buf'') ([72, 105] @ [10])" "types_in (typist ?line) (loc ?im ''buf2'') [33, 10]"
    using typist(2) [of ?line "loc ?im ''buf''"] typist(2) [of ?line "loc ?im ''buf2''"]
    by (simp_all add: demo_def slot_def)
  have "dies (typist ?line) (strConcat ?im (demo_state ?ts)) [(WRITETERMINAL, codes (nl ''Strcat Test starts'')),
    (WRITETERMINAL, codes ''Enter a string: ''), (WRITETERMINAL, codes [NEWLINE]),
    (WRITETERMINAL, codes ''Enter another string: ''), (WRITETERMINAL, [72, 105] @ [33, 10]),
    (WRITETERMINAL, codes ([NEWLINE, NEWLINE] @ nl ''Strcat concluded''))]"
    by (rule strConcat_concatenates [OF typist(1) refl l _ t]) (use arr in simp_all)
  then show ?thesis by auto
qed

text \<open>The user types 17 and 25.\<close>

theorem haris_adds_witness:
  "\<exists>im h s. dies h (haris im s) [(WRITETERMINAL, codes (nl ''Adder Test Begins'')),
    (WRITETERMINAL, codes ''Enter first number: ''), (WRITETERMINAL, codes ''Enter second number: ''),
    (WRITETERMINAL, codes ''Sum is: ''), (WRITETERMINAL, [52, 50]),
    (WRITETERMINAL, codes ([NEWLINE] @ nl ''Adder Test Completed''))]"
proof -
  let ?ts = "[nl ''Adder Test Begins'', ''Enter first number: '', ''Enter second number: '', ''Sum is: '',
    [NEWLINE] @ nl ''Adder Test Completed'']"
  let ?bs = "[''buf1'', ''buf2'', ''resultBuf'']"
  let ?im = "demo ?ts ?bs"
  let ?line = "\<lambda>a. if a = 0x80100000 then [49, 55, 10] else [50, 53, 10]"
  have arr: "arrays ?im (set ?ts) (map (\<lambda>(b, n). (loc ?im b, n)) [(''buf1'', 10), (''buf2'', 10), (''resultBuf'', 20)])"
    by (rule demo_arrays) (simp_all add: nl_def slot_def)
  have l: "loaded ?im (umem (demo_state ?ts)) (set ?ts)"
    by (rule demo_state_loaded) (simp_all add: nl_def)
  have t: "types_in (typist ?line) (loc ?im ''buf1'') ([49, 55] @ [10])"
    "types_in (typist ?line) (loc ?im ''buf2'') ([50, 53] @ [10])"
    using typist(2) [of ?line "loc ?im ''buf1''"] typist(2) [of ?line "loc ?im ''buf2''"]
    by (simp_all add: demo_def slot_def)
  have v: "decimal (value_from 0 [49, 55] + value_from 0 [50, 53]) = [52, 50]"
    by (simp add: value_from_def decimal.simps)
  have "dies (typist ?line) (haris ?im (demo_state ?ts)) [(WRITETERMINAL, codes (nl ''Adder Test Begins'')),
    (WRITETERMINAL, codes ''Enter first number: ''), (WRITETERMINAL, codes ''Enter second number: ''),
    (WRITETERMINAL, codes ''Sum is: ''), (WRITETERMINAL, decimal (value_from 0 [49, 55] + value_from 0 [50, 53])),
    (WRITETERMINAL, codes ([NEWLINE] @ nl ''Adder Test Completed''))]"
    by (rule haris_adds [OF typist(1) refl l _ t]) (use arr in \<open>simp_all add: digit_def\<close>)
  then show ?thesis unfolding v by blast
qed

text \<open>On the kernel of the example.\<close>

theorem fib_programs_succeed_witness:
  "\<exists>im s. fib 7 = Some 13 \<and> dies example_kernel (fibSeven im s) (map (\<lambda>t. (WRITETERMINAL, codes (nl t)))
    [''Recursive Fibanaci (7) Test starts'', ''Recursion Concluded'', ''Recursion Concluded Successfully''])"
proof -
  let ?ts = "[nl ''Recursive Fibanaci (7) Test starts'', nl ''Recursion Concluded'', nl ''Recursion Concluded Successfully'']"
  have "loaded (demo ?ts []) (umem (demo_state ?ts)) (set ?ts)"
    by (rule demo_state_loaded) (simp_all add: nl_def)
  then have l: "loaded (demo ?ts []) (umem (demo_state ?ts)) {nl ''Recursive Fibanaci (7) Test starts'',
      nl ''Recursion Concluded'', nl ''Recursion Concluded Successfully''}" by simp
  have n: "fibonacci 7 = 13" by code_simp
  show ?thesis
    using fib_programs_succeed [OF example_serving, of fibSeven "''Recursive Fibanaci (7) Test starts''", OF _ l, of 7]
    by (auto simp: n)
qed


end
