(* ===== verification/TesterChecks.thy ===== *)
theory TesterChecks
  imports UserMemory
begin

text \<open>
  The user programs that test the kernel: the fixed texts of the printer and terminal tests, the pages
  that \<open>swapStress\<close> writes and reads back, and what \<open>delayTest\<close> and \<open>timeOfDay\<close> report of the clock.
\<close>

section \<open>Fixed texts\<close>

lemma texts_printed:
  assumes "serving h" and "loaded im (umem s) (snd ` set dts)"
    and "(prog, dts) \<in> {(printerTest, [(WRITETERMINAL, nl ''printTest is ok''), (WRITEPRINTER, nl ''printTest is ok'')]),
      (terminalTest1, [(WRITETERMINAL, nl ''printTest is ok''), (WRITETERMINAL, nl ''Test Number 1'')]),
      (terminalTest2, [(WRITETERMINAL, nl ''printTest is ok''), (WRITETERMINAL, nl ''Test Number 2 is ok'')]),
      (terminalTest3, [(WRITETERMINAL, nl ''printTest is ok''), (WRITETERMINAL, nl ''Test number 3 is ok'')]),
      (terminalTest4, [(WRITETERMINAL, nl ''printTest is ok''), (WRITETERMINAL, nl ''Test number 4 is ok'')]),
      (terminalTest5, [(WRITETERMINAL, nl ''printTest is ok''), (WRITETERMINAL, nl ''Test number 5 is ok'')]),
      (terminalTest6, [(WRITETERMINAL, nl ''printTest is ok''), (WRITETERMINAL, nl ''Test number 6 is ok'')]),
      (terminalTest7, [(WRITETERMINAL, nl ''printTest is ok''), (WRITETERMINAL, nl ''Test number 7 is ok'')]),
      (terminalTest8, [(WRITETERMINAL, nl ''printTest is ok''), (WRITETERMINAL, nl ''Test number 8 is ok'')])}"
  shows "dies h (prog im s) (map (\<lambda>(d, t). (d, codes t)) dts)"
proof -
  have "\<forall>(d, t) \<in> set dts. \<not> quiet d \<and> t \<in> snd ` set dts" using assms(3) by (auto simp: quiet_def)
  then have "dies h (seq (map (\<lambda>(d, t). say im d t) dts @ [call TERMINATE 0 0 0]) s) (map (\<lambda>(d, t). (d, codes t)) dts)"
    by (rule says_dies [OF assms(1,2)])
  moreover have "prog im = seq (map (\<lambda>(d, t). say im d t) dts @ [call TERMINATE 0 0 0])"
    using assms(3)
    by (auto simp del: seq.simps simp: printerTest_def terminalTest1_def terminalTest2_def terminalTest3_def
        terminalTest4_def terminalTest5_def terminalTest6_def terminalTest7_def terminalTest8_def)
  ultimately show ?thesis by simp
qed

section \<open>Programs whose texts depend on the answers\<close>

text \<open>As \<open>dies\<close>, from the \<open>i\<close>-th request on.\<close>

definition dies_at :: "uenv \<Rightarrow> nat \<Rightarrow> 'a act \<Rightarrow> (u32 \<times> 8 word list) list \<Rightarrow> bool" where
  "dies_at h i t out \<longleftrightarrow> (\<exists>tr s. urun t h i = (tr, Terminated s) \<and> printout tr = out)"

lemma at_call:
  assumes "quiet n" and "\<exists>v s'. h i (n, a1, a2, a3) s = Some (v, s') \<and> P v s'"
    and "\<And>v s'. P v s' \<Longrightarrow> dies_at h (Suc i) (f v s') out"
  shows "dies_at h i (abind (SYSCALL n a1 a2 a3 s) f) out"
proof -
  obtain v s' where "h i (n, a1, a2, a3) s = Some (v, s')" "P v s'" using assms(2) by blast
  moreover obtain tr u where "urun (f v s') h (Suc i) = (tr, Terminated u)" "printout tr = out"
    using assms(3) [OF calculation(2)] unfolding dies_at_def by blast
  ultimately show ?thesis using assms(1) by (auto simp: dies_at_def printed_def quiet_def)
qed

lemma at_refused: "umem s = m \<Longrightarrow> serving h \<Longrightarrow> n \<notin> {10..18} \<Longrightarrow> dies_at h i (abind (SYSCALL n a1 a2 a3 s) f) []"
  using dies_first [OF dies_refused] unfolding dies_def dies_at_def by blast

lemma at_say:
  assumes m: "umem s = m" and "serving h" and "loaded im m T" and "t \<in> T"
    and "\<And>s'. umem s' = m \<Longrightarrow> dies_at h (Suc i) (f s') out"
  shows "dies_at h i (abind (say im WRITETERMINAL t s) (\<lambda>_. f)) ((WRITETERMINAL, codes t) # out)"
proof -
  obtain tr s' where s': "urun (say im WRITETERMINAL t s) h i = (tr, Returned () s')" "umem s' = m"
    "printout tr = [(WRITETERMINAL, codes t)]" "length tr = 1"
    using say_one [OF assms(2) _ assms(4), of im s WRITETERMINAL i] assms(3) m by (auto simp: quiet_def)
  obtain tr' u where "urun (f s') h (Suc i) = (tr', Terminated u)" "printout tr' = out"
    using assms(5) [OF s'(2)] unfolding dies_at_def by blast
  then show ?thesis using s' by (auto simp: dies_at_def urun_abind after_def)
qed

text \<open>The answers to \<open>GET_TOD\<close> and \<open>DELAY\<close>: the clock at that request, and any value.\<close>

definition keeps_time :: "uenv \<Rightarrow> (nat \<Rightarrow> u32) \<Rightarrow> bool" where
  "keeps_time h clock \<longleftrightarrow> (\<forall>i s. (\<exists>s'. h i (GET_TOD, 0, 0, 0) s = Some (clock i, s') \<and> umem s' = umem s)
     \<and> (\<exists>v s'. h i (DELAY, 2, 0, 0) s = Some (v, s') \<and> umem s' = umem s))"

lemma at_time:
  assumes "umem s = m" and "keeps_time h clock" and "\<And>s'. umem s' = m \<Longrightarrow> dies_at h (Suc i) (f (clock i) s') out"
  shows "dies_at h i (abind (SYSCALL GET_TOD 0 0 0 s) f) out"
  by (rule at_call [where P = "\<lambda>v s'. v = clock i \<and> umem s' = umem s"])
     (use assms in \<open>auto simp: keeps_time_def quiet_def\<close>)

lemma at_delay:
  assumes "umem s = m" and "keeps_time h clock" and "\<And>s'. umem s' = m \<Longrightarrow> dies_at h (Suc i) (f s') out"
  shows "dies_at h i (abind (call DELAY 2 0 0 s) (\<lambda>_. f)) out"
  unfolding call_def abind_assoc abind.simps
  by (rule at_call [where P = "\<lambda>v s'. umem s' = umem s"])
     (use assms in \<open>auto simp: keeps_time_def quiet_def\<close>)

lemma say_if: "(if b then say im d t else say im d t') s = say im d (if b then t else t') s"
  by simp

lemmas at_steps = at_time at_delay

lemma delayTest_runs:
  assumes h: "serving h" and k: "keeps_time h clock" and l: "loaded im (umem s) T"
    and T: "T = {nl ''Delay test starts'', nl ''Delay Test error: time decreasing'', nl ''Delay Test ok: time increasing'',
      nl ''Delay Test error: did not delay one second'', nl ''Delay Test ok: two second delay'', nl ''Delay Test completed''}"
  shows "dies_at h 0 (delayTest im s) [(WRITETERMINAL, codes (nl ''Delay test starts'')),
    (WRITETERMINAL, codes (if clock (Suc (Suc (Suc 0))) < clock (Suc (Suc 0))
       then nl ''Delay Test error: time decreasing'' else nl ''Delay Test ok: time increasing'')),
    (WRITETERMINAL, codes (if clock (Suc (Suc (Suc (Suc (Suc (Suc 0)))))) - clock (Suc (Suc (Suc 0))) < SECOND
       then nl ''Delay Test error: did not delay one second'' else nl ''Delay Test ok: two second delay'')),
    (WRITETERMINAL, codes (nl ''Delay Test completed''))]"
  unfolding delayTest_def say_if
  by (rule at_time [OF refl k])
     (erule at_steps [OF _ k] at_say [OF _ h l] at_refused [OF _ h] | simp add: T; fail)+

lemma timeOfDay_runs:
  assumes h: "serving h" and k: "keeps_time h clock" and l: "loaded im (umem s) T"
    and T: "T = {nl ''todTest starts'', nl ''todTest error: time decreasing'', nl ''todTest ok: time increasing'',
      nl ''todTest error: did not delay one second'', nl ''todTest ok: one second delay'', nl ''todTest completed''}"
  shows "dies_at h 0 (timeOfDay im s) [(WRITETERMINAL, codes (nl ''todTest starts'')),
    (WRITETERMINAL, codes (if clock (Suc (Suc (Suc 0))) < clock (Suc (Suc 0))
       then nl ''todTest error: time decreasing'' else nl ''todTest ok: time increasing'')),
    (WRITETERMINAL, codes (if clock (Suc (Suc (Suc (Suc (Suc 0))))) - clock (Suc (Suc (Suc 0))) < SECOND
       then nl ''todTest error: did not delay one second'' else nl ''todTest ok: one second delay'')),
    (WRITETERMINAL, codes (nl ''todTest completed''))]"
  unfolding timeOfDay_def say_if
  by (rule at_time [OF refl k])
     (erule at_steps [OF _ k] at_say [OF _ h l] at_refused [OF _ h] | simp add: T; fail)+

section \<open>Words in user memory\<close>

definition quad :: "u32 \<Rightarrow> 8 word list" where
  "quad v = [ucast v, ucast (drop_bit 8 v), ucast (drop_bit 16 v), ucast (drop_bit 24 v)]"

lemma length_quad [simp]: "length (quad v) = 4"
  by (simp add: quad_def)

lemma quad_word:
  "(ucast (ucast v :: 8 word) OR push_bit 8 (ucast (ucast (drop_bit 8 v) :: 8 word))
     OR push_bit 16 (ucast (ucast (drop_bit 16 v) :: 8 word))
     OR push_bit 24 (ucast (ucast (drop_bit 24 v) :: 8 word))) = (v :: u32)"
proof (rule bit_word_eqI)
  fix n :: nat assume "n < LENGTH(32)"
  then consider "n < 8" | "8 \<le> n" "n < 16" | "16 \<le> n" "n < 24" | "24 \<le> n" "n < 32" by force
  then show "bit (ucast (ucast v :: 8 word) OR push_bit 8 (ucast (ucast (drop_bit 8 v) :: 8 word))
     OR push_bit 16 (ucast (ucast (drop_bit 16 v) :: 8 word))
     OR push_bit 24 (ucast (ucast (drop_bit 24 v) :: 8 word)) :: u32) n \<longleftrightarrow> bit v n"
    by cases (auto simp: bit_simps)
qed

lemma umem_put_int: "in_kuseg a 4 \<Longrightarrow> umem (put_int a v s) = overlay a (quad v) (umem s)"
proof -
  assume "in_kuseg a 4"
  moreover have "put_int a v s = write_user a (quad v) s" by (simp only: put_int_def quad_def)
  ultimately show ?thesis using umem_write_user [of a "quad v" s] by simp
qed

lemma get_int_quad:
  assumes "in_kuseg a 4" and "chars_at (umem s) a 4 = quad v"
  shows "get_int a s = v"
proof -
  have "bytes s (a + of_nat j) = quad v ! j" if "j < 4" for j
    using chars_at_nth [OF assms(2) that] in_kuseg_add [OF assms(1), of j] that by (simp add: umem_def)
  from this [of 0] this [of 1] this [of 2] this [of 3] show ?thesis
    using quad_word [of v] by (simp add: get_int_def quad_def)
qed

section \<open>The pages of swapStress\<close>

definition pages :: "nat set \<Rightarrow> u32 set" where
  "pages I = (\<Union>i \<in> I. block (page_word i) 4)"

lemma page_word: "i < 100 \<Longrightarrow> unat (page_word i) = 0x80000000 + 4096 * i"
proof -
  assume "i < 100"
  moreover have "page_word i = of_nat (0x80000000 + 4096 * i)" by (simp add: page_word_def)
  ultimately show ?thesis by (simp only:) (rule unat_of_nat_small, simp)
qed

lemma page_kuseg: "i < 100 \<Longrightarrow> in_kuseg (page_word i) 4"
  by (simp add: in_kuseg_def page_word word_le_nat_alt)

lemma pages_apart: "i < 100 \<Longrightarrow> j < 100 \<Longrightarrow> i \<noteq> j \<Longrightarrow> block (page_word i) 4 \<inter> block (page_word j) 4 = {}"
proof (induction i j rule: linorder_wlog)
  case (le i j)
  then show ?case by (intro block_apart) (simp_all add: page_word)
qed (simp add: Int_commute)

lemma fill_pages_run:
  "set is \<subseteq> {..<100} \<Longrightarrow> (\<forall>j \<in> set is. chars_at (umem (fill_pages is s)) (page_word j) 4 = quad (of_nat j))
    \<and> (\<forall>x. x \<notin> pages (set is) \<longrightarrow> umem (fill_pages is s) x = umem s x)"
proof (induction "is" rule: rev_induct)
  case (snoc i "is")
  let ?u = "fill_pages is s"
  have i: "i < 100" "set is \<subseteq> {..<100}" using snoc.prems by auto
  have u: "umem (fill_pages (is @ [i]) s) = overlay (page_word i) (quad (of_nat i)) (umem ?u)"
    using umem_put_int [OF page_kuseg [OF i(1)]] by (simp add: fill_pages_def)
  have "chars_at (umem (fill_pages (is @ [i]) s)) (page_word j) 4 = quad (of_nat j)" if "j \<in> set (is @ [i])" for j
  proof (cases "j = i")
    case True
    then show ?thesis using chars_at_overlay [of 4 "quad (of_nat i)"] by (simp add: u)
  next
    case False
    then have "j \<in> set is" "j < 100" using that i(2) by auto
    then show ?thesis
      using chars_at_apart [OF pages_apart [OF i(1)], of j "quad (of_nat i)" 4] False snoc.IH [OF i(2)] by (simp add: u)
  qed
  then show ?case using snoc.IH [OF i(2)] by (auto simp: u pages_def overlay_out)
qed (simp add: fill_pages_def)

lemma check_pages_ok:
  "\<forall>j \<in> set is. j < 100 \<and> chars_at (umem s) (page_word j) 4 = quad (of_nat j) \<Longrightarrow> check_pages im is s = Done False s"
  by (induction "is") (simp_all add: get_int_quad [OF page_kuseg])

section \<open>Properties\<close>

text \<open>What \<open>delayTest\<close> and \<open>timeOfDay\<close> report is true of the clock: with \<open>clock i\<close> the time the kernel
  gives at the \<open>i\<close>-th request, they report whether the second and the third reading increase, and whether
  the time from the third to the fourth is at least a second; then they are ended by the kernel, for
  asking for a service of the nucleus.\<close>

theorem clock_reports:
  assumes h: "serving h" and k: "keeps_time h clock" and l: "loaded im (umem s) (set (map nl ts))"
    and prog: "(prog, ts, n) \<in> {(delayTest, [''Delay test starts'', ''Delay Test error: time decreasing'',
        ''Delay Test ok: time increasing'', ''Delay Test error: did not delay one second'',
        ''Delay Test ok: two second delay'', ''Delay Test completed''], 6),
      (timeOfDay, [''todTest starts'', ''todTest error: time decreasing'', ''todTest ok: time increasing'',
        ''todTest error: did not delay one second'', ''todTest ok: one second delay'', ''todTest completed''], 5)}"
  shows "dies_at h 0 (prog im s) (map (\<lambda>t. (WRITETERMINAL, codes (nl t))) [ts ! 0,
    if clock 3 < clock 2 then ts ! 1 else ts ! 2, if clock n - clock 3 < SECOND then ts ! 3 else ts ! 4, ts ! 5])"
proof -
  have l': "loaded im (umem s) {nl a, nl b, nl c, nl d, nl e, nl f}" if "ts = [a, b, c, d, e, f]" for a b c d e f
    using l that by simp
  show ?thesis
    using prog l' delayTest_runs [OF h k, of im s] timeOfDay_runs [OF h k, of im s]
    by (auto simp: eval_nat_numeral)
qed


section \<open>Witnesses\<close>

text \<open>A kernel whose clock runs three times as fast as a second per request.\<close>

definition timely :: uenv where
  "timely i r s = (if fst r = GET_TOD then Some (of_nat (3000000 * i), s) else obliging i r s)"

lemma timely: "serving timely" "keeps_time timely (\<lambda>i. of_nat (3000000 * i))"
  using obliging by (auto simp: serving_def keeps_time_def timely_def obliging_def quiet_def)

theorem clock_reports_witness:
  "\<exists>im s. dies_at timely 0 (delayTest im s) (map (\<lambda>t. (WRITETERMINAL, codes (nl t)))
    [''Delay test starts'', ''Delay Test ok: time increasing'', ''Delay Test ok: two second delay'', ''Delay Test completed''])"
proof -
  let ?ts = "[''Delay test starts'', ''Delay Test error: time decreasing'', ''Delay Test ok: time increasing'',
    ''Delay Test error: did not delay one second'', ''Delay Test ok: two second delay'', ''Delay Test completed'']"
  have "loaded (demo (map nl ?ts) []) (umem (demo_state (map nl ?ts))) (set (map nl ?ts))"
    by (rule demo_state_loaded) (simp_all add: nl_def)
  from clock_reports [OF timely this, of delayTest 6] show ?thesis by auto
qed


end
