(* ===== verification/Spec2Isabelle.thy ===== *)
theory Spec2Isabelle
  imports DmaSpec DelaySpec TlbSpec TestSpec AnswerSpec Isolation FrameOwners TesterProps TesterChecks
begin

text \<open>
  A verification of the Pandos operating system for the uMPS3 machine: the C code of
  \<open>src/phase3\<close> with the data types, constants and macros of \<open>src/h\<close>, and of the user programs of
  \<open>src/testers\<close>.

  \<^bold>\<open>The program.\<close>  Pandos is a small kernel in layers.  The PCB module (\<open>pcb.c\<close>) keeps the 20 process
  control blocks: a free list, circular process queues and the process tree.  The active semaphore
  list (\<open>asl.c\<close>) keeps, per semaphore address, the queue of processes blocked on it.  The nucleus
  (\<open>initial.c\<close>, \<open>scheduler.c\<close>, \<open>exceptions.c\<close>, \<open>interrupts.c\<close>) runs with interrupts off, once per
  exception: it provides system calls 1 to 8, the scheduler, the local timer, the pseudo-clock and the
  device semaphores, and passes everything else up to the handlers a process has registered in its
  support structure.  The support level (\<open>initProc.c\<close>, \<open>vmSupport.c\<close>, \<open>sysSupport.c\<close>,
  \<open>delayDaemon.c\<close>, \<open>deviceSupportDMA.c\<close>) is the code of those handlers: it runs as part of a process,
  with interrupts on, and provides virtual memory and system calls 9 to 18.  The user programs
  (\<open>src/testers\<close>) are the eight processes this serves: each is a \<open>main\<close> that computes on its own memory
  and calls the support level.

  \<^bold>\<open>How it is modelled.\<close>
  \<^item> Every C integer is a 32-bit word (\<open>u32\<close>), a signed comparison or division is written with \<open>sint\<close>.
    A pointer into one of the static arrays is an index (\<open>ptr\<close>, \<open>NULL\<close> is none); an \<open>int *\<close> is the
    address itself, since the code orders and compares such addresses.
  \<^item> The state grows with the layers: \<open>pcb_mod\<close> (\<open>Pcb\<close>), \<open>asl_mod\<close> (\<open>Asl\<close>), \<open>kstate\<close> (\<open>Nucleus\<close>),
    \<open>sstate\<close> (\<open>Support\<close>), each a record that extends the one before, so that the operations of a layer
    are definitions on every state above it.  \<open>mem\<close> is the word memory: semaphores, bus and device
    registers; \<open>bytes\<close> the byte memory of the user pages and DMA frames.  \<open>link\<close> is what the linker
    decides: the addresses of variables and functions.
  \<^item> A first level operation returns an option; \<open>None\<close> is a dereferenced \<open>NULL\<close> pointer.  A function of
    the nucleus returns \<open>Ret\<close>, or \<open>Exit\<close> with what it left to (\<open>LDST\<close>, \<open>LDCXT\<close>, \<open>HALT\<close>, \<open>PANIC\<close>,
    \<open>WAIT\<close>), or \<open>Stuck\<close> when the C code has no defined behaviour.
  \<^item> The code of the support level is an interaction tree (\<open>act\<close>): it computes until its next
    \<open>SYSCALL\<close> and goes on with the value and the state the nucleus resumes it with.  \<open>run\<close> executes it
    under an environment, which stands for the nucleus, all other processes and the devices, and
    gives the requests made, each with the state at that moment, and the end of the run.  Theorems
    quantify over all environments that are \<open>cooperative\<close>: a caller is resumed with its own saved
    states, address space identifier and memory, and \<open>GETSUPPORTPTR\<close> answers with the support structure.
    \<open>AnswerSpec\<close> proves that the nucleus answers so.
  \<^item> A user program is an interaction tree as well, whose requests are system calls 9 to 18; the addresses
    of its literals and arrays are a parameter (\<open>image\<close>), and a store outside an array is \<open>Undefined\<close>.
    \<open>urun\<close> executes it under an environment that stands for the whole kernel.  Theorems quantify over all
    environments that are \<open>serving\<close>: well-formed requests to write are accepted and leave user memory
    alone, and what is no system call of the support level ends the process.  \<open>ServeSpec\<close> proves that
    \<open>exceptionHandler\<close> followed by \<open>supportGenExceptionHandler\<close> is such an environment.
  \<^item> Loops over lists that end are recursive functions.  The searches that the data bounds only
    implicitly (\<open>findSemd_loop\<close>, \<open>lowest_device\<close>, \<open>wake_clock\<close>, \<open>find_slot\<close>) are partial
    functions, and theorems show that they return.  \<open>sysTerminate\<close> recurses through the process tree
    with \<open>terminate_fuel = 2 * MAXPROC + 2\<close>: each level of the tree takes one unit and each child of a
    node another, and there are at most \<open>MAXPROC\<close> processes (\<open>Termination\<close>).  The daemon's inner loop
    has \<open>adl_fuel\<close>, one more than the nodes of the list; its outer loop is endless and is modelled by
    its first \<open>n\<close> rounds.

  \<^bold>\<open>The theories.\<close>
  \<^item> \<open>Prelude\<close>, \<open>Interfaces\<close>: lemmas on words, linked lists and circular lists; the contracts (locales)
    of a pool of nodes, a process queue and a semaphore queue, with the client lemmas proved from them.
    They are interpreted on the PCB free list and queues (\<open>Pcb\<close>), the semaphore list (\<open>AslRefine\<close>)
    and the pool of support structures (\<open>SupportPool\<close>).
  \<^item> \<open>Types\<close>: \<open>h/types.h\<close>, \<open>h/const.h\<close>.
  \<^item> \<open>Pcb\<close>, \<open>PcbTree\<close>: \<open>pcb.c\<close>.  Queues are lists (first in, first out, removal of exactly one process),
    the free list is a supply of 20 reset PCBs, \<open>insertChild\<close> and \<open>outChild\<close> keep the lists of children.
  \<^item> \<open>Asl\<close>, \<open>AslRefine\<close>: \<open>asl.c\<close>.  \<open>asl_inv s B\<close> relates the sorted descriptor list to the abstract map
    \<open>B\<close> from semaphore addresses to waiting processes; every operation refines one on \<open>B\<close>.
  \<^item> \<open>Nucleus\<close>, \<open>Scheduler\<close>, \<open>Exceptions\<close>, \<open>Interrupts\<close>: the state and the functions of the nucleus.
  \<^item> \<open>KernelInv\<close>: the invariant \<open>kq s fr rq B L\<close>: every PCB is in exactly one place, the free list
    \<open>fr\<close>, the ready queue \<open>rq\<close>, a semaphore's queue in \<open>B\<close>, or in hand \<open>L\<close>.  \<open>Semaphores\<close>: P and V refine
    the operations of a counting semaphore.  \<open>Termination\<close>: what \<open>sysTerminate\<close> removes and repairs.
    \<open>Priorities\<close>: interrupt lines, devices and their semaphores.  \<open>Handlers\<close>, \<open>NucleusSpec\<close>: process
    creation, time slices, and the round trips of waiting for a device and for the clock.
    \<open>Forest\<close>: grafting and pruning of process trees.  \<open>KernelStep\<close>: the invariant \<open>kernel_ok\<close> of the
    whole nucleus and its preservation by every handler.  \<open>Reachable\<close>: the nucleus as a state machine
    from \<open>main\<close> on, in which no handler is ever stuck.  \<open>Frames\<close>, \<open>Isolation\<close>: a handler leaves the
    processes that are not running alone, and a preempted process is resumed where it was.
  \<^item> \<open>Support\<close>, \<open>InitProc\<close>, \<open>VmSupport\<close>, \<open>DelayDaemon\<close>, \<open>DeviceSupportDMA\<close>, \<open>SysSupport\<close>,
    \<open>Initial\<close>: the functions of the files of those names, in the order of their calls.
  \<^item> \<open>SupportSpec\<close>: environments and runs.  \<open>SupportPool\<close>: support structures and the end of a user
    process.  \<open>StringSpec\<close>: printer and terminal.  \<open>DmaSpec\<close>: disks and flash devices.  \<open>DelaySpec\<close>: the
    delay list, system call 18 and the daemon.  \<open>VmSpec\<close>, \<open>TlbSpec\<close>: page tables, the swap pool, the
    pager and the refill handler.  \<open>FrameOwners\<close>: the invariant of virtual memory, that the swap pool and
    the page tables of the live processes agree and no two pages share a frame: \<open>main\<close> establishes it,
    the pager keeps it as long as the processes that run while it waits do (\<open>considerate\<close>, a rely
    condition), and the end of a process keeps it in the sense of that condition.  \<open>SysSpec\<close>: refused calls, program traps, and that the handlers never
    return.  \<open>AnswerSpec\<close>: the nucleus as an environment.
  \<^item> \<open>BootSpec\<close>, \<open>TestSpec\<close>: \<open>main\<close> establishes all invariants; the first process starts the user
    processes and waits for them.

  \<^item> \<open>Testers\<close>: the user programs.  \<open>TesterSpec\<close>: their runs, the contract \<open>serving\<close>, printing, Fibonacci
    numbers.  \<open>ServeSpec\<close>: the kernel keeps that contract.  \<open>UserMemory\<close>: arrays, lines and the loops over
    characters.  \<open>TesterProps\<close>: the programs that compute.  \<open>TesterChecks\<close>: those that test the kernel.
    \<open>annie\<close>, \<open>terminalReader\<close> and \<open>diskIOtest\<close> are modelled without a theorem of their own.

  \<^bold>\<open>What the proofs showed.\<close>  The code meets its intent in most places; the exceptions are stated as
  theorems: the pager takes a TLB modification for a page fault, an address without a page table entry
  halts the machine in the refill handler, a flash error halts it in the pager, the interval timer
  leaves the count of blocked processes too high, a program trap releases the swap pool's lock without
  holding it (the rely condition of \<open>FrameOwners\<close> excludes the second pager this lets in), page 1 of all
  processes is marked valid with the same frame 0, negative block numbers pass the disk check, and long delays overflow.  Of the user programs
  \<open>asciiArt\<close> overflows its buffer, and those that read a line trust the user to keep it short.

  \<^bold>\<open>Not modelled.\<close>  A page fault in the middle of a copy from or to user memory is transparent in the model: the bytes
  are those of the user's address space.  The contents of the TLB are the machine's: the model records
  the operations made (\<open>tlb_log\<close>, \<open>tlb_ops\<close>) and takes the answer of a probe from the environment
  (\<open>tlbp_result\<close>).  The clock is an input (\<open>tod\<close>).  Stack use, the \<open>LDCXT\<close> stack areas and compiler
  layout are not modelled beyond the link map.
\<close>

end
